(* ===== verification/Lxd_Prelude.thy ===== *)
theory Lxd_Prelude
  imports Main "HOL-Library.Word" "HOL-Library.AList" "HOL-Library.Multiset"
begin

text \<open>
  Shared vocabulary of the development.

  \<^item> Go's \<^verbatim>\<open>int64\<close> and (64-bit) \<^verbatim>\<open>int\<close> are modelled by \<^typ>\<open>int\<close> with the
    two's-complement wrap-around written out by \<open>i64\<close>; \<open>i64_sint\<close> ties that function to
    the 64-bit words of the library.
  \<^item> A Go map is an association list: the order of the list is the (unspecified) order in
    which \<^verbatim>\<open>range\<close> visits the map, so a theorem about every list covers every
    iteration order.  \<open>mget\<close> is indexing with the zero value \<^verbatim>\<open>""\<close>, \<open>mhas\<close> the
    presence test.
  \<^item> Go's \<^verbatim>\<open>sort.Sort\<close> is not stable; what the code may rely on is the contract of the
    locale \<open>go_sort\<close> (a sorted permutation).  The locale is interpreted on insertion sort.
  \<^item> A result \<open>'e + 'a\<close> is Go's pair of a value and an error: \<open>Inl\<close> is a non-nil error.
\<close>

named_theorems wrap_simps \<open>rewriting of wrapped 64-bit arithmetic inside its range\<close>
named_theorems go_map_simps \<open>lookup, update and deletion on Go maps\<close>

section \<open>64-bit signed integers\<close>

definition i64 :: "int \<Rightarrow> int" where
  "i64 x = (x + 2 ^ 63) mod 2 ^ 64 - 2 ^ 63"

definition in_i64 :: "int \<Rightarrow> bool" where
  "in_i64 x \<longleftrightarrow> - (2 ^ 63) \<le> x \<and> x < 2 ^ 63"

lemma i64_sint: "i64 x = sint (word_of_int x :: 64 word)"
  by (simp add: i64_def sint_uint uint_word_of_int signed_take_bit_eq_take_bit_shift
      take_bit_eq_mod mod_simps)

lemma i64_id [wrap_simps]: "in_i64 x \<Longrightarrow> i64 x = x"
  by (simp add: i64_def in_i64_def)

lemma i64_in_range: "in_i64 (i64 x)"
proof -
  have "0 \<le> (x + 2 ^ 63) mod 2 ^ 64" "(x + 2 ^ 63) mod 2 ^ 64 < (2 ^ 64 :: int)"
    by (rule pos_mod_sign, simp) (rule pos_mod_bound, simp)
  then show ?thesis by (simp add: i64_def in_i64_def)
qed

lemma i64_small: "- 9223372036854775808 \<le> x \<Longrightarrow> x < 9223372036854775808 \<Longrightarrow> i64 x = x"
  by (rule i64_id) (simp add: in_i64_def)

section \<open>Go maps as association lists\<close>

type_synonym ('k, 'v) gomap = "('k \<times> 'v) list"
type_synonym strmap = "(string, string) gomap"

definition mhas :: "('k, 'v) gomap \<Rightarrow> 'k \<Rightarrow> bool" where
  "mhas m k \<longleftrightarrow> map_of m k \<noteq> None"

definition mget :: "('k, string) gomap \<Rightarrow> 'k \<Rightarrow> string" where
  "mget m k = (case map_of m k of None \<Rightarrow> [] | Some v \<Rightarrow> v)"

abbreviation keys_of :: "('k, 'v) gomap \<Rightarrow> 'k list" where
  "keys_of m \<equiv> map fst m"

abbreviation gomap_ok :: "('k, 'v) gomap \<Rightarrow> bool" where
  "gomap_ok m \<equiv> distinct (keys_of m)"

lemma mhas_iff [go_map_simps]: "mhas m k \<longleftrightarrow> k \<in> set (keys_of m)"
  by (simp add: mhas_def map_of_eq_None_iff)

lemma mget_absent [go_map_simps]: "k \<notin> set (keys_of m) \<Longrightarrow> mget m k = []"
  by (simp add: mget_def map_of_eq_None_iff [THEN iffD2])

lemma mget_present: "gomap_ok m \<Longrightarrow> (k, v) \<in> set m \<Longrightarrow> mget m k = v"
  by (simp add: mget_def)

lemma mget_Nil [simp]: "mget [] k = []"
  by (simp add: mget_def)

lemma mget_Cons [simp]: "mget ((a, v) # m) k = (if k = a then v else mget m k)"
  by (simp add: mget_def)

lemma mget_delete [go_map_simps]: "mget (AList.delete a m) k = (if k = a then [] else mget m k)"
  by (simp add: mget_def delete_conv')

lemma mget_update [go_map_simps]: "mget (AList.update a v m) k = (if k = a then v else mget m k)"
  by (simp add: mget_def update_conv')

lemma gomap_ok_perm: "mset m = mset m' \<Longrightarrow> gomap_ok m \<longleftrightarrow> gomap_ok m'"
  by (rule mset_eq_imp_distinct_iff) simp

lemma map_of_perm:
  assumes "gomap_ok m" "mset m = mset m'"
  shows "map_of m = map_of m'"
  using assms gomap_ok_perm [OF assms(2)] mset_eq_setD [OF assms(2)]
  by (simp add: map_of_inject_set)

lemma mget_perm: "gomap_ok m \<Longrightarrow> mset m = mset m' \<Longrightarrow> mget m = mget m'"
  by (rule ext) (simp add: mget_def map_of_perm)

section \<open>Sorting\<close>

definition sorted_by :: "('a \<Rightarrow> 'a \<Rightarrow> bool) \<Rightarrow> 'a list \<Rightarrow> bool" where
  "sorted_by lt xs \<longleftrightarrow> sorted_wrt (\<lambda>x y. \<not> lt y x) xs"

fun insert_by :: "('a \<Rightarrow> 'a \<Rightarrow> bool) \<Rightarrow> 'a \<Rightarrow> 'a list \<Rightarrow> 'a list" where
  "insert_by lt x [] = [x]"
| "insert_by lt x (y # ys) = (if lt y x then y # insert_by lt x ys else x # y # ys)"

definition sort_by :: "('a \<Rightarrow> 'a \<Rightarrow> bool) \<Rightarrow> 'a list \<Rightarrow> 'a list" where
  "sort_by lt xs = foldr (insert_by lt) xs []"

text \<open>
  A comparison that \<^verbatim>\<open>sort.Sort\<close> can be called with: a strict weak order.
\<close>

definition strict_weak :: "('a \<Rightarrow> 'a \<Rightarrow> bool) \<Rightarrow> bool" where
  "strict_weak lt \<longleftrightarrow>
     (\<forall>x. \<not> lt x x) \<and> (\<forall>x y z. lt x y \<longrightarrow> lt y z \<longrightarrow> lt x z) \<and>
     (\<forall>x y z. \<not> lt x y \<longrightarrow> \<not> lt y z \<longrightarrow> \<not> lt x z)"

lemma strict_weak_trans_le:
  "strict_weak lt \<Longrightarrow> \<not> lt y x \<Longrightarrow> \<not> lt z y \<Longrightarrow> \<not> lt z x"
  unfolding strict_weak_def by blast

lemma strict_weak_asym: "strict_weak lt \<Longrightarrow> lt x y \<Longrightarrow> \<not> lt y x"
  unfolding strict_weak_def by blast

lemma mset_insert_by [simp]: "mset (insert_by lt x xs) = add_mset x (mset xs)"
  by (induction xs) auto

lemma set_insert_by [simp]: "set (insert_by lt x xs) = insert x (set xs)"
  by (induction xs) auto

lemma mset_sort_by [simp]: "mset (sort_by lt xs) = mset xs"
  by (induction xs) (auto simp: sort_by_def)

lemma sorted_insert_by:
  assumes "strict_weak lt" "sorted_by lt xs"
  shows "sorted_by lt (insert_by lt x xs)"
  using assms(2)
proof (induction xs)
  case Nil
  then show ?case by (simp add: sorted_by_def)
next
  case (Cons y ys)
  then have tail: "sorted_by lt ys" and head: "\<forall>z \<in> set ys. \<not> lt z y"
    by (auto simp: sorted_by_def)
  show ?case
  proof (cases "lt y x")
    case True
    with Cons.IH [OF tail] head strict_weak_asym [OF assms(1)] show ?thesis
      by (auto simp: sorted_by_def)
  next
    case False
    with tail head strict_weak_trans_le [OF assms(1)] show ?thesis
      by (auto simp: sorted_by_def)
  qed
qed

lemma sorted_sort_by: "strict_weak lt \<Longrightarrow> sorted_by lt (sort_by lt xs)"
  by (induction xs) (auto simp: sort_by_def sorted_insert_by, simp add: sorted_by_def)

locale go_sort =
  fixes srt :: "('a \<Rightarrow> 'a \<Rightarrow> bool) \<Rightarrow> 'a list \<Rightarrow> 'a list"
  assumes srt_mset: "strict_weak lt \<Longrightarrow> mset (srt lt xs) = mset xs"
    and srt_sorted: "strict_weak lt \<Longrightarrow> sorted_by lt (srt lt xs)"
begin

lemma srt_set: "strict_weak lt \<Longrightarrow> set (srt lt xs) = set xs"
  by (rule mset_eq_setD) (rule srt_mset)

lemma srt_length: "strict_weak lt \<Longrightarrow> length (srt lt xs) = length xs"
  by (metis size_mset srt_mset)

end

interpretation isort: go_sort sort_by
  by unfold_locales (simp_all add: sorted_sort_by)

text \<open>
  When the comparison separates all the elements of a list, there is only one sorted
  permutation: the result of \<^verbatim>\<open>sort.Sort\<close> does not depend on its algorithm.
\<close>

lemma sorted_by_unique:
  assumes "mset xs = mset ys" "sorted_by lt xs" "sorted_by lt ys"
    and total: "\<And>x y. x \<in> set xs \<Longrightarrow> y \<in> set xs \<Longrightarrow> x \<noteq> y \<Longrightarrow> lt x y \<or> lt y x"
  shows "xs = ys"
  using assms
proof (induction xs arbitrary: ys)
  case Nil
  then show ?case by simp
next
  case (Cons x xs)
  then obtain y ys' where ys: "ys = y # ys'" by (cases ys) auto
  have "x \<in> set ys" "y \<in> set (x # xs)"
    using Cons.prems(1) ys by (metis list.set_intros(1) mset_eq_setD)+
  then have "x = y"
    using Cons.prems ys by (auto simp: sorted_by_def)
  moreover have "xs = ys'"
  proof (rule Cons.IH)
    show "mset xs = mset ys'" using Cons.prems(1) ys \<open>x = y\<close> by simp
  qed (use Cons.prems ys in \<open>auto simp: sorted_by_def\<close>)
  ultimately show ?case using ys by simp
qed

section \<open>Lists and results\<close>

lemma sorted_wrt_symp_perm:
  assumes "symp R" "mset xs = mset ys" "sorted_wrt R xs"
  shows "sorted_wrt R ys"
  using assms(2,3)
proof (induction xs arbitrary: ys)
  case (Cons x xs)
  then have "x \<in> set ys" by (metis list.set_intros(1) mset_eq_setD)
  then obtain us vs where ys: "ys = us @ x # vs" by (meson split_list)
  then have m: "mset xs = mset (us @ vs)" using Cons.prems(1) by simp
  then have "set xs = set (us @ vs)" by (rule mset_eq_setD)
  with Cons m have "sorted_wrt R (us @ vs)" "\<forall>y \<in> set (us @ vs). R x y" by auto
  then show ?case using assms(1) ys by (auto simp: sorted_wrt_append dest: sympD)
qed simp

fun first_error :: "('a \<Rightarrow> 'e option) \<Rightarrow> 'a list \<Rightarrow> 'e option" where
  "first_error f [] = None"
| "first_error f (x # xs) = (case f x of Some e \<Rightarrow> Some e | None \<Rightarrow> first_error f xs)"

lemma first_error_None: "first_error f xs = None \<longleftrightarrow> (\<forall>x \<in> set xs. f x = None)"
  by (induction xs) (auto split: option.splits)

lemma first_error_SomeD: "first_error f xs = Some e \<Longrightarrow> \<exists>x \<in> set xs. f x = Some e"
  by (induction xs) (auto split: option.splits)

lemma find_SomeD: "find P xs = Some x \<Longrightarrow> x \<in> set xs \<and> P x"
  by (induction xs) (auto split: if_splits)

lemma list_eq_nth_hd: "xs \<noteq> [] \<Longrightarrow> xs ! 0 = hd xs"
  by (simp add: hd_conv_nth)

end
