(* ===== verification/Go_Strings.thy ===== *)
theory Go_Strings
  imports Lxd_Prelude "HOL-Library.Sublist"
begin

text \<open>
  The parts of Go's \<^verbatim>\<open>strings\<close>, \<^verbatim>\<open>strconv\<close>, \<^verbatim>\<open>unicode\<close> and \<^verbatim>\<open>fmt\<close> packages
  that the modelled code calls.  A Go string is a sequence of bytes, a \<^typ>\<open>string\<close> a list
  of 8-bit characters.  Separators are single bytes in all the code modelled here.  Letter
  case is folded on ASCII letters only; every call compares the result with ASCII words that
  contain neither \<^verbatim>\<open>i\<close> nor \<^verbatim>\<open>k\<close> (the letters with non-ASCII variants that fold to
  ASCII), so the comparison has the same outcome as with Go's Unicode folding.
\<close>

section \<open>Package strings\<close>

fun split_on :: "char \<Rightarrow> string \<Rightarrow> string list" where
  "split_on c [] = [[]]"
| "split_on c (x # xs) =
     (if x = c then [] # split_on c xs
      else (case split_on c xs of [] \<Rightarrow> [[x]] | f # fs \<Rightarrow> (x # f) # fs))"

definition split2 :: "char \<Rightarrow> string \<Rightarrow> string list" where
  "split2 c s = (case dropWhile (\<lambda>x. x \<noteq> c) s of
     [] \<Rightarrow> [s] | _ # rest \<Rightarrow> [takeWhile (\<lambda>x. x \<noteq> c) s, rest])"

fun join_with :: "string \<Rightarrow> string list \<Rightarrow> string" where
  "join_with sep [] = []"
| "join_with sep [x] = x"
| "join_with sep (x # y # ys) = x @ sep @ join_with sep (y # ys)"

definition HasPrefix :: "string \<Rightarrow> string \<Rightarrow> bool" where
  "HasPrefix s p \<longleftrightarrow> take (length p) s = p"

definition HasSuffix :: "string \<Rightarrow> string \<Rightarrow> bool" where
  "HasSuffix s p \<longleftrightarrow> length p \<le> length s \<and> drop (length s - length p) s = p"

definition TrimSuffix :: "string \<Rightarrow> string \<Rightarrow> string" where
  "TrimSuffix s p = (if HasSuffix s p then take (length s - length p) s else s)"

definition TrimPrefix :: "string \<Rightarrow> string \<Rightarrow> string" where
  "TrimPrefix s p = (if HasPrefix s p then drop (length p) s else s)"

definition ContainsChar :: "string \<Rightarrow> char \<Rightarrow> bool" where
  "ContainsChar s c \<longleftrightarrow> c \<in> set s"

definition is_space :: "char \<Rightarrow> bool" where
  "is_space c \<longleftrightarrow> (let n = of_char c :: nat in n = 32 \<or> (9 \<le> n \<and> n \<le> 13))"

definition TrimSpace :: "string \<Rightarrow> string" where
  "TrimSpace s = rev (dropWhile is_space (rev (dropWhile is_space s)))"

text \<open>\<^verbatim>\<open>strings.Fields\<close>: the maximal runs of characters that are not white space.\<close>

fun fields_aux :: "string \<Rightarrow> string \<Rightarrow> string list" where
  "fields_aux acc [] = (if acc = [] then [] else [rev acc])"
| "fields_aux acc (c # cs) =
     (if is_space c then (if acc = [] then fields_aux [] cs else rev acc # fields_aux [] cs)
      else fields_aux (c # acc) cs)"

definition Fields :: "string \<Rightarrow> string list" where
  "Fields s = fields_aux [] s"

definition lower_char :: "char \<Rightarrow> char" where
  "lower_char c =
     (let n = of_char c :: nat in if 65 \<le> n \<and> n \<le> 90 then char_of (n + 32) else c)"

definition ToLower :: "string \<Rightarrow> string" where
  "ToLower s = map lower_char s"

definition EqualFold :: "string \<Rightarrow> string \<Rightarrow> bool" where
  "EqualFold s t \<longleftrightarrow> ToLower s = ToLower t"

text \<open>Go compares strings bytewise, lexicographically.\<close>

fun str_less :: "string \<Rightarrow> string \<Rightarrow> bool" where
  "str_less _ [] = False"
| "str_less [] (_ # _) = True"
| "str_less (x # xs) (y # ys) =
     ((of_char x :: nat) < of_char y \<or> x = y \<and> str_less xs ys)"

section \<open>Package strconv\<close>

datatype num_error = ErrSyntax | ErrRange

definition digit_val :: "char \<Rightarrow> nat option" where
  "digit_val c = (let n = of_char c :: nat in
     if 48 \<le> n \<and> n \<le> 57 then Some (n - 48)
     else if 97 \<le> n \<and> n \<le> 122 then Some (n - 97 + 10)
     else if 65 \<le> n \<and> n \<le> 90 then Some (n - 65 + 10)
     else None)"

text \<open>
  The digit loop: the first character that is not a digit of the base is a syntax error, the
  first digit that takes the value past the maximum is a range error.
\<close>

fun parse_digits :: "nat \<Rightarrow> nat \<Rightarrow> nat \<Rightarrow> string \<Rightarrow> nat \<times> num_error option" where
  "parse_digits b mx n [] = (n, None)"
| "parse_digits b mx n (c # cs) =
     (case digit_val c of
        None \<Rightarrow> (0, Some ErrSyntax)
      | Some v \<Rightarrow>
          if b \<le> v then (0, Some ErrSyntax)
          else if mx < n * b + v then (mx, Some ErrRange)
          else parse_digits b mx (n * b + v) cs)"

definition ParseUint :: "string \<Rightarrow> nat \<Rightarrow> nat \<Rightarrow> nat \<times> num_error option" where
  "ParseUint s base bits =
     (let mx = 2 ^ bits - 1 in
      if s = [] then (0, Some ErrSyntax)
      else if base \<noteq> 0 then parse_digits base mx 0 s
      else if hd s = CHR ''0'' \<and> 1 < length s \<and> (s ! 1 = CHR ''x'' \<or> s ! 1 = CHR ''X'') then
        (if length s < 3 then (0, Some ErrSyntax) else parse_digits 16 mx 0 (drop 2 s))
      else if hd s = CHR ''0'' then parse_digits 8 mx 0 (tl s)
      else parse_digits 10 mx 0 s)"

definition ParseInt :: "string \<Rightarrow> nat \<Rightarrow> nat \<Rightarrow> int \<times> num_error option" where
  "ParseInt s base bits =
     (if s = [] then (0, Some ErrSyntax)
      else let neg = (hd s = CHR ''-'');
               body = (if hd s = CHR ''+'' \<or> hd s = CHR ''-'' then tl s else s);
               (un, err) = ParseUint body base bits;
               cutoff = (2 ^ (bits - 1) :: nat)
           in if err = Some ErrSyntax then (0, Some ErrSyntax)
              else if \<not> neg \<and> cutoff \<le> un then (int cutoff - 1, Some ErrRange)
              else if neg \<and> cutoff < un then (- int cutoff, Some ErrRange)
              else ((if neg then - int un else int un), None))"

definition Atoi :: "string \<Rightarrow> int \<times> num_error option" where
  "Atoi s = ParseInt s 10 64"

section \<open>Package fmt: decimal output\<close>

definition digit_char :: "nat \<Rightarrow> char" where
  "digit_char d = char_of (48 + d)"

fun dec_of_nat :: "nat \<Rightarrow> string" where
  "dec_of_nat n = (if n < 10 then [digit_char n] else dec_of_nat (n div 10) @ [digit_char (n mod 10)])"

declare dec_of_nat.simps [simp del]

definition dec_of_int :: "int \<Rightarrow> string" where
  "dec_of_int i = (if i < 0 then CHR ''-'' # dec_of_nat (nat (- i)) else dec_of_nat (nat i))"

section \<open>Package unicode\<close>

text \<open>\<^verbatim>\<open>unicode.IsNumber\<close> of one byte read as a rune: the Latin-1 numbers.\<close>

definition IsNumber :: "char \<Rightarrow> bool" where
  "IsNumber c \<longleftrightarrow> (let n = of_char c :: nat in
     (48 \<le> n \<and> n \<le> 57) \<or> n \<in> {178, 179, 185, 188, 189, 190})"

section \<open>Lemmas on splitting and joining\<close>

lemma split_on_not_Nil [simp]: "split_on c s \<noteq> []"
  by (induction s) (auto split: list.splits)

lemma split_on_no_sep: "c \<notin> set s \<Longrightarrow> split_on c s = [s]"
  by (induction s) auto

lemma split_on_field_no_sep: "f \<in> set (split_on c s) \<Longrightarrow> c \<notin> set f"
proof (induction s arbitrary: f)
  case (Cons x xs)
  obtain g gs where g: "split_on c xs = g # gs" by (cases "split_on c xs") auto
  with Cons show ?case by (auto split: if_splits)
qed simp

lemma split_on_append:
  "c \<notin> set f \<Longrightarrow> split_on c (f @ c # s) = f # split_on c s"
  by (induction f) auto

lemma join_split_on: "join_with [c] (split_on c s) = s"
proof (induction s)
  case (Cons x xs)
  obtain g gs where g: "split_on c xs = g # gs" by (cases "split_on c xs") auto
  with Cons.IH show ?case by (cases gs) auto
qed simp

lemma split_on_join:
  assumes "fs \<noteq> []" "\<And>f. f \<in> set fs \<Longrightarrow> c \<notin> set f"
  shows "split_on c (join_with [c] fs) = fs"
  using assms
proof (induction "[c]" fs rule: join_with.induct)
  case (2 x)
  then show ?case by (simp add: split_on_no_sep)
next
  case (3 x y ys)
  then show ?case by (simp add: split_on_append)
qed simp

lemma split2_cases:
  "split2 c s = (if c \<in> set s then [takeWhile (\<lambda>x. x \<noteq> c) s, tl (dropWhile (\<lambda>x. x \<noteq> c) s)] else [s])"
proof (cases "c \<in> set s")
  case True
  then have "dropWhile (\<lambda>x. x \<noteq> c) s \<noteq> []" by (auto simp: dropWhile_eq_Nil_conv)
  with True show ?thesis by (auto simp: split2_def split: list.splits)
next
  case False
  then have d: "dropWhile (\<lambda>x. x \<noteq> c) s = []" by (auto simp: dropWhile_eq_Nil_conv)
  show ?thesis using False unfolding split2_def d by simp
qed

lemma split2_append: "c \<notin> set f \<Longrightarrow> split2 c (f @ c # s) = [f, s]"
  by (simp add: split2_cases takeWhile_append dropWhile_append)

lemma HasPrefix_prefix: "HasPrefix s p \<longleftrightarrow> prefix p s"
  by (metis HasPrefix_def append_take_drop_id append_eq_conv_conj prefix_def)

lemma HasSuffix_suffix: "HasSuffix s p \<longleftrightarrow> suffix p s"
proof
  assume "HasSuffix s p"
  then show "suffix p s"
    unfolding HasSuffix_def suffix_def by (metis append_take_drop_id)
next
  assume "suffix p s"
  then show "HasSuffix s p"
    by (auto simp: HasSuffix_def suffix_def)
qed

lemma HasSuffix_append [simp]: "HasSuffix (s @ p) p"
  by (simp add: HasSuffix_def)

lemma TrimSuffix_append [simp]: "TrimSuffix (s @ p) p = s"
  by (simp add: TrimSuffix_def)

lemma HasPrefix_append [simp]: "HasPrefix (p @ s) p"
  by (simp add: HasPrefix_def)

section \<open>The order of strings\<close>

lemma str_less_irrefl [simp]: "\<not> str_less s s"
  by (induction s) auto

lemma str_less_trans: "str_less a b \<Longrightarrow> str_less b c \<Longrightarrow> str_less a c"
proof (induction a b arbitrary: c rule: str_less.induct)
  case (2 y ys)
  then show ?case by (cases c) auto
next
  case (3 x xs y ys)
  then show ?case by (cases c) auto
qed simp

lemma str_less_linear: "s \<noteq> t \<Longrightarrow> str_less s t \<or> str_less t s"
proof (induction s t rule: str_less.induct)
  case (1 s)
  then show ?case by (cases s) auto
next
  case (3 x xs y ys)
  then show ?case by (cases "x = y") (auto simp: nat_neq_iff, metis linorder_less_linear of_char_eq_iff)
qed simp

lemma strict_weak_str_less: "strict_weak str_less"
  unfolding strict_weak_def using str_less_trans str_less_linear str_less_irrefl by metis

section \<open>Numbers: reading back what is printed, bounds\<close>

lemma digit_val_digit_char [simp]: "d < 10 \<Longrightarrow> digit_val (digit_char d) = Some d"
  by (simp add: digit_val_def digit_char_def of_char_of take_bit_eq_mod)

lemma digit_char_lits:
  "digit_char 0 = CHR ''0''" "digit_char 1 = CHR ''1''" "digit_char (Suc 0) = CHR ''1''"
  "digit_char 2 = CHR ''2''" "digit_char 3 = CHR ''3''" "digit_char 4 = CHR ''4''"
  "digit_char 5 = CHR ''5''" "digit_char 6 = CHR ''6''" "digit_char 7 = CHR ''7''"
  "digit_char 8 = CHR ''8''" "digit_char 9 = CHR ''9''"
  by code_simp+

lemma dec_of_nat_not_Nil [simp]: "dec_of_nat n \<noteq> []"
  by (subst dec_of_nat.simps) simp

lemma parse_digits_append:
  "parse_digits b mx n (s @ [c]) =
     (case parse_digits b mx n s of
        (m, None) \<Rightarrow> parse_digits b mx m [c]
      | r \<Rightarrow> r)"
  by (induction s arbitrary: n) (auto split: option.splits)

lemma parse_digits_dec_of_nat: "n \<le> mx \<Longrightarrow> parse_digits 10 mx 0 (dec_of_nat n) = (n, None)"
proof (induction n rule: dec_of_nat.induct)
  case (1 n)
  show ?case
  proof (cases "n < 10")
    case True
    with "1.prems" show ?thesis by (subst dec_of_nat.simps) simp
  next
    case False
    with "1" have IH: "parse_digits 10 mx 0 (dec_of_nat (n div 10)) = (n div 10, None)" by simp
    have "n div 10 * 10 + n mod 10 = n" by simp
    with False "1.prems" IH show ?thesis
      by (subst dec_of_nat.simps) (simp add: parse_digits_append)
  qed
qed

lemma dec_of_nat_digits: "c \<in> set (dec_of_nat n) \<Longrightarrow> \<exists>d < 10. c = digit_char d"
proof (induction n rule: dec_of_nat.induct)
  case (1 n)
  have "\<exists>d < 10. digit_char (n mod 10) = digit_char d"
    by (rule exI [of _ "n mod 10"]) simp
  with 1 show ?case
    by (subst (asm) (2) dec_of_nat.simps) (auto split: if_splits)
qed

lemma digit_char_code: "d < 10 \<Longrightarrow> (of_char (digit_char d) :: nat) = 48 + d"
  by (simp add: digit_char_def of_char_of take_bit_eq_mod)

lemma dec_of_nat_not_sep:
  assumes "(of_char c :: nat) < 48 \<or> 57 < (of_char c :: nat)"
  shows "c \<notin> set (dec_of_nat n)"
  using assms dec_of_nat_digits [of c n] digit_char_code by fastforce

lemma dec_of_nat_hd: "hd (dec_of_nat n) \<noteq> CHR ''-''" "hd (dec_of_nat n) \<noteq> CHR ''+''"
  using dec_of_nat_not_sep [of "CHR ''-''" n] dec_of_nat_not_sep [of "CHR ''+''" n]
    hd_in_set [OF dec_of_nat_not_Nil, of n] by force+

lemma ParseUint_dec_of_nat: "n < 2 ^ bits \<Longrightarrow> ParseUint (dec_of_nat n) 10 bits = (n, None)"
  by (simp add: ParseUint_def parse_digits_dec_of_nat)

lemma ParseInt_dec_of_int:
  assumes "- (2 ^ (bits - 1)) \<le> i" "i < 2 ^ (bits - 1)" "0 < bits"
  shows "ParseInt (dec_of_int i) 10 bits = (i, None)"
proof -
  have pow: "(2::nat) ^ bits = 2 * 2 ^ (bits - 1)"
    using assms(3) by (cases bits) auto
  show ?thesis
  proof (cases "i < 0")
    case True
    have n: "int (nat (- i)) \<le> int (2 ^ (bits - 1))" using assms True by simp
    then have "nat (- i) \<le> 2 ^ (bits - 1)" by (simp only: of_nat_le_iff)
    moreover have "0 < (2::nat) ^ (bits - 1)" by simp
    ultimately have "nat (- i) < 2 ^ bits" using pow by linarith
    from ParseUint_dec_of_nat [OF this] \<open>nat (- i) \<le> _\<close> True show ?thesis
      by (simp add: ParseInt_def dec_of_int_def)
  next
    case False
    have "int (nat i) < int (2 ^ (bits - 1))" using assms False by simp
    then have n: "nat i < 2 ^ (bits - 1)" by (simp only: of_nat_less_iff)
    then have "nat i < 2 ^ bits" using pow by linarith
    from ParseUint_dec_of_nat [OF this] n False dec_of_nat_hd [of "nat i"] show ?thesis
      by (simp add: ParseInt_def dec_of_int_def)
  qed
qed

lemma Atoi_dec_of_int: "in_i64 i \<Longrightarrow> Atoi (dec_of_int i) = (i, None)"
  unfolding Atoi_def by (rule ParseInt_dec_of_int) (auto simp: in_i64_def)

lemma parse_digits_le: "parse_digits b mx n s = (m, e) \<Longrightarrow> n \<le> mx \<Longrightarrow> m \<le> mx"
  by (induction b mx n s rule: parse_digits.induct) (auto split: option.splits if_splits)

lemma ParseUint_bound:
  assumes "ParseUint s base bits = (n, e)"
  shows "n < 2 ^ bits"
proof -
  have "n \<le> 2 ^ bits - 1"
    using assms unfolding ParseUint_def Let_def
    by (auto split: if_splits elim: parse_digits_le simp del: parse_digits.simps)
  moreover have "0 < (2::nat) ^ bits" by simp
  ultimately show ?thesis by linarith
qed

lemma ParseInt_bound:
  assumes "ParseInt s base bits = (i, e)"
  shows "- (2 ^ (bits - 1)) \<le> i" "i < 2 ^ (bits - 1)"
proof -
  have nn: "int u \<le> 2 ^ (bits - 1)" if "\<not> 2 ^ (bits - 1) < u" for u :: nat
    using that by (metis not_le_imp_less nat_less_le of_nat_le_iff of_nat_numeral of_nat_power
        linorder_not_less)
  have nl: "int u < 2 ^ (bits - 1)" if "\<not> 2 ^ (bits - 1) \<le> u" for u :: nat
    using that by (metis not_le of_nat_less_iff of_nat_numeral of_nat_power)
  show "- (2 ^ (bits - 1)) \<le> i" "i < 2 ^ (bits - 1)"
    using assms nn nl
    by (auto simp: ParseInt_def Let_def split: if_splits prod.splits)
       (smt (verit) of_nat_0_le_iff zero_less_power)+
qed

lemma Atoi_in_i64: "Atoi s = (i, e) \<Longrightarrow> in_i64 i"
  using ParseInt_bound [of s 10 64 i e] by (simp add: Atoi_def in_i64_def)

end
