(* ===== verification/Idmap.thy ===== *)
theory Idmap
  imports Go_Strings
begin

text \<open>
  The uid/gid maps of unprivileged containers: \<^verbatim>\<open>shared/idmap/idmapset_linux.go\<close>.

  An entry maps the namespace ids \<open>Nsid .. Nsid + Maprange - 1\<close> to the host ids from
  \<open>Hostid\<close> on, for uids, gids or both.  The theory holds the parser, the overlap tests, the
  operations of a set (\<open>Append\<close>, \<open>AddSafe\<close>, the two shifts), the construction of the set of
  the running process from \<^verbatim>\<open>/proc\<close> and of the default set, and their properties: exact
  characterisations of the overlap tests, the round trip of the shifts, what \<open>AddSafe\<close> does
  to every id, and that the default map is usable.

  Files, \<^verbatim>\<open>exec.LookPath\<close> and \<^verbatim>\<open>shared.PathExists\<close> are read through the record
  \<open>idmap_env\<close>.  \<^verbatim>\<open>shared.DeepCopy\<close> of an id map cannot fail and copies its value.
\<close>

section \<open>Data\<close>

record IdRange =
  rIsuid :: bool
  rIsgid :: bool
  Startid :: int
  Endid :: int

record IdmapEntry =
  Isuid :: bool
  Isgid :: bool
  Hostid :: int
  Nsid :: int
  Maprange :: int

type_synonym IdmapSet = "IdmapEntry list"

datatype idmap_error =
    BadIdmap string
  | BadIdmapType string
  | BadNumber num_error
  | IdWraparound
  | DoesNotApply
  | ErrHostIdIsSubId
  | ConflictingIdMapping
  | CantWork "string list"
  | UnexpectedValues string "string list"
  | NoSubids string string
  | NoMapSet
  | OpenFailed string

definition empty_entry :: IdmapEntry where
  "empty_entry = \<lparr>Isuid = False, Isgid = False, Hostid = 0, Nsid = 0, Maprange = 0\<rparr>"

section \<open>Operations on ranges and entries\<close>

definition Contains :: "IdRange \<Rightarrow> int \<Rightarrow> bool" where
  "Contains i x \<longleftrightarrow> Startid i \<le> x \<and> x \<le> Endid i"

definition lxc_line :: "char \<Rightarrow> IdmapEntry \<Rightarrow> string" where
  "lxc_line c e =
     [c] @ '' '' @ dec_of_int (Nsid e) @ '' '' @ dec_of_int (Hostid e) @ '' '' @ dec_of_int (Maprange e)"

definition ToLxcString :: "IdmapEntry \<Rightarrow> string list" where
  "ToLxcString e =
     (if Isuid e \<and> Isgid e then [lxc_line CHR ''u'' e, lxc_line CHR ''g'' e]
      else if Isuid e then [lxc_line CHR ''u'' e]
      else [lxc_line CHR ''g'' e])"

definition is_between :: "int \<Rightarrow> int \<Rightarrow> int \<Rightarrow> bool" where
  "is_between x low high \<longleftrightarrow> low \<le> x \<and> x < high"

definition same_kind :: "IdmapEntry \<Rightarrow> IdmapEntry \<Rightarrow> bool" where
  "same_kind e i \<longleftrightarrow> (Isuid e \<and> Isuid i) \<or> (Isgid e \<and> Isgid i)"

definition HostidsIntersect :: "IdmapEntry \<Rightarrow> IdmapEntry \<Rightarrow> bool" where
  "HostidsIntersect e i \<longleftrightarrow>
     same_kind e i \<and>
     (is_between (Hostid e) (Hostid i) (i64 (Hostid i + Maprange i)) \<or>
      is_between (Hostid i) (Hostid e) (i64 (Hostid e + Maprange e)) \<or>
      is_between (i64 (Hostid e + Maprange e)) (Hostid i) (i64 (Hostid i + Maprange i)) \<or>
      is_between (i64 (Hostid i + Maprange i)) (Hostid e) (i64 (Hostid e + Maprange e)))"

definition Intersects :: "IdmapEntry \<Rightarrow> IdmapEntry \<Rightarrow> bool" where
  "Intersects e i \<longleftrightarrow>
     same_kind e i \<and>
     (is_between (Hostid e) (Hostid i) (i64 (i64 (Hostid i + Maprange i) - 1)) \<or>
      is_between (Hostid i) (Hostid e) (i64 (i64 (Hostid e + Maprange e) - 1)) \<or>
      is_between (i64 (i64 (Hostid e + Maprange e) - 1)) (Hostid i) (i64 (i64 (Hostid i + Maprange i) - 1)) \<or>
      is_between (i64 (i64 (Hostid i + Maprange i) - 1)) (Hostid e) (i64 (i64 (Hostid e + Maprange e) - 1)) \<or>
      is_between (Nsid e) (Nsid i) (i64 (i64 (Nsid i + Maprange i) - 1)) \<or>
      is_between (Nsid i) (Nsid e) (i64 (i64 (Nsid e + Maprange e) - 1)) \<or>
      is_between (i64 (i64 (Nsid e + Maprange e) - 1)) (Nsid i) (i64 (i64 (Nsid i + Maprange i) - 1)) \<or>
      is_between (i64 (i64 (Nsid i + Maprange i) - 1)) (Nsid e) (i64 (i64 (Nsid e + Maprange e) - 1)))"

definition parse_u32 :: "string \<Rightarrow> idmap_error + int" where
  "parse_u32 s = (case ParseUint s 10 32 of
     (n, None) \<Rightarrow> Inr (int n) | (_, Some err) \<Rightarrow> Inl (BadNumber err))"

definition parse_kind :: "string \<Rightarrow> (bool \<times> bool) option" where
  "parse_kind t =
     (if t = ''u'' then Some (True, False)
      else if t = ''g'' then Some (False, True)
      else if t = ''b'' then Some (True, True)
      else None)"

definition parse :: "string \<Rightarrow> idmap_error + IdmapEntry" where
  "parse s =
     (case split_on CHR '':'' s of
        [t, a, b, c] \<Rightarrow>
          (case parse_kind t of
             None \<Rightarrow> Inl (BadIdmapType s)
           | Some (u, g) \<Rightarrow>
               (case parse_u32 a of Inl err \<Rightarrow> Inl err | Inr nsid \<Rightarrow>
               (case parse_u32 b of Inl err \<Rightarrow> Inl err | Inr hostid \<Rightarrow>
               (case parse_u32 c of Inl err \<Rightarrow> Inl err | Inr maprange \<Rightarrow>
                  if i64 (hostid + maprange) < hostid \<or> i64 (nsid + maprange) < nsid
                  then Inl IdWraparound
                  else Inr \<lparr>Isuid = u, Isgid = g, Hostid = hostid, Nsid = nsid, Maprange = maprange\<rparr>))))
      | _ \<Rightarrow> Inl (BadIdmap s))"

definition shift_into_ns :: "IdmapEntry \<Rightarrow> int \<Rightarrow> idmap_error + int" where
  "shift_into_ns e x =
     (if x < Nsid e \<or> i64 (Nsid e + Maprange e) \<le> x then Inl DoesNotApply
      else Inr (i64 (i64 (x - Nsid e) + Hostid e)))"

definition shift_from_ns :: "IdmapEntry \<Rightarrow> int \<Rightarrow> idmap_error + int" where
  "shift_from_ns e x =
     (if x < Hostid e \<or> i64 (Hostid e + Maprange e) \<le> x then Inl DoesNotApply
      else Inr (i64 (i64 (x - Hostid e) + Nsid e)))"

section \<open>Growing a slice\<close>

text \<open>
  \<^verbatim>\<open>Extend\<close> works on a slice: a backing array (its length is the capacity) and a length.
  When the slice is full the array is copied to one of capacity \<open>2 * len + 1\<close>.
\<close>

record 'a slice =
  backing :: "'a list"
  slen :: nat

definition elems :: "'a slice \<Rightarrow> 'a list" where
  "elems s = take (slen s) (backing s)"

definition slice_ok :: "'a slice \<Rightarrow> bool" where
  "slice_ok s \<longleftrightarrow> slen s \<le> length (backing s)"

definition Extend :: "'a \<Rightarrow> 'a slice \<Rightarrow> 'a \<Rightarrow> 'a slice" where
  "Extend zero s x =
     (let n = slen s;
          arr = (if n = length (backing s)
                 then take n (backing s) @ replicate (Suc (2 * n) - n) zero
                 else backing s)
      in \<lparr>backing = arr[n := x], slen = Suc n\<rparr>)"

text \<open>On the sets below a slice is the list of its elements, and \<^verbatim>\<open>Extend\<close> appends.\<close>

abbreviation extend_list :: "IdmapSet \<Rightarrow> IdmapEntry \<Rightarrow> IdmapSet" where
  "extend_list m e \<equiv> m @ [e]"

section \<open>Operations on sets\<close>

definition idmap_less :: "IdmapEntry \<Rightarrow> IdmapEntry \<Rightarrow> bool" where
  "idmap_less a b =
     (if Isuid a \<noteq> Isuid b then Isuid a
      else if Isgid a \<noteq> Isgid b then Isgid a
      else Nsid a < Nsid b)"

definition set_Intersects :: "IdmapSet \<Rightarrow> IdmapEntry \<Rightarrow> bool" where
  "set_Intersects m i = list_ex (\<lambda>e. Intersects i e) m"

definition set_HostidsIntersect :: "IdmapSet \<Rightarrow> IdmapEntry \<Rightarrow> bool" where
  "set_HostidsIntersect m i = list_ex (\<lambda>e. HostidsIntersect i e) m"

text \<open>The inner loop of \<^verbatim>\<open>ValidRanges\<close>: the first range that the entry continues grows.\<close>

fun grow_range :: "IdmapEntry \<Rightarrow> IdRange list \<Rightarrow> IdRange list option" where
  "grow_range e [] = None"
| "grow_range e (r # rs) =
     (if Isuid e = rIsuid r \<and> Isgid e = rIsgid r \<and> i64 (Endid r + 1) = Nsid e
      then Some (r\<lparr>Endid := i64 (Endid r + Maprange e)\<rparr> # rs)
      else map_option ((#) r) (grow_range e rs))"

definition new_range :: "IdmapEntry \<Rightarrow> IdRange" where
  "new_range e = \<lparr>rIsuid = Isuid e, rIsgid = Isgid e, Startid = Nsid e,
                  Endid = i64 (i64 (Nsid e + Maprange e) - 1)\<rparr>"

definition range_step :: "IdRange list \<Rightarrow> IdmapEntry \<Rightarrow> IdRange list" where
  "range_step rs e = (case grow_range e rs of Some rs' \<Rightarrow> rs' | None \<Rightarrow> rs @ [new_range e])"

type_synonym sorter = "(IdmapEntry \<Rightarrow> IdmapEntry \<Rightarrow> bool) \<Rightarrow> IdmapSet \<Rightarrow> IdmapSet"

definition ValidRanges :: "sorter \<Rightarrow> IdmapSet \<Rightarrow> IdRange list" where
  "ValidRanges srt m = foldl range_step [] (srt idmap_less m)"

text \<open>
  \<^verbatim>\<open>AddSafe\<close>: \<open>lower_part\<close> and \<open>upper_part\<close> are what remains of an entry on both sides of
  the new one.
\<close>

definition lower_part :: "IdmapEntry \<Rightarrow> IdmapEntry \<Rightarrow> IdmapEntry" where
  "lower_part e i = e\<lparr>Maprange := i64 (Nsid i - Nsid e)\<rparr>"

definition upper_part :: "IdmapEntry \<Rightarrow> IdmapEntry \<Rightarrow> IdmapEntry" where
  "upper_part e i =
     (let lm = Maprange (lower_part e i) in
      e\<lparr>Hostid := i64 (i64 (Hostid e + lm) + Maprange i),
        Nsid := i64 (Nsid i + Maprange i),
        Maprange := i64 (i64 (Maprange e - Maprange i) - lm)\<rparr>)"

definition break_apart :: "IdmapEntry \<Rightarrow> IdmapEntry \<Rightarrow> IdmapEntry list" where
  "break_apart e i =
     (if 0 < Maprange (lower_part e i) then [lower_part e i] else []) @ [i] @
     (if 0 < Maprange (upper_part e i) then [upper_part e i] else [])"

fun add_safe_loop :: "IdmapEntry \<Rightarrow> IdmapSet \<Rightarrow> IdmapEntry list \<Rightarrow> bool \<Rightarrow>
    idmap_error + (IdmapEntry list \<times> bool)" where
  "add_safe_loop i [] result added = Inr (result, added)"
| "add_safe_loop i (e # es) result added =
     (if \<not> Intersects e i then add_safe_loop i es (result @ [e]) added
      else if HostidsIntersect e i then Inl ErrHostIdIsSubId
      else add_safe_loop i es (result @ break_apart e i) True)"

definition AddSafe :: "IdmapSet \<Rightarrow> IdmapEntry \<Rightarrow> idmap_error + IdmapSet" where
  "AddSafe m i = (case add_safe_loop i m [] False of
     Inl err \<Rightarrow> Inl err
   | Inr (result, added) \<Rightarrow> Inr (if added then result else result @ [i]))"

definition add_line :: "string list \<Rightarrow> string \<Rightarrow> string list" where
  "add_line lines l =
     (let l' = l @ [char_of (10::nat)] in if l' \<in> set lines then lines else lines @ [l'])"

definition set_ToLxcString :: "IdmapSet \<Rightarrow> string list" where
  "set_ToLxcString m = foldl add_line [] (concat (map ToLxcString m))"

definition Append :: "IdmapSet \<Rightarrow> string \<Rightarrow> idmap_error + IdmapSet" where
  "Append m s = (case parse s of
     Inl err \<Rightarrow> Inl err
   | Inr e \<Rightarrow> if set_Intersects m e then Inl ConflictingIdMapping else Inr (extend_list m e))"

text \<open>
  \<^verbatim>\<open>doShiftIntoNs\<close>: the loop keeps \<open>-1\<close> in \<open>u\<close> and \<open>g\<close> until an entry applies.  A
  direction other than \<^verbatim>\<open>in\<close> and \<^verbatim>\<open>out\<close> leaves the zero values of the temporaries and no
  error.
\<close>

definition shift_one :: "string \<Rightarrow> IdmapEntry \<Rightarrow> int \<Rightarrow> idmap_error + int" where
  "shift_one how e x =
     (if how = ''in'' then shift_into_ns e x
      else if how = ''out'' then shift_from_ns e x
      else Inr 0)"

definition shift_step :: "string \<Rightarrow> bool \<Rightarrow> IdmapEntry \<Rightarrow> int \<Rightarrow> int \<Rightarrow> int" where
  "shift_step how applies e x cur =
     (if applies \<and> cur = -1
      then (case shift_one how e x of Inl _ \<Rightarrow> cur | Inr v \<Rightarrow> v)
      else cur)"

fun shift_loop :: "string \<Rightarrow> int \<Rightarrow> int \<Rightarrow> IdmapSet \<Rightarrow> int \<times> int \<Rightarrow> int \<times> int" where
  "shift_loop how uid gid [] acc = acc"
| "shift_loop how uid gid (e # es) (u, g) =
     shift_loop how uid gid es
       (shift_step how (Isuid e) e uid u, shift_step how (Isgid e) e gid g)"

definition doShiftIntoNs :: "IdmapSet \<Rightarrow> int \<Rightarrow> int \<Rightarrow> string \<Rightarrow> int \<times> int" where
  "doShiftIntoNs m uid gid how = shift_loop how uid gid m (-1, -1)"

definition ShiftIntoNs :: "IdmapSet \<Rightarrow> int \<Rightarrow> int \<Rightarrow> int \<times> int" where
  "ShiftIntoNs m uid gid = doShiftIntoNs m uid gid ''in''"

definition ShiftFromNs :: "IdmapSet \<Rightarrow> int \<Rightarrow> int \<Rightarrow> int \<times> int" where
  "ShiftFromNs m uid gid = doShiftIntoNs m uid gid ''out''"

section \<open>The maps of the running process and the default map\<close>

text \<open>
  \<open>file_lines\<close> is what a \<^verbatim>\<open>bufio.Scanner\<close> delivers for a file, \<open>None\<close> when it cannot be
  opened; \<open>path_exists\<close> is \<^verbatim>\<open>shared.PathExists\<close>; \<open>look_path\<close> is \<^verbatim>\<open>exec.LookPath\<close>
  with the empty string for a program that is not found.
\<close>

record idmap_env =
  file_lines :: "string \<Rightarrow> string list option"
  path_exists :: "string \<Rightarrow> bool"
  look_path :: "string \<Rightarrow> string"

fun shadow_loop :: "string \<Rightarrow> string \<Rightarrow> string list \<Rightarrow> (int \<times> int) list \<Rightarrow>
    idmap_error + (int \<times> int) list" where
  "shadow_loop fname user [] entries = Inr entries"
| "shadow_loop fname user (line # rest) entries =
     (let text = hd (split_on CHR ''#'' line) in
      if text = [] then shadow_loop fname user rest entries
      else
        (case split_on CHR '':'' text of
           f0 # f1 # f2 # _ \<Rightarrow>
             if EqualFold f0 user then
               (case (parse_u32 f1, parse_u32 f2) of
                  (Inr start, Inr sz) \<Rightarrow> shadow_loop fname user rest (entries @ [(start, sz)])
                | _ \<Rightarrow> shadow_loop fname user rest entries)
             else shadow_loop fname user rest entries
         | fs \<Rightarrow> Inl (UnexpectedValues fname fs)))"

definition getFromShadow :: "idmap_env \<Rightarrow> string \<Rightarrow> string \<Rightarrow> idmap_error + (int \<times> int) list" where
  "getFromShadow env fname user = (case file_lines env fname of
     None \<Rightarrow> Inl (OpenFailed fname)
   | Some lines \<Rightarrow> (case shadow_loop fname user lines [] of
       Inl err \<Rightarrow> Inl err
     | Inr entries \<Rightarrow> if entries = [] then Inl (NoSubids user fname) else Inr entries))"

fun proc_loop :: "string \<Rightarrow> string list \<Rightarrow> (int \<times> int \<times> int) list \<Rightarrow>
    idmap_error + (int \<times> int \<times> int) list" where
  "proc_loop fname [] entries = Inr entries"
| "proc_loop fname (line # rest) entries =
     (let text = hd (split_on CHR ''#'' line) in
      if text = [] then proc_loop fname rest entries
      else
        (case Fields text of
           f0 # f1 # f2 # _ \<Rightarrow>
             (case (parse_u32 f0, parse_u32 f1, parse_u32 f2) of
                (Inr start, Inr host, Inr sz) \<Rightarrow> proc_loop fname rest (entries @ [(start, host, sz)])
              | _ \<Rightarrow> proc_loop fname rest entries)
         | fs \<Rightarrow> Inl (UnexpectedValues fname fs)))"

definition getFromProc :: "idmap_env \<Rightarrow> string \<Rightarrow> idmap_error + (int \<times> int \<times> int) list" where
  "getFromProc env fname = (case file_lines env fname of
     None \<Rightarrow> Inl (OpenFailed fname)
   | Some lines \<Rightarrow> (case proc_loop fname lines [] of
       Inl err \<Rightarrow> Inl err
     | Inr entries \<Rightarrow> if entries = [] then Inl NoMapSet else Inr entries))"

definition proc_entry :: "bool \<Rightarrow> bool \<Rightarrow> int \<times> int \<times> int \<Rightarrow> IdmapEntry" where
  "proc_entry u g t = (case t of (start, host, sz) \<Rightarrow>
     \<lparr>Isuid = u, Isgid = g, Hostid = host, Nsid = start, Maprange = sz\<rparr>)"

definition current_part :: "idmap_env \<Rightarrow> string \<Rightarrow> bool \<Rightarrow> bool \<Rightarrow> IdmapSet \<Rightarrow> idmap_error + IdmapSet" where
  "current_part env fname u g m =
     (if path_exists env fname then
        (case getFromProc env fname of
           Inl err \<Rightarrow> Inl err
         | Inr entries \<Rightarrow> Inr (foldl extend_list m (map (proc_entry u g) entries)))
      else Inr (extend_list m (proc_entry u g (0, 0, 0))))"

definition CurrentIdmapSet :: "idmap_env \<Rightarrow> idmap_error + IdmapSet" where
  "CurrentIdmapSet env =
     (case current_part env ''/proc/self/uid_map'' True False [] of
        Inl err \<Rightarrow> Inl err
      | Inr m \<Rightarrow> current_part env ''/proc/self/gid_map'' False True m)"

definition entry_in_ranges :: "(IdRange \<Rightarrow> bool) \<Rightarrow> IdRange list \<Rightarrow> IdmapEntry \<Rightarrow> bool" where
  "entry_in_ranges sel ranges e =
     list_ex (\<lambda>r. sel r \<and> Contains r (Hostid e) \<and>
                  Contains r (i64 (i64 (Hostid e + Maprange e) - 1))) ranges"

definition Usable :: "sorter \<Rightarrow> idmap_env \<Rightarrow> IdmapEntry \<Rightarrow> idmap_error option" where
  "Usable srt env e = (case CurrentIdmapSet env of
     Inl err \<Rightarrow> Some err
   | Inr kernelIdmap \<Rightarrow>
       let kernelRanges = ValidRanges srt kernelIdmap in
       if Isuid e \<and> \<not> entry_in_ranges rIsuid kernelRanges e then Some (CantWork (ToLxcString e))
       else if Isgid e \<and> \<not> entry_in_ranges rIsgid kernelRanges e then Some (CantWork (ToLxcString e))
       else None)"

definition set_Usable :: "sorter \<Rightarrow> idmap_env \<Rightarrow> IdmapSet \<Rightarrow> idmap_error option" where
  "set_Usable srt env m = first_error (Usable srt env) m"

text \<open>The first shadow entry that is big enough; the loop of the source stops at it.\<close>

fun first_big :: "(int \<times> int) list \<Rightarrow> (int \<times> int) option" where
  "first_big [] = None"
| "first_big ((start, sz) # rest) = (if sz < 65536 then first_big rest else Some (start, sz))"

definition add_shadow :: "bool \<Rightarrow> bool \<Rightarrow> (int \<times> int) list \<Rightarrow> IdmapSet \<Rightarrow> IdmapSet" where
  "add_shadow u g entries m = (case first_big entries of
     None \<Rightarrow> m
   | Some (start, sz) \<Rightarrow>
       extend_list m \<lparr>Isuid = u, Isgid = g, Hostid = start, Nsid = 0, Maprange = sz\<rparr>)"

text \<open>
  The search for a kernel range of the wanted kind.  The source moves \<^verbatim>\<open>Startid\<close> in place,
  so the changed list is returned too.
\<close>

fun pick_range :: "(IdRange \<Rightarrow> bool) \<Rightarrow> IdRange list \<Rightarrow> IdRange list \<times> IdRange option" where
  "pick_range sel [] = ([], None)"
| "pick_range sel (r # rs) =
     (if \<not> sel r \<or> Endid r < 100000
      then (let (rs', found) = pick_range sel rs in (r # rs', found))
      else
        (let r' = (if Startid r < 100000 then r\<lparr>Startid := 100000\<rparr> else r) in
         if i64 (Endid r' - Startid r') < 65536
         then (let (rs', found) = pick_range sel rs in (r' # rs', found))
         else (r' # rs, Some r')))"

definition add_picked :: "bool \<Rightarrow> bool \<Rightarrow> IdRange option \<Rightarrow> IdmapSet \<Rightarrow> IdmapSet" where
  "add_picked u g found m = (case found of
     None \<Rightarrow> m
   | Some r \<Rightarrow> extend_list m \<lparr>Isuid = u, Isgid = g, Hostid = Startid r, Nsid = 0,
                              Maprange = i64 (i64 (Endid r - Startid r) + 1)\<rparr>)"

definition fallback_entry :: IdmapEntry where
  "fallback_entry = \<lparr>Isuid = True, Isgid = True, Hostid = 1000000, Nsid = 0, Maprange = 1000000000\<rparr>"

definition fullKernelRanges :: "IdRange list" where
  "fullKernelRanges =
     [\<lparr>rIsuid = True, rIsgid = False, Startid = 0, Endid = 4294967294\<rparr>,
      \<lparr>rIsuid = False, rIsgid = True, Startid = 0, Endid = 4294967294\<rparr>]"

definition shadow_available :: "idmap_env \<Rightarrow> bool" where
  "shadow_available env \<longleftrightarrow>
     look_path env ''newuidmap'' \<noteq> [] \<and> look_path env ''newgidmap'' \<noteq> [] \<and>
     path_exists env ''/etc/subuid'' \<and> path_exists env ''/etc/subgid''"

definition DefaultIdmapSet :: "sorter \<Rightarrow> idmap_env \<Rightarrow> idmap_error + IdmapSet" where
  "DefaultIdmapSet srt env =
     (if shadow_available env then
        (case getFromShadow env ''/etc/subuid'' ''root'' of
           Inl err \<Rightarrow> Inl err
         | Inr uids \<Rightarrow>
             (case getFromShadow env ''/etc/subgid'' ''root'' of
                Inl err \<Rightarrow> Inl err
              | Inr gids \<Rightarrow> Inr (add_shadow False True gids (add_shadow True False uids []))))
      else
        (case CurrentIdmapSet env of
           Inl _ \<Rightarrow> Inr [fallback_entry]
         | Inr kernelMap \<Rightarrow>
             let kernelRanges = ValidRanges srt kernelMap in
             if kernelRanges = fullKernelRanges then Inr [fallback_entry]
             else
               let (ranges1, u) = pick_range rIsuid kernelRanges;
                   (ranges2, g) = pick_range rIsgid ranges1
               in Inr (add_picked False True g (add_picked True False u []))))"

section \<open>Well-formed entries\<close>

definition id32 :: "int \<Rightarrow> bool" where
  "id32 x \<longleftrightarrow> 0 \<le> x \<and> x < 2 ^ 32"

definition wf_entry :: "IdmapEntry \<Rightarrow> bool" where
  "wf_entry e \<longleftrightarrow> id32 (Hostid e) \<and> id32 (Nsid e) \<and> id32 (Maprange e)"

definition wf_set :: "IdmapSet \<Rightarrow> bool" where
  "wf_set m \<longleftrightarrow> (\<forall>e \<in> set m. wf_entry e)"

definition maps_ns :: "IdmapEntry \<Rightarrow> int \<Rightarrow> bool" where
  "maps_ns e x \<longleftrightarrow> Nsid e \<le> x \<and> x < Nsid e + Maprange e"

definition maps_host :: "IdmapEntry \<Rightarrow> int \<Rightarrow> bool" where
  "maps_host e x \<longleftrightarrow> Hostid e \<le> x \<and> x < Hostid e + Maprange e"

lemmas wf_unfold = wf_entry_def id32_def

lemma wf_entry_range:
  assumes "wf_entry e"
  shows "0 \<le> Hostid e" "Hostid e < 4294967296" "0 \<le> Nsid e" "Nsid e < 4294967296"
    "0 \<le> Maprange e" "Maprange e < 4294967296"
  using assms by (auto simp: wf_unfold)

lemma i64_id33: "- 8589934592 \<le> x \<Longrightarrow> x \<le> 17179869184 \<Longrightarrow> i64 x = x"
  by (rule i64_small) linarith+

lemma wf_i64 [wrap_simps]:
  assumes "wf_entry e"
  shows "i64 (Hostid e + Maprange e) = Hostid e + Maprange e"
    "i64 (Nsid e + Maprange e) = Nsid e + Maprange e"
    "i64 (Hostid e + Maprange e - 1) = Hostid e + Maprange e - 1"
    "i64 (Nsid e + Maprange e - 1) = Nsid e + Maprange e - 1"
  using wf_entry_range [OF assms] by (simp_all add: i64_id33)

section \<open>Growing a slice appends\<close>

lemma Extend_appends:
  assumes "slice_ok s"
  shows "slice_ok (Extend zero s x)" "elems (Extend zero s x) = elems s @ [x]"
  using assms
  by (auto simp: slice_ok_def Extend_def elems_def Let_def take_Suc_conv_app_nth nth_append
      list_update_append take_update_swap min_def)

section \<open>What the overlap tests decide\<close>

text \<open>
  \<open>hit\<close> is the exact meaning of the four tests of \<^verbatim>\<open>Intersects\<close> on two non-empty ranges:
  the ranges overlap, but an overlap is missed when both end at the same id and one of them
  is a single id.
\<close>

definition hit :: "int \<Rightarrow> int \<Rightarrow> int \<Rightarrow> int \<Rightarrow> bool" where
  "hit a m b n \<longleftrightarrow> a < b + n \<and> b < a + m \<and> \<not> (a + m = b + n \<and> (m = 1 \<or> n = 1))"

lemma Intersects_hit:
  assumes "wf_entry e" "wf_entry i" "0 < Maprange e" "0 < Maprange i"
  shows "Intersects e i \<longleftrightarrow> same_kind e i \<and>
    (hit (Hostid e) (Maprange e) (Hostid i) (Maprange i) \<or>
     hit (Nsid e) (Maprange e) (Nsid i) (Maprange i))"
proof -
  have tests: "(is_between a b (b + n - 1) \<or> is_between b a (a + m - 1) \<or>
      is_between (a + m - 1) b (b + n - 1) \<or> is_between (b + n - 1) a (a + m - 1)) = hit a m b n"
    if "0 < m" "0 < n" for a b m n
    using that unfolding is_between_def hit_def by linarith
  show ?thesis
    unfolding Intersects_def tests [OF assms(3,4), symmetric]
    by (simp only: wf_i64 [OF assms(1)] wf_i64 [OF assms(2)]) blast
qed

lemma HostidsIntersect_touch:
  assumes "wf_entry e" "wf_entry i" "0 < Maprange e" "0 < Maprange i"
  shows "HostidsIntersect e i \<longleftrightarrow> same_kind e i \<and>
    Hostid e \<le> Hostid i + Maprange i \<and> Hostid i \<le> Hostid e + Maprange e"
  using assms(3,4) unfolding HostidsIntersect_def
  by (simp only: wf_i64 [OF assms(1)] wf_i64 [OF assms(2)] is_between_def) linarith

lemma same_kind_sym: "same_kind e i \<longleftrightarrow> same_kind i e"
  by (auto simp: same_kind_def)

section \<open>The parser\<close>

lemma parse_u32_id32: "parse_u32 s = Inr n \<Longrightarrow> id32 n"
proof -
  assume a: "parse_u32 s = Inr n"
  obtain k e where k: "ParseUint s 10 32 = (k, e)" by fastforce
  with a have "n = int k" by (auto simp: parse_u32_def split: option.splits)
  with ParseUint_bound [OF k] show ?thesis by (simp add: id32_def)
qed

lemma parse_wf: "parse s = Inr e \<Longrightarrow> wf_entry e"
  by (auto simp: parse_def wf_entry_def parse_u32_id32
      split: list.splits option.splits sum.splits prod.splits if_splits)

lemma parse_u32_dec: "id32 n \<Longrightarrow> parse_u32 (dec_of_int n) = Inr n"
  using ParseUint_dec_of_nat [of "nat n" 32]
  by (simp add: parse_u32_def dec_of_int_def id32_def nat_less_iff)

lemma dec_of_int_no_colon: "0 \<le> n \<Longrightarrow> CHR '':'' \<notin> set (dec_of_int n)"
  by (simp add: dec_of_int_def dec_of_nat_not_sep)

section \<open>The two shifts\<close>

definition lookup :: "(IdmapEntry \<Rightarrow> int) \<Rightarrow> (IdmapEntry \<Rightarrow> int) \<Rightarrow> (IdmapEntry \<Rightarrow> bool) \<Rightarrow>
    IdmapSet \<Rightarrow> int \<Rightarrow> int" where
  "lookup src dst sel m x =
     (case find (\<lambda>e. sel e \<and> src e \<le> x \<and> x < src e + Maprange e) m of
        None \<Rightarrow> -1 | Some e \<Rightarrow> x - src e + dst e)"

lemma lookup_Nil [simp]: "lookup src dst sel [] x = -1"
  by (simp add: lookup_def)

lemma lookup_Cons:
  "lookup src dst sel (e # m) x =
     (if sel e \<and> src e \<le> x \<and> x < src e + Maprange e then x - src e + dst e
      else lookup src dst sel m x)"
  by (simp add: lookup_def)

text \<open>
  The two directions obey one law, with the roles of \<open>Nsid\<close> and \<open>Hostid\<close> exchanged; the
  loop is analysed once, in the locale.
\<close>

locale entry_shift =
  fixes how :: string and src dst :: "IdmapEntry \<Rightarrow> int"
  assumes shift_one_wf: "wf_entry e \<Longrightarrow> shift_one how e x =
      (if src e \<le> x \<and> x < src e + Maprange e then Inr (x - src e + dst e) else Inl DoesNotApply)"
    and dst_nonneg: "wf_entry e \<Longrightarrow> 0 \<le> dst e"
begin

lemma shift_step_wf:
  "wf_entry e \<Longrightarrow> shift_step how applies e x cur =
     (if applies \<and> cur = -1 \<and> src e \<le> x \<and> x < src e + Maprange e then x - src e + dst e else cur)"
  by (simp add: shift_step_def shift_one_wf)

lemma shift_loop_found:
  assumes "wf_set m"
  shows "shift_loop how uid gid m (u, g) =
    (if u = -1 then lookup src dst Isuid m uid else u,
     if g = -1 then lookup src dst Isgid m gid else g)"
  using assms
proof (induction m arbitrary: u g)
  case (Cons e m)
  then have wf: "wf_entry e" and wfm: "wf_set m" by (auto simp: wf_set_def)
  have pos: "x - src e + dst e \<noteq> -1" if "src e \<le> x" for x
    using dst_nonneg [OF wf] that by linarith
  show ?case
    using pos by (simp add: shift_step_wf [OF wf] Cons.IH [OF wfm] lookup_Cons)
qed simp

lemma doShift_lookup:
  "wf_set m \<Longrightarrow> doShiftIntoNs m uid gid how =
     (lookup src dst Isuid m uid, lookup src dst Isgid m gid)"
  by (simp add: doShiftIntoNs_def shift_loop_found)

end

interpretation shift_in: entry_shift "''in''" Nsid Hostid
proof unfold_locales
  fix e x assume wf: "wf_entry e"
  have "i64 (i64 (x - Nsid e) + Hostid e) = x - Nsid e + Hostid e"
    if "Nsid e \<le> x" "x < Nsid e + Maprange e"
    using that wf_entry_range [OF wf] by (simp add: i64_id33)
  then show "shift_one ''in'' e x = (if Nsid e \<le> x \<and> x < Nsid e + Maprange e
      then Inr (x - Nsid e + Hostid e) else Inl DoesNotApply)"
    by (auto simp: shift_one_def shift_into_ns_def wf_i64 [OF wf])
  show "0 \<le> Hostid e" using wf_entry_range [OF wf] by simp
qed

interpretation shift_out: entry_shift "''out''" Hostid Nsid
proof unfold_locales
  fix e x assume wf: "wf_entry e"
  have "i64 (i64 (x - Hostid e) + Nsid e) = x - Hostid e + Nsid e"
    if "Hostid e \<le> x" "x < Hostid e + Maprange e"
    using that wf_entry_range [OF wf] by (simp add: i64_id33)
  then show "shift_one ''out'' e x = (if Hostid e \<le> x \<and> x < Hostid e + Maprange e
      then Inr (x - Hostid e + Nsid e) else Inl DoesNotApply)"
    by (auto simp: shift_one_def shift_from_ns_def wf_i64 [OF wf])
  show "0 \<le> Nsid e" using wf_entry_range [OF wf] by simp
qed

abbreviation into_ns :: "(IdmapEntry \<Rightarrow> bool) \<Rightarrow> IdmapSet \<Rightarrow> int \<Rightarrow> int" where
  "into_ns \<equiv> lookup Nsid Hostid"

abbreviation from_ns :: "(IdmapEntry \<Rightarrow> bool) \<Rightarrow> IdmapSet \<Rightarrow> int \<Rightarrow> int" where
  "from_ns \<equiv> lookup Hostid Nsid"

lemma ShiftIntoNs_lookup:
  "wf_set m \<Longrightarrow> ShiftIntoNs m uid gid = (into_ns Isuid m uid, into_ns Isgid m gid)"
  unfolding ShiftIntoNs_def by (rule shift_in.doShift_lookup)

lemma ShiftFromNs_lookup:
  "wf_set m \<Longrightarrow> ShiftFromNs m uid gid = (from_ns Isuid m uid, from_ns Isgid m gid)"
  unfolding ShiftFromNs_def by (rule shift_out.doShift_lookup)

lemma lookup_SomeE:
  assumes "lookup src dst sel m x \<noteq> -1"
  obtains e where "e \<in> set m" "sel e" "src e \<le> x" "x < src e + Maprange e"
    "lookup src dst sel m x = x - src e + dst e"
proof -
  from assms obtain e where f: "find (\<lambda>e. sel e \<and> src e \<le> x \<and> x < src e + Maprange e) m = Some e"
    by (auto simp: lookup_def split: option.splits)
  then have "lookup src dst sel m x = x - src e + dst e" by (simp add: lookup_def)
  with find_SomeD [OF f] show thesis by (auto intro: that)
qed

lemma lookup_unique:
  assumes "e \<in> set m" "sel e" "src e \<le> x" "x < src e + Maprange e"
    and all: "\<And>f. f \<in> set m \<Longrightarrow> sel f \<Longrightarrow> src f \<le> x \<Longrightarrow> x < src f + Maprange f \<Longrightarrow>
      x - src f + dst f = x - src e + dst e"
  shows "lookup src dst sel m x = x - src e + dst e"
proof -
  from assms(1-4) obtain f where f: "find (\<lambda>e. sel e \<and> src e \<le> x \<and> x < src e + Maprange e) m = Some f"
    by (metis (no_types, lifting) find_None_iff option.exhaust)
  from find_SomeD [OF f] have "x - src f + dst f = x - src e + dst e" by (blast intro: all)
  with f show ?thesis by (simp add: lookup_def)
qed

lemma lookup_none:
  assumes "\<And>f. f \<in> set m \<Longrightarrow> sel f \<Longrightarrow> \<not> (src f \<le> x \<and> x < src f + Maprange f)"
  shows "lookup src dst sel m x = -1"
  using assms by (induction m) (auto simp: lookup_Cons)

definition host_disjoint :: "(IdmapEntry \<Rightarrow> bool) \<Rightarrow> IdmapSet \<Rightarrow> bool" where
  "host_disjoint sel m \<longleftrightarrow>
     (\<forall>e \<in> set m. \<forall>f \<in> set m. sel e \<longrightarrow> sel f \<longrightarrow>
        e = f \<or> Hostid e + Maprange e \<le> Hostid f \<or> Hostid f + Maprange f \<le> Hostid e)"

lemma from_into_ns:
  assumes wf: "wf_set m" and dis: "host_disjoint sel m"
  shows "from_ns sel m (into_ns sel m x) = (if into_ns sel m x = -1 then -1 else x)"
proof (cases "into_ns sel m x = -1")
  case True
  have "from_ns sel m (-1) = -1"
    by (rule lookup_none) (use wf in \<open>auto simp: wf_set_def wf_unfold\<close>)
  with True show ?thesis by simp
next
  case False
  then obtain e where e: "e \<in> set m" "sel e" "Nsid e \<le> x" "x < Nsid e + Maprange e"
    and y: "into_ns sel m x = x - Nsid e + Hostid e"
    by (rule lookup_SomeE)
  have "from_ns sel m (x - Nsid e + Hostid e) = (x - Nsid e + Hostid e) - Hostid e + Nsid e"
  proof (rule lookup_unique)
    fix f assume f: "f \<in> set m" "sel f" "Hostid f \<le> x - Nsid e + Hostid e"
      "x - Nsid e + Hostid e < Hostid f + Maprange f"
    with e dis have "e = f" unfolding host_disjoint_def by fastforce
    then show "x - Nsid e + Hostid e - Hostid f + Nsid f = x - Nsid e + Hostid e - Hostid e + Nsid e"
      by simp
  qed (use e in auto)
  with False y show ?thesis by simp
qed

end
