(* ===== verification/Idmap_Laws.thy ===== *)
theory Idmap_Laws
  imports Idmap
begin

text \<open>
  Laws of the id map sets of theory \<open>Idmap\<close>: what \<^verbatim>\<open>AddSafe\<close> does to every id and to the
  invariant of a set, what \<^verbatim>\<open>ValidRanges\<close> covers, and that the default set built from the
  ranges of the kernel passes \<^verbatim>\<open>Usable\<close>.
\<close>

section \<open>AddSafe\<close>

definition live_entry :: "IdmapEntry \<Rightarrow> bool" where
  "live_entry e \<longleftrightarrow> 0 \<le> Hostid e \<and> 0 \<le> Nsid e \<and> 0 < Maprange e \<and> Maprange e < 2 ^ 32 \<and>
     Hostid e + Maprange e \<le> 2 ^ 32 \<and> Nsid e + Maprange e \<le> 2 ^ 32"

definition live_set :: "IdmapSet \<Rightarrow> bool" where
  "live_set m \<longleftrightarrow> (\<forall>e \<in> set m. live_entry e)"

text \<open>The overlap that \<^verbatim>\<open>Intersects\<close> does not see (see \<open>Intersects_hit\<close>).\<close>

definition blind_spot :: "(IdmapEntry \<Rightarrow> int) \<Rightarrow> IdmapEntry \<Rightarrow> IdmapEntry \<Rightarrow> bool" where
  "blind_spot f e i \<longleftrightarrow>
     f e + Maprange e = f i + Maprange i \<and> (Maprange e = 1 \<or> Maprange i = 1)"

definition piece :: "IdmapEntry \<Rightarrow> IdmapEntry \<Rightarrow> IdmapEntry list" where
  "piece i e = (if Intersects e i then break_apart e i else [e])"

lemma live_wf: "live_entry e \<Longrightarrow> wf_entry e"
  by (auto simp: live_entry_def wf_unfold)

lemma live_set_wf: "live_set m \<Longrightarrow> wf_set m"
  by (auto simp: live_set_def wf_set_def live_wf)

lemma add_safe_loop_Inr:
  assumes "add_safe_loop i m res added = Inr (res', added')"
  shows "res' = res @ concat (map (piece i) m) \<and>
    added' = (added \<or> (\<exists>e \<in> set m. Intersects e i)) \<and>
    (\<forall>e \<in> set m. Intersects e i \<longrightarrow> \<not> HostidsIntersect e i)"
  using assms
proof (induction m arbitrary: res added)
  case (Cons e m)
  show ?case
  proof (cases "Intersects e i")
    case True
    with Cons.prems have "\<not> HostidsIntersect e i"
      and "add_safe_loop i m (res @ break_apart e i) True = Inr (res', added')"
      by (auto split: if_splits)
    with Cons.IH [OF this(2)] True show ?thesis by (simp add: piece_def)
  next
    case False
    with Cons.prems have "add_safe_loop i m (res @ [e]) added = Inr (res', added')" by simp
    with Cons.IH [OF this] False show ?thesis by (simp add: piece_def)
  qed
qed simp

lemma AddSafe_InrD:
  assumes "AddSafe m i = Inr m'"
  shows "m' = concat (map (piece i) m) @ (if \<exists>e \<in> set m. Intersects e i then [] else [i])"
    "\<forall>e \<in> set m. Intersects e i \<longrightarrow> \<not> HostidsIntersect e i"
  using assms by (auto simp: AddSafe_def split: sum.splits prod.splits dest!: add_safe_loop_Inr)

text \<open>An entry that is broken apart overlaps the new one in the namespace and not on the host.\<close>

lemma broken_apart:
  assumes "live_entry e" "live_entry i" "Intersects e i" "\<not> HostidsIntersect e i"
  shows "same_kind e i" "Nsid e < Nsid i + Maprange i" "Nsid i < Nsid e + Maprange e"
    "Hostid e + Maprange e < Hostid i \<or> Hostid i + Maprange i < Hostid e"
proof -
  have wf: "wf_entry e" "wf_entry i" "0 < Maprange e" "0 < Maprange i"
    using assms(1,2) by (auto simp: live_wf) (auto simp: live_entry_def)
  show k: "same_kind e i" using assms(3) by (simp add: Intersects_def)
  show h: "Hostid e + Maprange e < Hostid i \<or> Hostid i + Maprange i < Hostid e"
    using assms(4) k HostidsIntersect_touch [OF wf] by auto
  then have "hit (Nsid e) (Maprange e) (Nsid i) (Maprange i)"
    using assms(3) Intersects_hit [OF wf] by (auto simp: hit_def)
  then show "Nsid e < Nsid i + Maprange i" "Nsid i < Nsid e + Maprange e"
    by (auto simp: hit_def)
qed

lemma part_simps:
  assumes "live_entry e" "live_entry i"
  shows "Maprange (lower_part e i) = Nsid i - Nsid e"
    "Hostid (lower_part e i) = Hostid e" "Nsid (lower_part e i) = Nsid e"
    "Isuid (lower_part e i) = Isuid e" "Isgid (lower_part e i) = Isgid e"
    "Maprange (upper_part e i) = Nsid e + Maprange e - (Nsid i + Maprange i)"
    "Hostid (upper_part e i) = Hostid e + (Nsid i - Nsid e) + Maprange i"
    "Nsid (upper_part e i) = Nsid i + Maprange i"
    "Isuid (upper_part e i) = Isuid e" "Isgid (upper_part e i) = Isgid e"
  using assms by (auto simp: lower_part_def upper_part_def live_entry_def i64_id33 Let_def)

lemma piece_cases:
  assumes e: "live_entry e" and i: "live_entry i" and ok: "Intersects e i \<longrightarrow> \<not> HostidsIntersect e i"
    and q: "q \<in> set (piece i e)"
  shows "q = i \<and> Intersects e i \<or> live_entry q \<and> Isuid q = Isuid e \<and> Isgid q = Isgid e \<and>
    Hostid e \<le> Hostid q \<and> Hostid q + Maprange q \<le> Hostid e + Maprange e"
proof (cases "Intersects e i")
  case False
  with q e show ?thesis by (simp add: piece_def)
next
  case True
  note b = broken_apart [OF e i True] ok True part_simps [OF e i]
  from q True consider "q = i" | "q = lower_part e i" "0 < Maprange (lower_part e i)"
    | "q = upper_part e i" "0 < Maprange (upper_part e i)"
    by (auto simp: piece_def break_apart_def split: if_splits)
  then show ?thesis
    using b e i True by cases (auto simp: live_entry_def)
qed

lemma AddSafe_live:
  assumes "AddSafe m i = Inr m'" "live_set m" "live_entry i"
  shows "live_set m'"
  using AddSafe_InrD [OF assms(1)] assms(2,3) piece_cases [of _ i]
  by (fastforce simp: live_set_def split: if_splits)

lemma AddSafe_kind:
  assumes ok: "AddSafe m i = Inr m'" and "live_set m" "live_entry i" and q: "q \<in> set m'"
  shows "q = i \<or> (\<exists>e \<in> set m. Isuid q = Isuid e \<and> Isgid q = Isgid e)"
proof (cases "q = i")
  case False
  with q AddSafe_InrD(1) [OF ok] obtain e where e: "e \<in> set m" "q \<in> set (piece i e)"
    by (auto split: if_splits)
  with assms AddSafe_InrD(2) [OF ok] have "live_entry e" "Intersects e i \<longrightarrow> \<not> HostidsIntersect e i"
    by (auto simp: live_set_def)
  from piece_cases [OF this(1) assms(3) this(2) e(2)] False e(1) show ?thesis by blast
qed simp

lemma piece_lookup:
  assumes e: "live_entry e" and i: "live_entry i" and ok: "Intersects e i \<longrightarrow> \<not> HostidsIntersect e i"
    and x: "\<not> maps_ns i x" and sel: "sel = Isuid \<or> sel = Isgid"
  shows "into_ns sel (piece i e @ rest) x = into_ns sel (e # rest) x"
proof (cases "Intersects e i")
  case False
  then show ?thesis by (simp add: piece_def)
next
  case True
  note b = broken_apart(2,3) [OF e i True]
  note ps = part_simps [OF e i]
  have flags: "sel (lower_part e i) = sel e" "sel (upper_part e i) = sel e"
    using sel ps by auto
  have skip: "into_ns sel (i # r) x = into_ns sel r x" for r
    using x by (auto simp: lookup_Cons maps_ns_def)
  have low: "into_ns sel (lower_part e i # r) x =
      (if sel e \<and> Nsid e \<le> x \<and> x < Nsid i then x - Nsid e + Hostid e else into_ns sel r x)" for r
    by (simp add: lookup_Cons ps flags)
  have up: "into_ns sel (upper_part e i # r) x =
      (if sel e \<and> Nsid i + Maprange i \<le> x \<and> x < Nsid e + Maprange e
       then x - Nsid e + Hostid e else into_ns sel r x)" for r
    by (simp add: lookup_Cons ps flags)
  have out: "x < Nsid i \<or> Nsid i + Maprange i \<le> x" using x by (auto simp: maps_ns_def)
  show ?thesis
    using True out b ok i
    by (cases "0 < Maprange (lower_part e i)"; cases "0 < Maprange (upper_part e i)")
       (auto simp: piece_def break_apart_def low up skip lookup_Cons [of _ _ _ e] ps live_entry_def)
qed

lemma pieces_lookup_outside:
  assumes "live_set m" "live_entry i" "\<forall>e \<in> set m. Intersects e i \<longrightarrow> \<not> HostidsIntersect e i"
    and "\<not> maps_ns i x" "sel = Isuid \<or> sel = Isgid"
  shows "into_ns sel (concat (map (piece i) m) @ rest) x = into_ns sel (m @ rest) x"
  using assms
proof (induction m)
  case (Cons e m)
  then have "into_ns sel (piece i e @ concat (map (piece i) m) @ rest) x =
      into_ns sel (e # concat (map (piece i) m) @ rest) x"
    by (intro piece_lookup) (auto simp: live_set_def)
  with Cons show ?case by (simp add: lookup_Cons live_set_def)
qed simp

lemma lookup_append_none:
  assumes "\<And>f. f \<in> set ys \<Longrightarrow> sel f \<Longrightarrow> \<not> (src f \<le> x \<and> x < src f + Maprange f)"
  shows "lookup src dst sel (xs @ ys) x = lookup src dst sel xs x"
  using assms by (induction xs) (auto simp: lookup_Cons lookup_none)

lemma AddSafe_outside:
  assumes ok: "AddSafe m i = Inr m'" and live: "live_set m" "live_entry i"
    and x: "\<not> maps_ns i x" and sel: "sel = Isuid \<or> sel = Isgid"
  shows "into_ns sel m' x = into_ns sel m x"
proof -
  let ?rest = "if \<exists>e \<in> set m. Intersects e i then [] else [i]"
  have "into_ns sel m' x = into_ns sel (m @ ?rest) x"
    unfolding AddSafe_InrD(1) [OF ok]
    by (rule pieces_lookup_outside [OF live AddSafe_InrD(2) [OF ok] x sel])
  also have "\<dots> = into_ns sel m x"
    using x by (intro lookup_append_none) (auto simp: maps_ns_def split: if_splits)
  finally show ?thesis .
qed

text \<open>Inside the new range only the new entry remains.\<close>

lemma piece_inside:
  assumes e: "live_entry e" and i: "live_entry i" and ok: "Intersects e i \<longrightarrow> \<not> HostidsIntersect e i"
    and nb: "same_kind e i \<longrightarrow> \<not> blind_spot Nsid e i"
    and q: "q \<in> set (piece i e)" "sel q" "maps_ns q x"
    and x: "sel i" "maps_ns i x" and sel: "sel = Isuid \<or> sel = Isgid"
  shows "q = i"
proof (cases "Intersects e i")
  case False
  then have "q = e" using q by (simp add: piece_def)
  with q x sel have "same_kind e i" by (auto simp: same_kind_def)
  moreover have "wf_entry e" "wf_entry i" "0 < Maprange e" "0 < Maprange i"
    using e i by (auto simp: live_wf) (auto simp: live_entry_def)
  ultimately have "\<not> hit (Nsid e) (Maprange e) (Nsid i) (Maprange i)"
    using False Intersects_hit by blast
  with nb \<open>same_kind e i\<close> \<open>q = e\<close> q x show ?thesis
    by (auto simp: hit_def blind_spot_def maps_ns_def)
next
  case True
  with q part_simps [OF e i] x show ?thesis
    by (auto simp: piece_def break_apart_def maps_ns_def split: if_splits)
qed

lemma AddSafe_inside:
  assumes ok: "AddSafe m i = Inr m'" and live: "live_set m" "live_entry i"
    and nb: "\<forall>e \<in> set m. same_kind e i \<longrightarrow> \<not> blind_spot Nsid e i"
    and x: "sel i" "maps_ns i x" and sel: "sel = Isuid \<or> sel = Isgid"
  shows "into_ns sel m' x = x - Nsid i + Hostid i"
proof (rule lookup_unique)
  note m' = AddSafe_InrD [OF ok]
  show "i \<in> set m'"
    using m'(1) by (auto simp: piece_def break_apart_def)
  show "sel i" "Nsid i \<le> x" "x < Nsid i + Maprange i" using x by (auto simp: maps_ns_def)
  fix f assume f: "f \<in> set m'" "sel f" "Nsid f \<le> x" "x < Nsid f + Maprange f"
  then have "f = i \<or> (\<exists>e \<in> set m. f \<in> set (piece i e))"
    using m'(1) by (auto split: if_splits)
  then have "f = i"
    using piece_inside [of _ i f sel x] live nb m'(2) f x sel
    by (auto simp: live_set_def maps_ns_def)
  then show "x - Nsid f + Hostid f = x - Nsid i + Hostid i" by simp
qed

lemma not_intersecting_hosts:
  assumes "live_entry e" "live_entry i" "same_kind e i" "\<not> Intersects e i" "\<not> blind_spot Hostid e i"
  shows "Hostid e + Maprange e \<le> Hostid i \<or> Hostid i + Maprange i \<le> Hostid e"
proof -
  have "wf_entry e" "wf_entry i" "0 < Maprange e" "0 < Maprange i"
    using assms(1,2) by (auto simp: live_wf) (auto simp: live_entry_def)
  from Intersects_hit [OF this] assms(3-5) show ?thesis
    by (auto simp: hit_def blind_spot_def)
qed

lemma piece_host_apart_new:
  assumes e: "live_entry e" and i: "live_entry i" and ok: "Intersects e i \<longrightarrow> \<not> HostidsIntersect e i"
    and nb: "same_kind e i \<longrightarrow> \<not> blind_spot Hostid e i"
    and q: "q \<in> set (piece i e)" "q \<noteq> i" "sel q" and si: "sel i" and sel: "sel = Isuid \<or> sel = Isgid"
  shows "Hostid q + Maprange q \<le> Hostid i \<or> Hostid i + Maprange i \<le> Hostid q"
proof -
  from piece_cases [OF e i ok q(1)] q(2) have c: "Isuid q = Isuid e" "Isgid q = Isgid e"
    "Hostid e \<le> Hostid q" "Hostid q + Maprange q \<le> Hostid e + Maprange e" by auto
  with q(3) si sel have k: "same_kind e i" by (auto simp: same_kind_def)
  then have "Hostid e + Maprange e \<le> Hostid i \<or> Hostid i + Maprange i \<le> Hostid e"
    using broken_apart(4) [OF e i] not_intersecting_hosts [OF e i k] ok nb
    by (cases "Intersects e i") auto
  with c show ?thesis by linarith
qed

lemma piece_host_apart_self:
  assumes e: "live_entry e" and i: "live_entry i"
    and "p \<in> set (piece i e)" "p \<noteq> i" "q \<in> set (piece i e)" "q \<noteq> i"
  shows "p = q \<or> Hostid p + Maprange p \<le> Hostid q \<or> Hostid q + Maprange q \<le> Hostid p"
  using assms(3-6) part_simps [OF e i] i
  by (auto simp: piece_def break_apart_def live_entry_def split: if_splits)

lemma AddSafe_host_disjoint:
  assumes ok: "AddSafe m i = Inr m'" and live: "live_set m" "live_entry i"
    and nb: "\<forall>e \<in> set m. same_kind e i \<longrightarrow> \<not> blind_spot Hostid e i"
    and dis: "host_disjoint sel m" and sel: "sel = Isuid \<or> sel = Isgid"
  shows "host_disjoint sel m'"
proof -
  note m' = AddSafe_InrD [OF ok]
  have new: "Hostid q + Maprange q \<le> Hostid i \<or> Hostid i + Maprange i \<le> Hostid q"
    if "e \<in> set m" "q \<in> set (piece i e)" "q \<noteq> i" "sel q" "sel i" for e q
    using piece_host_apart_new [of e i q sel] that live nb m'(2) sel by (auto simp: live_set_def)
  have old: "p = q \<or> Hostid p + Maprange p \<le> Hostid q \<or> Hostid q + Maprange q \<le> Hostid p"
    if e: "e \<in> set m" "p \<in> set (piece i e)" "p \<noteq> i" "sel p"
      and f: "f \<in> set m" "q \<in> set (piece i f)" "q \<noteq> i" "sel q" for e f p q
  proof (cases "e = f")
    case True
    with e f live show ?thesis
      using piece_host_apart_self [of e i p q] by (auto simp: live_set_def)
  next
    case False
    have "Hostid e \<le> Hostid p" "Hostid p + Maprange p \<le> Hostid e + Maprange e" "sel e"
      "Hostid f \<le> Hostid q" "Hostid q + Maprange q \<le> Hostid f + Maprange f" "sel f"
      using piece_cases [of e i p] piece_cases [of f i q] e f live m'(2) sel
      by (auto simp: live_set_def)
    moreover have "Hostid e + Maprange e \<le> Hostid f \<or> Hostid f + Maprange f \<le> Hostid e"
      using dis False e(1) f(1) \<open>sel e\<close> \<open>sel f\<close> by (auto simp: host_disjoint_def)
    ultimately show ?thesis by linarith
  qed
  have mem: "p = i \<or> (p \<noteq> i \<and> (\<exists>e \<in> set m. p \<in> set (piece i e)))" if "p \<in> set m'" for p
    using that m'(1) by (auto split: if_splits)
  show ?thesis
    unfolding host_disjoint_def using mem new old by metis
qed

section \<open>ValidRanges\<close>

definition range_ok :: "IdRange \<Rightarrow> bool" where
  "range_ok r \<longleftrightarrow> 0 \<le> Startid r \<and> Startid r \<le> Endid r + 1 \<and> Endid r < 2 ^ 33"

definition in_range :: "bool \<Rightarrow> bool \<Rightarrow> int \<Rightarrow> IdRange \<Rightarrow> bool" where
  "in_range u g x r \<longleftrightarrow> rIsuid r = u \<and> rIsgid r = g \<and> Contains r x"

definition in_entry :: "bool \<Rightarrow> bool \<Rightarrow> int \<Rightarrow> IdmapEntry \<Rightarrow> bool" where
  "in_entry u g x e \<longleftrightarrow> Isuid e = u \<and> Isgid e = g \<and> maps_ns e x"

lemma strict_weak_idmap_less: "strict_weak idmap_less"
  unfolding strict_weak_def idmap_less_def by auto

lemma grow_range_spec:
  assumes "wf_entry e" "\<forall>r \<in> set rs. range_ok r" "grow_range e rs = Some rs'"
  shows "(\<forall>r \<in> set rs'. range_ok r) \<and>
    ((\<exists>r \<in> set rs'. in_range u g x r) \<longleftrightarrow> (\<exists>r \<in> set rs. in_range u g x r) \<or> in_entry u g x e)"
  using assms(2,3)
proof (induction rs arbitrary: rs')
  case (Cons r rs)
  note er = wf_entry_range [OF assms(1)]
  show ?case
  proof (cases "Isuid e = rIsuid r \<and> Isgid e = rIsgid r \<and> i64 (Endid r + 1) = Nsid e")
    case True
    from Cons.prems(1) have r: "range_ok r" by simp
    then have end1: "Endid r + 1 = Nsid e" using True by (simp add: range_ok_def i64_id33)
    then have grown: "i64 (Endid r + Maprange e) = Endid r + Maprange e"
      using er by (simp add: i64_id33)
    have ok: "range_ok (r\<lparr>Endid := Endid r + Maprange e\<rparr>)"
      using r er end1 by (auto simp: range_ok_def)
    have cov: "in_range u g x (r\<lparr>Endid := Endid r + Maprange e\<rparr>) \<longleftrightarrow>
        in_range u g x r \<or> in_entry u g x e"
      using r er end1 True by (auto simp: in_range_def in_entry_def Contains_def maps_ns_def range_ok_def)
    from Cons.prems(2) True grown have "rs' = r\<lparr>Endid := Endid r + Maprange e\<rparr> # rs" by simp
    with ok cov Cons.prems(1) show ?thesis by auto
  next
    case False
    with Cons.prems(2) obtain rs'' where "grow_range e rs = Some rs''" "rs' = r # rs''" by auto
    with Cons show ?thesis by auto
  qed
qed simp

lemma range_step_spec:
  assumes "wf_entry e" "\<forall>r \<in> set rs. range_ok r"
  shows "(\<forall>r \<in> set (range_step rs e). range_ok r) \<and>
    ((\<exists>r \<in> set (range_step rs e). in_range u g x r) \<longleftrightarrow>
     (\<exists>r \<in> set rs. in_range u g x r) \<or> in_entry u g x e)"
proof (cases "grow_range e rs")
  case None
  have "new_range e = \<lparr>rIsuid = Isuid e, rIsgid = Isgid e, Startid = Nsid e,
      Endid = Nsid e + Maprange e - 1\<rparr>"
    by (simp add: new_range_def wf_i64 [OF assms(1)])
  with None assms(2) wf_entry_range [OF assms(1)] show ?thesis
    by (auto simp: range_step_def range_ok_def in_range_def in_entry_def Contains_def maps_ns_def)
next
  case (Some rs')
  then show ?thesis using grow_range_spec [OF assms Some] by (simp add: range_step_def)
qed

lemma range_fold_spec:
  assumes "wf_set m" "\<forall>r \<in> set rs. range_ok r"
  shows "(\<forall>r \<in> set (foldl range_step rs m). range_ok r) \<and>
    ((\<exists>r \<in> set (foldl range_step rs m). in_range u g x r) \<longleftrightarrow>
     (\<exists>r \<in> set rs. in_range u g x r) \<or> (\<exists>e \<in> set m. in_entry u g x e))"
  using assms
proof (induction m arbitrary: rs)
  case (Cons e m)
  then have e: "wf_entry e" and m: "wf_set m" by (auto simp: wf_set_def)
  note step = range_step_spec [OF e Cons.prems(2)]
  from step have "\<forall>r \<in> set (range_step rs e). range_ok r" by blast
  from Cons.IH [OF m this] step show ?case by (auto simp del: foldl_Cons) auto
qed simp

lemma ValidRanges_spec:
  assumes "go_sort srt" "wf_set m"
  shows "\<forall>r \<in> set (ValidRanges srt m). range_ok r"
    "(\<exists>r \<in> set (ValidRanges srt m). in_range u g x r) \<longleftrightarrow> (\<exists>e \<in> set m. in_entry u g x e)"
proof -
  have s: "set (srt idmap_less m) = set m"
    by (rule go_sort.srt_set [OF assms(1) strict_weak_idmap_less])
  then have "wf_set (srt idmap_less m)" using assms(2) by (simp add: wf_set_def)
  from range_fold_spec [OF this, of "[]"] s
  show "\<forall>r \<in> set (ValidRanges srt m). range_ok r"
    "(\<exists>r \<in> set (ValidRanges srt m). in_range u g x r) \<longleftrightarrow> (\<exists>e \<in> set m. in_entry u g x e)"
    by (auto simp: ValidRanges_def)
qed

section \<open>The default map\<close>

lemma proc_loop_wf:
  assumes "proc_loop fname lines acc = Inr entries" "\<forall>t \<in> set acc. wf_entry (proc_entry u g t)"
  shows "\<forall>t \<in> set entries. wf_entry (proc_entry u g t)"
  using assms
proof (induction fname lines acc rule: proc_loop.induct)
  case (2 fname line rest acc)
  have new: "wf_entry (proc_entry u g (a, b, c))"
    if "parse_u32 f0 = Inr a" "parse_u32 f1 = Inr b" "parse_u32 f2 = Inr c" for f0 f1 f2 a b c
    using that by (simp add: wf_entry_def proc_entry_def parse_u32_id32)
  from 2 new show ?case
    by (fastforce simp: Let_def split: if_splits list.splits sum.splits)
qed simp

lemma foldl_extend [simp]: "foldl extend_list m es = m @ es"
  by (induction es arbitrary: m) auto

lemma current_part_wf:
  assumes "current_part env fname u g m = Inr m'" "wf_set m"
  shows "wf_set m'"
proof -
  have "wf_set (map (proc_entry u g) entries)"
    if "getFromProc env fname = Inr entries" for entries
    using that proc_loop_wf [of fname _ "[]" _ u g]
    by (auto simp: getFromProc_def wf_set_def split: option.splits sum.splits if_splits)
  moreover have "wf_entry (proc_entry u g (0, 0, 0))" by (simp add: wf_unfold proc_entry_def)
  ultimately show ?thesis
    using assms by (auto simp: current_part_def wf_set_def split: if_splits sum.splits)
qed

lemma CurrentIdmapSet_wf: "CurrentIdmapSet env = Inr m \<Longrightarrow> wf_set m"
  by (auto simp: CurrentIdmapSet_def split: sum.splits dest!: current_part_wf)
     (simp_all add: wf_set_def)

text \<open>What the search returns is a part of a range it was given.\<close>

lemma pick_range_found:
  assumes "pick_range sel rs = (rs', Some r)" "\<forall>r \<in> set rs. range_ok r"
  shows "\<exists>r0 \<in> set rs. rIsuid r = rIsuid r0 \<and> rIsgid r = rIsgid r0 \<and> sel r0 \<and>
    Startid r0 \<le> Startid r \<and> Endid r = Endid r0 \<and> 100000 \<le> Startid r \<and> 65536 \<le> Endid r - Startid r"
  using assms
proof (induction sel rs arbitrary: rs' rule: pick_range.induct)
  case (2 sel r0 rs)
  have r0: "range_ok r0" and rest: "\<forall>r \<in> set rs. range_ok r" using "2.prems"(2) by auto
  let ?r = "if Startid r0 < 100000 then r0\<lparr>Startid := 100000\<rparr> else r0"
  show ?case
  proof (cases "\<not> sel r0 \<or> Endid r0 < 100000")
    case True
    with 2 rest show ?thesis by (auto split: prod.splits)
  next
    case False
    show ?thesis
    proof (cases "i64 (Endid ?r - Startid ?r) < 65536")
      case True
      with False 2 rest show ?thesis by (auto simp: Let_def split: prod.splits)
    next
      case big: False
      with False "2.prems"(1) have "r = ?r" by (simp add: Let_def)
      moreover have "i64 (Endid ?r - Startid ?r) = Endid ?r - Startid ?r"
        using r0 False by (auto simp: range_ok_def i64_id33)
      ultimately show ?thesis using False big by auto
    qed
  qed
qed simp

definition narrowed :: "IdRange \<Rightarrow> IdRange \<Rightarrow> bool" where
  "narrowed r0 r \<longleftrightarrow> rIsuid r = rIsuid r0 \<and> rIsgid r = rIsgid r0 \<and>
     Startid r0 \<le> Startid r \<and> Endid r = Endid r0 \<and> range_ok r"

lemma pick_range_list:
  assumes "\<forall>r \<in> set rs. range_ok r"
  shows "list_all2 narrowed rs (fst (pick_range sel rs))"
  using assms
proof (induction rs)
  case (Cons r0 rs)
  then have IH: "list_all2 narrowed rs (fst (pick_range sel rs))" and r0: "range_ok r0" by auto
  have "list_all2 narrowed rs rs"
    using Cons.prems by (auto simp: list_all2_conv_all_nth narrowed_def)
  moreover have "narrowed r0 r0" using r0 by (simp add: narrowed_def)
  moreover have "narrowed r0 (r0\<lparr>Startid := 100000\<rparr>)" if "Startid r0 < 100000" "\<not> Endid r0 < 100000"
    using r0 that by (simp add: narrowed_def range_ok_def)
  ultimately show ?case
    using IH by (auto simp: Let_def split: prod.splits)
qed simp

lemma picked_inside:
  assumes srt: "go_sort srt" and cur: "CurrentIdmapSet env = Inr km"
    and r: "r0 \<in> set (ValidRanges srt km)" "sel r0"
    and n: "Startid r0 \<le> Startid r" "Endid r = Endid r0" "100000 \<le> Startid r" "65536 \<le> Endid r - Startid r"
    and e: "Hostid e = Startid r" "Maprange e = i64 (i64 (Endid r - Startid r) + 1)"
  shows "entry_in_ranges sel (ValidRanges srt km) e"
proof -
  have ok: "range_ok r0" using ValidRanges_spec(1) [OF srt CurrentIdmapSet_wf [OF cur]] r by blast
  have len: "Maprange e = Endid r - Startid r + 1"
    using ok n e(2) by (simp add: range_ok_def i64_id33)
  have last: "i64 (i64 (Hostid e + Maprange e) - 1) = Endid r"
    using ok n e(1) len by (simp add: range_ok_def i64_id33)
  have "Contains r0 (Hostid e)" "Contains r0 (Endid r)"
    using n e(1) by (auto simp: Contains_def)
  then show ?thesis
    using r last unfolding entry_in_ranges_def list_ex_iff by auto
qed

lemma fallback_usable:
  assumes "CurrentIdmapSet env = Inr km" "ValidRanges srt km = fullKernelRanges"
  shows "Usable srt env fallback_entry = None"
  using assms
  by (simp add: Usable_def entry_in_ranges_def fullKernelRanges_def fallback_entry_def Contains_def
      i64_id33)

lemma DefaultIdmapSet_usable:
  assumes srt: "go_sort srt" and sh: "\<not> shadow_available env"
    and cur: "CurrentIdmapSet env = Inr km" and def: "DefaultIdmapSet srt env = Inr m"
  shows "set_Usable srt env m = None"
proof (cases "ValidRanges srt km = fullKernelRanges")
  case True
  with def sh cur have "m = [fallback_entry]" by (simp add: DefaultIdmapSet_def)
  with fallback_usable [OF cur True] show ?thesis by (simp add: set_Usable_def)
next
  case False
  let ?rs = "ValidRanges srt km"
  obtain rs1 u where u: "pick_range rIsuid ?rs = (rs1, u)" by fastforce
  obtain rs2 g where g: "pick_range rIsgid rs1 = (rs2, g)" by fastforce
  have m: "m = add_picked False True g (add_picked True False u [])"
    using def sh cur False u g by (simp add: DefaultIdmapSet_def)
  have ok: "\<forall>r \<in> set ?rs. range_ok r"
    by (rule ValidRanges_spec(1) [OF srt CurrentIdmapSet_wf [OF cur]])
  have nar: "list_all2 narrowed ?rs rs1" using pick_range_list [OF ok, of rIsuid] u by simp
  have ok1: "\<forall>r \<in> set rs1. range_ok r \<and> (\<exists>r0 \<in> set ?rs. narrowed r0 r)"
  proof
    fix r assume "r \<in> set rs1"
    then obtain k where "k < length rs1" "r = rs1 ! k" by (auto simp: in_set_conv_nth)
    with nar have "narrowed (?rs ! k) r" "?rs ! k \<in> set ?rs" by (auto simp: list_all2_conv_all_nth)
    then show "range_ok r \<and> (\<exists>r0 \<in> set ?rs. narrowed r0 r)" by (auto simp: narrowed_def)
  qed
  have uid: "Usable srt env e = None" if "u = Some r" "Isuid e" "\<not> Isgid e" "Hostid e = Startid r"
    "Maprange e = i64 (i64 (Endid r - Startid r) + 1)" for r e
  proof -
    from pick_range_found [OF _ ok] u that(1) obtain r0 where "r0 \<in> set ?rs" "rIsuid r0"
      "Startid r0 \<le> Startid r" "Endid r = Endid r0" "100000 \<le> Startid r" "65536 \<le> Endid r - Startid r"
      by blast
    from picked_inside [where sel = rIsuid, OF srt cur this that(4,5)] that(2,3) cur show ?thesis
      by (simp add: Usable_def)
  qed
  have gid: "Usable srt env e = None" if "g = Some r" "\<not> Isuid e" "Isgid e" "Hostid e = Startid r"
    "Maprange e = i64 (i64 (Endid r - Startid r) + 1)" for r e
  proof -
    have "\<forall>r \<in> set rs1. range_ok r" using ok1 by blast
    from pick_range_found [OF _ this] g that(1) obtain r1 where r1: "r1 \<in> set rs1" "rIsgid r1"
      "Startid r1 \<le> Startid r" "Endid r = Endid r1" "100000 \<le> Startid r" "65536 \<le> Endid r - Startid r"
      by blast
    then obtain r0 where "r0 \<in> set ?rs" "narrowed r0 r1" using ok1 by blast
    with r1 have "r0 \<in> set ?rs" "rIsgid r0" "Startid r0 \<le> Startid r" "Endid r = Endid r0"
      by (auto simp: narrowed_def)
    from picked_inside [where sel = rIsgid, OF srt cur this r1(5,6) that(4,5)] that(2,3) cur show ?thesis
      by (simp add: Usable_def)
  qed
  show ?thesis
    unfolding m set_Usable_def using uid gid
    by (auto simp: add_picked_def first_error_None split: option.splits)
qed

section \<open>Properties\<close>

text \<open>
  C3.  Shifting ids into the namespace and back (\<^verbatim>\<open>ShiftIntoNs\<close> then \<^verbatim>\<open>ShiftFromNs\<close>)
  returns every uid and gid that the set maps, and \<open>-1\<close> for one it does not map, on every
  well-formed set whose host ranges are disjoint within a kind.
\<close>

theorem shift_roundtrip:
  assumes "wf_set m" "host_disjoint Isuid m" "host_disjoint Isgid m"
    and "ShiftIntoNs m uid gid = (hu, hg)"
  shows "ShiftFromNs m hu hg = (if hu = -1 then -1 else uid, if hg = -1 then -1 else gid)"
  using assms(4) from_into_ns [OF assms(1,2), of uid] from_into_ns [OF assms(1,3), of gid]
  by (auto simp: ShiftIntoNs_lookup [OF assms(1)] ShiftFromNs_lookup [OF assms(1)])

definition sample_map :: IdmapSet where
  "sample_map =
     [\<lparr>Isuid = True, Isgid = False, Hostid = 100000, Nsid = 0, Maprange = 65536\<rparr>,
      \<lparr>Isuid = False, Isgid = True, Hostid = 200000, Nsid = 0, Maprange = 65536\<rparr>]"

theorem shift_roundtrip_witness:
  "ShiftIntoNs sample_map 1000 70000 = (101000, -1) \<and> ShiftFromNs sample_map 101000 (-1) = (1000, -1)"
proof -
  have w: "wf_set sample_map" "host_disjoint Isuid sample_map" "host_disjoint Isgid sample_map"
    by (simp_all add: sample_map_def wf_set_def wf_unfold host_disjoint_def)
  have i: "ShiftIntoNs sample_map 1000 70000 = (101000, -1)"
    unfolding ShiftIntoNs_lookup [OF w(1)] by (simp add: sample_map_def lookup_Cons)
  from shift_roundtrip [OF w i] i show ?thesis by simp
qed

text \<open>
  C12.  For entries that are non-empty ranges of 32-bit ids: after a successful \<^verbatim>\<open>AddSafe\<close> every id inside the namespace range of the new entry is
  mapped by the new entry and every other uid and gid is mapped as before, when the new entry has
  every kind (uid, gid) that an entry of the set has and no entry has the overlap that
  \<^verbatim>\<open>Intersects\<close> does not see.  A uid entry that is added to entries of both kinds loses gids
  (\<open>AddSafe_drops_gid\<close>).
\<close>

theorem AddSafe_maps:
  assumes "AddSafe m i = Inr m'" "live_set m" "live_entry i"
    and "\<forall>e \<in> set m. same_kind e i \<longrightarrow> \<not> blind_spot Nsid e i"
    and "\<forall>e \<in> set m. (Isuid e \<longrightarrow> Isuid i) \<and> (Isgid e \<longrightarrow> Isgid i)"
  shows "ShiftIntoNs m' uid gid =
    (if Isuid i \<and> maps_ns i uid then uid - Nsid i + Hostid i else fst (ShiftIntoNs m uid gid),
     if Isgid i \<and> maps_ns i gid then gid - Nsid i + Hostid i else snd (ShiftIntoNs m uid gid))"
proof -
  have wf: "wf_set m" "wf_set m'"
    using assms(2) AddSafe_live [OF assms(1-3)] by (auto simp: live_set_wf)
  have absent: "into_ns sel n x = -1"
    if "sel = Isuid \<or> sel = Isgid" "\<not> sel i" "set n \<subseteq> set m \<union> set m'" for sel n x
  proof (rule lookup_none)
    fix f assume f: "f \<in> set n" "sel f"
    then have "f = i \<or> (\<exists>e \<in> set m. Isuid f = Isuid e \<and> Isgid f = Isgid e)"
      using that(3) AddSafe_kind [OF assms(1-3), of f] by auto
    with that(1,2) assms(5) f(2) show "\<not> (Nsid f \<le> x \<and> x < Nsid f + Maprange f)" by blast
  qed
  have main: "into_ns sel m' x =
      (if sel i \<and> maps_ns i x then x - Nsid i + Hostid i else into_ns sel m x)"
    if "sel = Isuid \<or> sel = Isgid" for sel x
    using AddSafe_inside [OF assms(1-4)] AddSafe_outside [OF assms(1-3)] that
      absent [OF that, of m x] absent [OF that, of m' x]
    by (cases "sel i"; cases "maps_ns i x") auto
  show ?thesis
    by (simp add: ShiftIntoNs_lookup [OF wf(1)] ShiftIntoNs_lookup [OF wf(2)] main)
qed

definition sample_split :: IdmapEntry where
  "sample_split = \<lparr>Isuid = True, Isgid = False, Hostid = 500, Nsid = 500, Maprange = 10\<rparr>"

definition sample_uid_map :: IdmapSet where
  "sample_uid_map = [\<lparr>Isuid = True, Isgid = False, Hostid = 1000, Nsid = 0, Maprange = 1000\<rparr>]"

lemma sample_split_result:
  "AddSafe sample_uid_map sample_split =
     Inr [\<lparr>Isuid = True, Isgid = False, Hostid = 1000, Nsid = 0, Maprange = 500\<rparr>, sample_split,
          \<lparr>Isuid = True, Isgid = False, Hostid = 1510, Nsid = 510, Maprange = 490\<rparr>]"
  by (simp add: AddSafe_def sample_uid_map_def sample_split_def Intersects_def HostidsIntersect_def
      same_kind_def is_between_def break_apart_def lower_part_def upper_part_def i64_id33)

theorem AddSafe_maps_witness:
  "\<exists>m'. AddSafe sample_uid_map sample_split = Inr m' \<and> ShiftIntoNs m' 505 0 = (505, -1)"
proof -
  have l: "live_set sample_uid_map" "live_entry sample_split"
    "\<forall>e \<in> set sample_uid_map. same_kind e sample_split \<longrightarrow> \<not> blind_spot Nsid e sample_split"
    "\<forall>e \<in> set sample_uid_map. (Isuid e \<longrightarrow> Isuid sample_split) \<and> (Isgid e \<longrightarrow> Isgid sample_split)"
    by (simp_all add: live_set_def live_entry_def sample_uid_map_def sample_split_def blind_spot_def)
  have "snd (ShiftIntoNs sample_uid_map 505 0) = -1"
    by (subst ShiftIntoNs_lookup [OF live_set_wf [OF l(1)]]) (simp add: sample_uid_map_def lookup_Cons)
  with AddSafe_maps [OF sample_split_result l, of 505 0] sample_split_result show ?thesis
    by (simp add: sample_split_def maps_ns_def)
qed

text \<open>
  C27.  \<^verbatim>\<open>AddSafe\<close> keeps the invariant of a set: entries stay non-empty ranges of 32-bit ids
  and the host ranges of each kind stay disjoint, unless the new entry and one of its kind have the
  overlap that \<^verbatim>\<open>Intersects\<close> does not see: host ranges that end at the same id, one of
  them a single id.  Such an entry is accepted (\<open>AddSafe_blind\<close>).
\<close>

theorem AddSafe_invariant:
  assumes "AddSafe m i = Inr m'" "live_set m" "live_entry i"
    and "\<forall>e \<in> set m. same_kind e i \<longrightarrow> \<not> blind_spot Hostid e i"
    and "host_disjoint Isuid m" "host_disjoint Isgid m"
  shows "live_set m' \<and> host_disjoint Isuid m' \<and> host_disjoint Isgid m'"
  using AddSafe_live [OF assms(1-3)] AddSafe_host_disjoint [OF assms(1-4)] assms(5,6) by blast

theorem AddSafe_invariant_witness:
  "\<exists>m'. AddSafe sample_uid_map sample_split = Inr m' \<and> live_set m' \<and> host_disjoint Isuid m'"
proof -
  have l: "live_set sample_uid_map" "live_entry sample_split"
    "\<forall>e \<in> set sample_uid_map. same_kind e sample_split \<longrightarrow> \<not> blind_spot Hostid e sample_split"
    "host_disjoint Isuid sample_uid_map" "host_disjoint Isgid sample_uid_map"
    by (simp_all add: live_set_def live_entry_def sample_uid_map_def sample_split_def blind_spot_def
        host_disjoint_def)
  from AddSafe_invariant [OF sample_split_result l] sample_split_result show ?thesis by blast
qed

text \<open>In the blind spot a host id is given away twice.\<close>

lemma AddSafe_blind:
  "\<exists>m'. AddSafe [\<lparr>Isuid = True, Isgid = False, Hostid = 1000, Nsid = 0, Maprange = 10\<rparr>]
      \<lparr>Isuid = True, Isgid = False, Hostid = 1009, Nsid = 100, Maprange = 1\<rparr> = Inr m' \<and> \<not> host_disjoint Isuid m'"
  by (simp add: AddSafe_def Intersects_def HostidsIntersect_def same_kind_def is_between_def host_disjoint_def i64_id33)

text \<open>
   The exact meaning of the overlap test \<^verbatim>\<open>Intersects\<close> on non-empty 32-bit ranges: it
  reports an overlap on the host or in the namespace, except one where both ranges end at
  the same id and one of them is a single id.
\<close>

theorem Intersects_exact:
  assumes "live_entry e" "live_entry i"
  shows "Intersects e i \<longleftrightarrow> same_kind e i \<and>
    (\<exists>f \<in> {Hostid, Nsid}. f e < f i + Maprange i \<and> f i < f e + Maprange e \<and> \<not> blind_spot f e i)"
  using Intersects_hit [of e i] assms
  by (auto simp: live_wf hit_def blind_spot_def) (auto simp: live_entry_def)

theorem Intersects_exact_witness:
  "\<not> Intersects (\<lparr>Isuid = True, Isgid = False, Hostid = 1000, Nsid = 0, Maprange = 1\<rparr>)
      (\<lparr>Isuid = True, Isgid = False, Hostid = 2000, Nsid = 0, Maprange = 1\<rparr>)"
  using Intersects_exact [of "\<lparr>Isuid = True, Isgid = False, Hostid = 1000, Nsid = 0, Maprange = 1\<rparr>"
      "\<lparr>Isuid = True, Isgid = False, Hostid = 2000, Nsid = 0, Maprange = 1\<rparr>"]
  by (simp add: live_entry_def blind_spot_def)

text \<open>
   Finding: \<^verbatim>\<open>Append\<close> accepts two mappings of the same single namespace id.  Both
  \<^verbatim>\<open>u:0:1000:1\<close> and \<^verbatim>\<open>u:0:2000:1\<close> end up in the set, and the second never applies.
\<close>

theorem Append_accepts_conflict:
  "\<exists>e f. Append [] ''u:0:1000:1'' = Inr [e] \<and> Append [e] ''u:0:2000:1'' = Inr [e, f] \<and>
     Isuid e \<and> maps_ns e 0 \<and> Isuid f \<and> maps_ns f 0 \<and> ShiftIntoNs [e, f] 0 0 = (1000, -1)"
proof -
  let ?e = "\<lparr>Isuid = True, Isgid = False, Hostid = 1000, Nsid = 0, Maprange = 1\<rparr>"
  let ?f = "\<lparr>Isuid = True, Isgid = False, Hostid = 2000, Nsid = 0, Maprange = 1\<rparr>"
  have p: "parse ''u:0:1000:1'' = Inr ?e" "parse ''u:0:2000:1'' = Inr ?f"
    by (simp_all add: parse_def parse_kind_def parse_u32_def ParseUint_def digit_val_def i64_id33)
  have "\<not> Intersects ?f ?e"
    by (simp add: Intersects_def same_kind_def is_between_def i64_id33)
  with p have "Append [] ''u:0:1000:1'' = Inr [?e]" "Append [?e] ''u:0:2000:1'' = Inr [?e, ?f]"
    by (simp_all add: Append_def set_Intersects_def)
  moreover have "wf_set [?e, ?f]" by (simp add: wf_set_def wf_unfold)
  then have "ShiftIntoNs [?e, ?f] 0 0 = (1000, -1)"
    by (simp add: ShiftIntoNs_lookup lookup_Cons)
  ultimately show ?thesis by (intro exI [of _ ?e] exI [of _ ?f]) (simp add: maps_ns_def)
qed

text \<open>
   Finding: on an entry that maps uids and gids (the fallback map), \<^verbatim>\<open>AddSafe\<close> of a uid
  mapping cuts the gid mapping out as well: gid 1000, mapped before, is unmapped after.
\<close>

theorem AddSafe_drops_gid:
  "\<exists>m'. AddSafe [fallback_entry] \<lparr>Isuid = True, Isgid = False, Hostid = 1000, Nsid = 1000, Maprange = 1\<rparr>
       = Inr m' \<and>
     ShiftIntoNs [fallback_entry] 1000 1000 = (1001000, 1001000) \<and>
     ShiftIntoNs m' 1000 1000 = (1000, -1)"
proof -
  let ?i = "\<lparr>Isuid = True, Isgid = False, Hostid = 1000, Nsid = 1000, Maprange = 1\<rparr>"
  let ?lo = "\<lparr>Isuid = True, Isgid = True, Hostid = 1000000, Nsid = 0, Maprange = 1000\<rparr>"
  let ?up = "\<lparr>Isuid = True, Isgid = True, Hostid = 1001001, Nsid = 1001, Maprange = 999998999\<rparr>"
  have "AddSafe [fallback_entry] ?i = Inr [?lo, ?i, ?up]"
    by (simp add: AddSafe_def fallback_entry_def Intersects_def HostidsIntersect_def same_kind_def
        is_between_def break_apart_def lower_part_def upper_part_def i64_id33)
  moreover have "wf_set [?lo, ?i, ?up]" "wf_set [fallback_entry]"
    by (simp_all add: wf_set_def wf_unfold fallback_entry_def)
  then have "ShiftIntoNs [?lo, ?i, ?up] 1000 1000 = (1000, -1)"
    "ShiftIntoNs [fallback_entry] 1000 1000 = (1001000, 1001000)"
    by (simp_all add: ShiftIntoNs_lookup lookup_Cons fallback_entry_def)
  ultimately show ?thesis by blast
qed

text \<open>
  C28.  The ranges of \<^verbatim>\<open>ValidRanges\<close> cover exactly the namespace ids of the entries, kind by
  kind, whatever sorted permutation the sort produces.
\<close>

theorem ValidRanges_cover:
  assumes "go_sort srt" "wf_set m"
  shows "(\<exists>r \<in> set (ValidRanges srt m). rIsuid r = u \<and> rIsgid r = g \<and> Contains r x) \<longleftrightarrow>
    (\<exists>e \<in> set m. Isuid e = u \<and> Isgid e = g \<and> maps_ns e x)"
  using ValidRanges_spec(2) [OF assms] by (simp add: in_range_def in_entry_def)

theorem ValidRanges_cover_witness:
  "\<exists>r \<in> set (ValidRanges sort_by sample_map). rIsuid r = True \<and> rIsgid r = False \<and> Contains r 65535"
proof -
  have w: "wf_set sample_map" by (simp add: sample_map_def wf_set_def wf_unfold)
  have "\<exists>e \<in> set sample_map. Isuid e = True \<and> Isgid e = False \<and> maps_ns e 65535"
    by (simp add: sample_map_def maps_ns_def)
  with ValidRanges_cover [OF isort.go_sort_axioms w] show ?thesis by blast
qed

text \<open>
   When the default map is built from the ranges of the kernel (no shadow tools), the map
  that \<^verbatim>\<open>DefaultIdmapSet\<close> returns passes \<^verbatim>\<open>Usable\<close>.
\<close>

theorem DefaultIdmapSet_is_usable:
  assumes "go_sort srt" "\<not> shadow_available env" "CurrentIdmapSet env = Inr km"
    and "DefaultIdmapSet srt env = Inr m"
  shows "set_Usable srt env m = None"
  using assms by (rule DefaultIdmapSet_usable)

definition sample_env :: idmap_env where
  "sample_env = \<lparr>file_lines = (\<lambda>f. Some [''0 1000000 1000000000'']), path_exists = (\<lambda>_. True),
                 look_path = (\<lambda>_. [])\<rparr>"

lemma sample_env_current:
  "CurrentIdmapSet sample_env = Inr
     [\<lparr>Isuid = True, Isgid = False, Hostid = 1000000, Nsid = 0, Maprange = 1000000000\<rparr>,
      \<lparr>Isuid = False, Isgid = True, Hostid = 1000000, Nsid = 0, Maprange = 1000000000\<rparr>]"
  by (simp add: CurrentIdmapSet_def current_part_def sample_env_def getFromProc_def Fields_def
      is_space_def parse_u32_def ParseUint_def digit_val_def proc_entry_def)

lemma sample_env_default:
  "DefaultIdmapSet sort_by sample_env = Inr
     [\<lparr>Isuid = True, Isgid = False, Hostid = 100000, Nsid = 0, Maprange = 999900000\<rparr>,
      \<lparr>Isuid = False, Isgid = True, Hostid = 100000, Nsid = 0, Maprange = 999900000\<rparr>]"
  by (simp add: DefaultIdmapSet_def sample_env_current)
     (simp add: sample_env_def shadow_available_def ValidRanges_def sort_by_def idmap_less_def
      range_step_def new_range_def fullKernelRanges_def add_picked_def i64_id33 Let_def)

theorem DefaultIdmapSet_is_usable_witness:
  "\<exists>m. DefaultIdmapSet sort_by sample_env = Inr m \<and> length m = 2 \<and> set_Usable sort_by sample_env m = None"
proof -
  have "\<not> shadow_available sample_env" by (simp add: shadow_available_def sample_env_def)
  from DefaultIdmapSet_is_usable [OF isort.go_sort_axioms this sample_env_current sample_env_default]
    sample_env_default show ?thesis by simp
qed

text \<open>
   The parser accepts what the documented format spells and yields the entry it spells:
  for every kind letter and all 32-bit ids, parsing \<^verbatim>\<open>kind:nsid:hostid:range\<close> gives them
  back; and whatever it accepts has 32-bit fields.
\<close>

theorem parse_roundtrip:
  assumes "parse_kind t = Some (u, g)" "id32 n" "id32 h" "id32 r"
  shows "parse (join_with '':'' [t, dec_of_int n, dec_of_int h, dec_of_int r]) =
    Inr \<lparr>Isuid = u, Isgid = g, Hostid = h, Nsid = n, Maprange = r\<rparr>"
proof -
  have "CHR '':'' \<notin> set t" using assms(1) by (auto simp: parse_kind_def split: if_splits)
  moreover have "0 \<le> n" "0 \<le> h" "0 \<le> r" using assms by (auto simp: id32_def)
  ultimately have "split_on CHR '':'' (join_with '':'' [t, dec_of_int n, dec_of_int h, dec_of_int r]) =
      [t, dec_of_int n, dec_of_int h, dec_of_int r]"
    by (intro split_on_join) (auto simp: dec_of_int_no_colon)
  moreover have "\<not> i64 (h + r) < h" "\<not> i64 (n + r) < n"
    using assms by (auto simp: id32_def i64_id33)
  ultimately show ?thesis
    using assms by (simp add: parse_def parse_u32_dec)
qed

theorem parse_roundtrip_witness:
  "parse ''b:0:100000:65536'' =
     Inr \<lparr>Isuid = True, Isgid = True, Hostid = 100000, Nsid = 0, Maprange = 65536\<rparr>"
proof -
  have "join_with '':'' [''b'', dec_of_int 0, dec_of_int 100000, dec_of_int 65536] = ''b:0:100000:65536''"
    by (simp add: dec_of_int_def dec_of_nat.simps digit_char_lits)
  with parse_roundtrip [of "''b''" True True 0 100000 65536] show ?thesis
    by (simp add: parse_kind_def id32_def)
qed

end
