(* ===== verification/Shared_Util.thy ===== *)
theory Shared_Util
  imports Go_Strings
begin

text \<open>
  The helpers of \<^verbatim>\<open>shared/util.go\<close> that the daemon and the client build on: membership
  tests, booleans, host names, snapshot names, paths below the LXD directory, size strings,
  the file headers of the API, the retry loop for commands and the chunking reader.

  The environment variable \<^verbatim>\<open>LXD_DIR\<close> is a parameter of the path functions.  A Go panic
  (an index or slice out of range) is \<open>None\<close>.
\<close>

section \<open>Membership and booleans\<close>

fun StringInSlice :: "string \<Rightarrow> string list \<Rightarrow> bool" where
  "StringInSlice key [] = False"
| "StringInSlice key (entry # rest) = (if entry = key then True else StringInSlice key rest)"

fun IntInSlice :: "int \<Rightarrow> int list \<Rightarrow> bool" where
  "IntInSlice key [] = False"
| "IntInSlice key (entry # rest) = (if entry = key then True else IntInSlice key rest)"

definition Int64InSlice :: "int \<Rightarrow> int list \<Rightarrow> bool" where
  "Int64InSlice = IntInSlice"

definition IsTrue :: "string \<Rightarrow> bool" where
  "IsTrue value = StringInSlice (ToLower value) [''true'', ''1'', ''yes'', ''on'']"

lemma StringInSlice_set [simp]: "StringInSlice k xs \<longleftrightarrow> k \<in> set xs"
  by (induction xs) auto

lemma IntInSlice_set [simp]: "IntInSlice k xs \<longleftrightarrow> k \<in> set xs"
  by (induction xs) auto

definition AtoiEmptyDefault :: "string \<Rightarrow> int \<Rightarrow> int \<times> num_error option" where
  "AtoiEmptyDefault s def = (if s = [] then (def, None) else Atoi s)"

section \<open>Names and paths\<close>

definition AddSlash :: "string \<Rightarrow> string option" where
  "AddSlash path =
     (if path = [] then None
      else Some (if last path \<noteq> CHR ''/'' then path @ ''/'' else path))"

definition IsSnapshot :: "string \<Rightarrow> bool" where
  "IsSnapshot name = ContainsChar name CHR ''/''"

definition ExtractSnapshotName :: "string \<Rightarrow> string option" where
  "ExtractSnapshotName name = (case split2 CHR ''/'' name of [_, s] \<Rightarrow> Some s | _ \<Rightarrow> None)"

definition is_hostname_char :: "char \<Rightarrow> bool" where
  "is_hostname_char c \<longleftrightarrow> (let n = of_char c :: nat in
     c = CHR ''-'' \<or> (97 \<le> n \<and> n \<le> 122) \<or> (65 \<le> n \<and> n \<le> 90) \<or> (48 \<le> n \<and> n \<le> 57))"

definition ValidHostname :: "string \<Rightarrow> bool" where
  "ValidHostname name =
     (if length name < 1 \<or> 63 < length name then False
      else if HasPrefix name ''-'' then False
      else if snd (Atoi [hd name]) = None then False
      else if HasSuffix name ''-'' then False
      else list_all is_hostname_char name)"

text \<open>\<^verbatim>\<open>path.Clean\<close> and \<^verbatim>\<open>filepath.Join\<close> on slash-separated paths.\<close>

fun clean_step :: "bool \<Rightarrow> string list \<Rightarrow> string \<Rightarrow> string list" where
  "clean_step rooted stack seg =
     (if seg = [] \<or> seg = ''.'' then stack
      else if seg = ''..'' then
        (if stack \<noteq> [] \<and> last stack \<noteq> ''..'' then butlast stack
         else if rooted then stack else stack @ [seg])
      else stack @ [seg])"

definition Clean :: "string \<Rightarrow> string" where
  "Clean path =
     (if path = [] then ''.''
      else let rooted = (hd path = CHR ''/'');
               out = join_with ''/'' (foldl (clean_step rooted) [] (split_on CHR ''/'' path))
           in if rooted then CHR ''/'' # out else if out = [] then ''.'' else out)"

definition JoinPath :: "string list \<Rightarrow> string" where
  "JoinPath elems =
     (let ne = filter (\<lambda>e. e \<noteq> []) elems in if ne = [] then [] else Clean (join_with ''/'' ne))"

definition VarPath :: "string \<Rightarrow> string list \<Rightarrow> string" where
  "VarPath lxd_dir path =
     (let varDir = (if lxd_dir = [] then ''/var/lib/lxd'' else lxd_dir)
      in JoinPath (varDir # path))"

definition CachePath :: "string \<Rightarrow> string list \<Rightarrow> string" where
  "CachePath lxd_dir path =
     (let logDir = (if lxd_dir \<noteq> [] then JoinPath [lxd_dir, ''cache''] else ''/var/cache/lxd'')
      in JoinPath (logDir # path))"

definition LogPath :: "string \<Rightarrow> string list \<Rightarrow> string" where
  "LogPath lxd_dir path =
     (let logDir = (if lxd_dir \<noteq> [] then JoinPath [lxd_dir, ''logs''] else ''/var/log/lxd'')
      in JoinPath (logDir # path))"

text \<open>
  \<^verbatim>\<open>HostPath\<close>: \<open>snap\<close> is the variable \<^verbatim>\<open>SNAP\<close>, \<open>pwd\<close> the result of reading the working
  directory of the parent process (\<open>None\<close> when there is no parent or the link cannot be read).
\<close>

definition HostPath :: "string \<Rightarrow> string option \<Rightarrow> string \<Rightarrow> string" where
  "HostPath snap pwd path =
     (if path = [] then path
      else if path = ''-'' then path
      else if snap = [] then path
      else
        let prefixed = (\<lambda>p. if list_ex (HasPrefix p) [''/dev'', ''/snap'', ''/var/snap'', ''/var/lib/snapd'']
                            then p else ''/var/lib/snapd/hostfs'' @ p)
        in if hd path \<noteq> CHR ''/''
           then (case pwd of None \<Rightarrow> path | Some d \<Rightarrow> prefixed (Clean (join_with ''/'' [d, path])))
           else prefixed path)"

section \<open>Size strings\<close>

datatype size_error =
    InvalidValue string
  | InvalidInteger string
  | NegativeValue int
  | UnsupportedSuffix string

definition byte_multiplicator :: "string \<Rightarrow> int option" where
  "byte_multiplicator sfx =
     (if sfx = ''kB'' then Some 1024
      else if sfx = ''MB'' then Some (1024 * 1024)
      else if sfx = ''GB'' then Some (1024 * 1024 * 1024)
      else if sfx = ''TB'' then Some (1024 * 1024 * 1024 * 1024)
      else if sfx = ''PB'' then Some (1024 * 1024 * 1024 * 1024 * 1024)
      else if sfx = ''EB'' then Some (1024 * 1024 * 1024 * 1024 * 1024 * 1024)
      else None)"

definition suffix_len :: "string \<Rightarrow> nat" where
  "suffix_len input =
     (let l = length input in
      if IsNumber (input ! (l - 1)) then 0
      else if 2 \<le> l \<and> input ! (l - 1) = CHR ''B'' \<and> IsNumber (input ! (l - 2)) then 1
      else if HasSuffix input '' bytes'' then 6
      else 2)"

definition ParseByteSizeString :: "string \<Rightarrow> size_error + int" where
  "ParseByteSizeString input =
     (if input = [] then Inr 0
      else let n = suffix_len input in
        if n = 2 \<and> length input < 3 then Inl (InvalidValue input)
        else
          let sfx = drop (length input - n) input;
              value = take (length input - n) input
          in (case ParseInt value 10 64 of
                (_, Some _) \<Rightarrow> Inl (InvalidInteger input)
              | (valueInt, None) \<Rightarrow>
                  if valueInt < 0 then Inl (NegativeValue valueInt)
                  else if n \<noteq> 2 then Inr valueInt
                  else (case byte_multiplicator sfx of
                          None \<Rightarrow> Inl (UnsupportedSuffix sfx)
                        | Some factor \<Rightarrow> Inr (i64 (valueInt * factor)))))"

definition bit_multiplicator :: "string \<Rightarrow> int option" where
  "bit_multiplicator sfx =
     (if sfx = ''kbit'' then Some 1000
      else if sfx = ''Mbit'' then Some (1000 * 1000)
      else if sfx = ''Gbit'' then Some (1000 * 1000 * 1000)
      else if sfx = ''Tbit'' then Some (1000 * 1000 * 1000 * 1000)
      else if sfx = ''Pbit'' then Some (1000 * 1000 * 1000 * 1000 * 1000)
      else if sfx = ''Ebit'' then Some (1000 * 1000 * 1000 * 1000 * 1000 * 1000)
      else None)"

definition ParseBitSizeString :: "string \<Rightarrow> size_error + int" where
  "ParseBitSizeString input =
     (if input = [] then Inr 0
      else if length input < 5 then Inl (InvalidValue input)
      else
        let sfx = drop (length input - 4) input;
            value = take (length input - 4) input
        in (case ParseInt value 10 64 of
              (_, Some _) \<Rightarrow> Inl (InvalidInteger input)
            | (valueInt, None) \<Rightarrow>
                if valueInt < 0 then Inl (NegativeValue valueInt)
                else (case bit_multiplicator sfx of
                        None \<Rightarrow> Inl (UnsupportedSuffix sfx)
                      | Some factor \<Rightarrow> Inr (i64 (valueInt * factor)))))"

section \<open>File headers of the API\<close>

record file_headers =
  h_uid :: int
  h_gid :: int
  h_mode :: int
  h_type :: string
  h_write :: string

definition header_id :: "string \<Rightarrow> int" where
  "header_id s = (case ParseInt s 10 64 of (v, None) \<Rightarrow> v | (_, Some _) \<Rightarrow> -1)"

definition header_mode :: "string \<Rightarrow> int" where
  "header_mode s = (case Atoi s of
     (_, Some _) \<Rightarrow> -1
   | (mode, None) \<Rightarrow> (case ParseInt s 0 64 of
       (rawMode, None) \<Rightarrow> rawMode mod 512
     | (_, Some _) \<Rightarrow> mode))"

definition ParseLXDFileHeaders :: "(string \<Rightarrow> string) \<Rightarrow> file_headers" where
  "ParseLXDFileHeaders headers =
     \<lparr>h_uid = header_id (headers ''X-LXD-uid''),
      h_gid = header_id (headers ''X-LXD-gid''),
      h_mode = header_mode (headers ''X-LXD-mode''),
      h_type = (if headers ''X-LXD-type'' = [] then ''file'' else headers ''X-LXD-type''),
      h_write = (if headers ''X-LXD-write'' = [] then ''overwrite'' else headers ''X-LXD-write'')\<rparr>"

section \<open>Retrying a command\<close>

text \<open>
  \<open>run i\<close> is the outcome of the \<open>i\<close>-th attempt, its output and its error; the loop of
  \<^verbatim>\<open>TryRunCommand\<close> makes at most 20 attempts.
\<close>

fun try_loop :: "(nat \<Rightarrow> string \<times> 'e option) \<Rightarrow> nat \<Rightarrow> nat \<Rightarrow> string \<times> 'e option \<Rightarrow> string \<times> 'e option" where
  "try_loop run i 0 res = res"
| "try_loop run i (Suc left) res =
     (if snd (run i) = None then run i else try_loop run (Suc i) left (run i))"

definition TryRunCommand :: "(nat \<Rightarrow> string \<times> 'e option) \<Rightarrow> string \<times> 'e option" where
  "TryRunCommand run = try_loop run 0 20 ([], None)"

section \<open>Reading into chunks\<close>

text \<open>
  \<^verbatim>\<open>ReaderToChannel\<close>: the goroutine reads \<open>readSize\<close> bytes at a time into a buffer and
  sends it when another read might not fit or the reader reports an error.  A read delivers
  some bytes and whether it reported an error.  The outcome is the chunks sent, the bytes
  still buffered and whether the channel was closed; \<open>None\<close> is a slice out of range.
\<close>

definition readSize :: nat where
  "readSize = 128 * 1024"

record 'b reader_state =
  sent :: "'b list list"
  buffered :: "'b list"
  closed :: bool

definition reader_step :: "nat \<Rightarrow> 'b list \<Rightarrow> bool \<Rightarrow> 'b reader_state \<Rightarrow> 'b reader_state" where
  "reader_step bufferSize data err st =
     (let buf = buffered st @ data in
      if 0 < length buf \<and> (bufferSize \<le> length buf + readSize \<or> err)
      then st\<lparr>sent := sent st @ [buf], buffered := []\<rparr>
      else st\<lparr>buffered := buf\<rparr>)"

fun reader_loop :: "nat \<Rightarrow> ('b list \<times> bool) list \<Rightarrow> 'b reader_state \<Rightarrow> 'b reader_state option" where
  "reader_loop bufferSize [] st = Some st"
| "reader_loop bufferSize ((data, err) # reads) st =
     (if bufferSize < length (buffered st) + readSize then None
      else if err then Some ((reader_step bufferSize data err st)\<lparr>closed := True\<rparr>)
      else reader_loop bufferSize reads (reader_step bufferSize data err st))"

definition ReaderToChannel :: "nat \<Rightarrow> ('b list \<times> bool) list \<Rightarrow> 'b reader_state option" where
  "ReaderToChannel bufferSize reads =
     reader_loop (if bufferSize \<le> 128 * 1024 then 128 * 1024 else bufferSize) reads
       \<lparr>sent = [], buffered = [], closed = False\<rparr>"

section \<open>Lemmas\<close>

lemma dec_of_int_nonneg: "0 \<le> n \<Longrightarrow> dec_of_int n = dec_of_nat (nat n)"
  by (simp add: dec_of_int_def)

lemma ParseInt_dec_nonneg: "0 \<le> n \<Longrightarrow> n < 2 ^ 63 \<Longrightarrow> ParseInt (dec_of_int n) 10 64 = (n, None)"
  by (rule ParseInt_dec_of_int) auto

lemma HasSuffix_last: "HasSuffix s p \<Longrightarrow> p \<noteq> [] \<Longrightarrow> last s = last p"
  by (auto simp: HasSuffix_suffix suffix_def)

lemma byte_unit_shape: "byte_multiplicator u = Some m \<Longrightarrow> \<exists>c. u = [c, CHR ''B''] \<and> \<not> IsNumber c"
  by (auto simp: byte_multiplicator_def IsNumber_def split: if_splits)

lemma suffix_len_unit:
  assumes "byte_multiplicator u = Some m" "v \<noteq> []"
  shows "suffix_len (v @ u) = 2" "length u = 2" "\<not> length (v @ u) < 3"
proof -
  obtain c where u: "u = [c, CHR ''B'']" "\<not> IsNumber c" using byte_unit_shape [OF assms(1)] by blast
  have "\<not> HasSuffix (v @ u) '' bytes''" using HasSuffix_last [of "v @ u" "'' bytes''"] u by auto
  moreover have "\<not> IsNumber CHR ''B''" by (simp add: IsNumber_def)
  ultimately show "suffix_len (v @ u) = 2"
    using u by (simp add: suffix_len_def nth_append)
  show "length u = 2" using u by simp
  show "\<not> length (v @ u) < 3" using u assms(2) by (cases v) auto
qed

lemma byte_multiplicator_pos: "byte_multiplicator u = Some m \<Longrightarrow> 0 < m"
  by (auto simp: byte_multiplicator_def split: if_splits)

lemma first_char_not_digit: "snd (Atoi [c]) = None \<longleftrightarrow> (\<exists>v < 10. digit_val c = Some v)"
proof -
  have s: "c = CHR ''+'' \<or> c = CHR ''-'' \<Longrightarrow> digit_val c = None" by (auto simp: digit_val_def)
  show ?thesis
    using s by (auto simp: Atoi_def ParseInt_def ParseUint_def Let_def split: option.splits prod.splits)
qed

lemma reader_step_spec:
  "concat (sent (reader_step n data err st)) @ buffered (reader_step n data err st) =
     concat (sent st) @ buffered st @ data"
  "err \<Longrightarrow> buffered (reader_step n data err st) = []"
  "\<not> err \<Longrightarrow> readSize \<le> n \<Longrightarrow> length (buffered (reader_step n data err st)) + readSize \<le> n"
  by (auto simp: reader_step_def Let_def)

text \<open>The bytes of the reads up to the first one that reports an error.\<close>

fun delivered :: "('b list \<times> bool) list \<Rightarrow> 'b list" where
  "delivered [] = []"
| "delivered ((data, err) # reads) = data @ (if err then [] else delivered reads)"

lemma reader_loop_spec:
  assumes "readSize \<le> n" "length (buffered st) + readSize \<le> n"
  shows "\<exists>st'. reader_loop n reads st = Some st' \<and>
    concat (sent st') @ buffered st' = concat (sent st) @ buffered st @ delivered reads \<and>
    (list_ex snd reads \<longrightarrow> closed st' \<and> buffered st' = [])"
  using assms(2)
proof (induction reads arbitrary: st)
  case (Cons r reads)
  obtain data err where r: "r = (data, err)" by fastforce
  note step = reader_step_spec [where n = n and data = data and err = err and st = st]
  show ?case
  proof (cases err)
    case True
    with Cons.prems r step(1,2) show ?thesis by simp
  next
    case False
    from Cons.IH [OF step(3) [OF False assms(1)]] obtain st' where
      st': "reader_loop n reads (reader_step n data err st) = Some st'"
      "concat (sent st') @ buffered st' = concat (sent (reader_step n data err st)) @
         buffered (reader_step n data err st) @ delivered reads"
      "list_ex snd reads \<longrightarrow> closed st' \<and> buffered st' = []" by blast
    have "concat (sent st') @ buffered st' = concat (sent st) @ buffered st @ data @ delivered reads"
      using st'(2) step(1) by (metis append.assoc)
    with False Cons.prems r st'(1,3) show ?thesis by simp
  qed
qed simp

lemma try_loop_spec:
  "\<exists>j. try_loop run i n res = (if n = 0 then res else run (i + j)) \<and> (0 < n \<longrightarrow> j < n \<and>
     (\<forall>k < j. snd (run (i + k)) \<noteq> None) \<and> (snd (run (i + j)) = None \<or> j = n - 1))"
proof (induction run i n res rule: try_loop.induct)
  case (2 run i left res)
  show ?case
  proof (cases "snd (run i) = None")
    case True
    then show ?thesis by (intro exI [of _ 0]) simp
  next
    case False
    from "2.IH" [OF False] obtain j where
      j: "try_loop run (Suc i) left (run i) = (if left = 0 then run i else run (Suc i + j))"
        "0 < left \<longrightarrow> j < left \<and> (\<forall>k<j. snd (run (Suc i + k)) \<noteq> None) \<and>
           (snd (run (Suc i + j)) = None \<or> j = left - 1)" by blast
    show ?thesis
    proof (cases "left = 0")
      case True
      with False j show ?thesis by (intro exI [of _ 0]) simp
    next
      case pos: False
      have "\<forall>k < Suc j. snd (run (i + k)) \<noteq> None"
        using False j(2) pos by (auto simp: less_Suc_eq_0_disj)
      with False j pos show ?thesis by (intro exI [of _ "Suc j"]) auto
    qed
  qed
qed simp

section \<open>Properties\<close>

text \<open>
   A size string with a unit denotes its number times the unit, in 64-bit arithmetic:
  for every 63-bit number and every unit, \<^verbatim>\<open>ParseByteSizeString\<close> returns the wrapped product,
  which is the true product exactly when it fits.
\<close>

theorem ParseByteSizeString_unit:
  assumes "0 \<le> n" "n < 2 ^ 63" "byte_multiplicator u = Some k"
  shows "ParseByteSizeString (dec_of_int n @ u) = Inr (i64 (n * k)) \<and>
    (i64 (n * k) = n * k \<longleftrightarrow> n * k < 2 ^ 63)"
proof -
  have ne: "dec_of_int n \<noteq> []" using assms(1) by (simp add: dec_of_int_nonneg)
  note sl = suffix_len_unit [OF assms(3) ne]
  have "ParseByteSizeString (dec_of_int n @ u) = Inr (i64 (n * k))"
    using sl ParseInt_dec_nonneg [OF assms(1,2)] assms(1,3) ne
    by (simp add: ParseByteSizeString_def Let_def)
  moreover have "i64 (n * k) = n * k \<longleftrightarrow> n * k < 2 ^ 63"
  proof
    assume "i64 (n * k) = n * k"
    then show "n * k < 2 ^ 63" using i64_in_range [of "n * k"] by (simp add: in_i64_def)
  next
    assume "n * k < 2 ^ 63"
    moreover have "0 \<le> n * k" using assms(1) byte_multiplicator_pos [OF assms(3)] by simp
    ultimately show "i64 (n * k) = n * k" by (intro i64_id) (simp add: in_i64_def)
  qed
  ultimately show ?thesis by blast
qed

theorem ParseByteSizeString_unit_witness: "ParseByteSizeString ''10MB'' = Inr 10485760"
proof -
  have "dec_of_int 10 @ ''MB'' = ''10MB''"
    by (simp add: dec_of_int_def dec_of_nat.simps digit_char_lits)
  with ParseByteSizeString_unit [of 10 "''MB''" "1024 * 1024"] show ?thesis
    by (simp add: byte_multiplicator_def i64_def)
qed

text \<open>
   Finding: the product is not checked for overflow.  \<^verbatim>\<open>8EB\<close>, a supported suffix and a
  positive number, parses without error to the most negative 64-bit number, and \<^verbatim>\<open>16EB\<close> to 0.
\<close>

theorem ParseByteSizeString_overflow:
  "ParseByteSizeString ''8EB'' = Inr (- 9223372036854775808) \<and> ParseByteSizeString ''16EB'' = Inr 0"
  by (simp add: ParseByteSizeString_def suffix_len_def IsNumber_def HasSuffix_def byte_multiplicator_def
      ParseInt_def ParseUint_def digit_val_def Let_def i64_def)

text \<open>
   \<^verbatim>\<open>ReaderToChannel\<close> never slices out of its buffer, delivers exactly the bytes read
  up to the first error, in order, and has sent everything and closed the channel once the
  reader reports an error, for every buffer size and every sequence of reads.
\<close>

theorem ReaderToChannel_delivers:
  "\<exists>st. ReaderToChannel bufferSize reads = Some st \<and>
     concat (sent st) @ buffered st = delivered reads \<and>
     (list_ex snd reads \<longrightarrow> closed st \<and> concat (sent st) = delivered reads)"
proof -
  let ?n = "if bufferSize \<le> 128 * 1024 then 128 * 1024 else bufferSize"
  have n: "readSize \<le> ?n" by (simp add: readSize_def)
  from reader_loop_spec [OF n, of "\<lparr>sent = [], buffered = [], closed = False\<rparr>" reads] n
  show ?thesis by (force simp: ReaderToChannel_def)
qed

theorem ReaderToChannel_delivers_witness:
  "\<exists>st. ReaderToChannel 0 [([1::nat, 2], False), ([3], True), ([4], False)] = Some st \<and>
     closed st \<and> concat (sent st) = [1, 2, 3]"
  using ReaderToChannel_delivers [of 0 "[([1::nat, 2], False), ([3], True), ([4], False)]"] by auto

text \<open>
   A valid host name is exactly one of 1 to 63 letters, digits and hyphens that begins
  with a letter and does not end with a hyphen.
\<close>

theorem ValidHostname_iff:
  "ValidHostname name \<longleftrightarrow>
     name \<noteq> [] \<and> length name \<le> 63 \<and> list_all is_hostname_char name \<and>
     digit_val (hd name) \<noteq> None \<and> 10 \<le> the (digit_val (hd name)) \<and> last name \<noteq> CHR ''-''"
proof (cases name)
  case (Cons c cs)
  have pre: "HasPrefix name ''-'' \<longleftrightarrow> c = CHR ''-''" using Cons by (simp add: HasPrefix_def)
  have suf: "HasSuffix name ''-'' \<longleftrightarrow> last name = CHR ''-''"
  proof
    assume "HasSuffix name ''-''"
    then show "last name = CHR ''-''" using HasSuffix_last by fastforce
  next
    assume "last name = CHR ''-''"
    then have "name = butlast name @ ''-''" using Cons append_butlast_last_id [of name] by simp
    then show "HasSuffix name ''-''" unfolding HasSuffix_suffix suffix_def by blast
  qed
  have alnum: "is_hostname_char c \<Longrightarrow> c \<noteq> CHR ''-'' \<Longrightarrow> digit_val c \<noteq> None"
    by (auto simp: is_hostname_char_def digit_val_def Let_def)
  have dash: "digit_val CHR ''-'' = None" by (simp add: digit_val_def)
  have num: "snd (Atoi [c]) \<noteq> None \<longleftrightarrow> digit_val c = None \<or> 10 \<le> the (digit_val c)"
    using first_char_not_digit [of c] by (cases "digit_val c") (auto simp: not_less)
  have len: "\<not> (length name < 1 \<or> 63 < length name) \<longleftrightarrow> name \<noteq> [] \<and> length name \<le> 63"
    using Cons by auto
  have "ValidHostname name \<longleftrightarrow> length name \<le> 63 \<and> c \<noteq> CHR ''-'' \<and>
      (digit_val c = None \<or> 10 \<le> the (digit_val c)) \<and> last name \<noteq> CHR ''-'' \<and> list_all is_hostname_char name"
    unfolding ValidHostname_def pre suf using len num Cons by auto
  moreover have "list_all is_hostname_char name \<Longrightarrow> is_hostname_char c" using Cons by simp
  ultimately show ?thesis using alnum dash Cons by (metis list.distinct(1) list.sel(1))
qed (simp add: ValidHostname_def)

text \<open>
   \<^verbatim>\<open>TryRunCommand\<close> returns the outcome of the first attempt that succeeds, or of the
  twentieth one when none does: all the attempts before the one it returns failed.
\<close>

theorem TryRunCommand_first_success:
  "\<exists>j < 20. TryRunCommand run = run j \<and> list_all (\<lambda>k. snd (run k) \<noteq> None) [0..<j] \<and>
     (snd (run j) = None \<or> j = 19)"
  using try_loop_spec [of run 0 20 "([], None)"] by (auto simp: TryRunCommand_def list_all_iff)

theorem TryRunCommand_first_success_witness:
  "TryRunCommand (\<lambda>i. if i < 2 then ([], Some ErrSyntax) else (''ok'', None)) = (''ok'', None)"
proof -
  obtain j :: nat where "TryRunCommand (\<lambda>i. if i < 2 then ([], Some ErrSyntax) else (''ok'', None)) =
      (if j < 2 then ([], Some ErrSyntax) else (''ok'', None))"
    "\<not> j < 2 \<or> j = 19"
    using TryRunCommand_first_success [of "\<lambda>i. if i < 2 then ([], Some ErrSyntax) else (''ok'', None)"]
    by fastforce
  then show ?thesis by auto
qed

end
