(* ===== verification/Container_Idmap.thy ===== *)
theory Container_Idmap
  imports Idmap_Laws Shared_Util
begin

text \<open>
  Allocation of the id map of a container: \<^verbatim>\<open>idmapSize\<close>, \<^verbatim>\<open>parseRawIdmap\<close> and
  \<^verbatim>\<open>findIdmap\<close> of \<^verbatim>\<open>lxd/container_lxc.go\<close>.

  The containers of the database and what is loaded of them are the record \<open>alloc_env\<close>; the
  search for a free range is \<open>find_slot\<close>, which runs under \<^verbatim>\<open>idmapLock\<close>.  The sorting
  algorithm is any function with the contract \<open>go_sort\<close>.
\<close>

datatype alloc_error =
    AllocNum num_error
  | BadRawRange string
  | BadRawLine string
  | RawSizes string
  | BadRawType string
  | AllocIdmap idmap_error
  | BadInitialIdmap
  | ListFailed
  | LoadFailed string
  | NotEnoughIds
  | AllocPanic

record idmap_ct =
  ic_privileged :: bool
  ic_config :: strmap

record alloc_env =
  os_idmap :: IdmapSet
  al_names :: "string list option"
  al_load :: "string \<Rightarrow> idmap_ct option"

definition idmapSize :: "IdmapSet \<Rightarrow> string \<Rightarrow> string \<Rightarrow> alloc_error + int" where
  "idmapSize os isolatedStr sizeStr =
     (let isolated = IsTrue isolatedStr in
      if sizeStr = [] \<or> sizeStr = ''auto'' then
        (if isolated then Inr 65536
         else if length os \<noteq> 2 then Inl BadInitialIdmap
         else Inr (Maprange (os ! 0)))
      else (case ParseInt sizeStr 10 64 of
              (_, Some e) \<Rightarrow> Inl (AllocNum e)
            | (n, None) \<Rightarrow> Inr n))"

section \<open>raw.idmap\<close>

definition get_range :: "string \<Rightarrow> alloc_error + (int \<times> int)" where
  "get_range r =
     (let entries = split_on CHR ''-'' r in
      if 2 < length entries then Inl (BadRawRange r)
      else (case ParseInt (entries ! 0) 10 64 of
          (_, Some e) \<Rightarrow> Inl (AllocNum e)
        | (base, None) \<Rightarrow>
            if 1 < length entries then
              (case ParseInt (entries ! 1) 10 64 of
                 (_, Some e) \<Rightarrow> Inl (AllocNum e)
               | (n, None) \<Rightarrow> Inr (base, i64 (i64 (n - base) + 1)))
            else Inr (base, 1)))"

definition raw_entry :: "bool \<Rightarrow> bool \<Rightarrow> int \<Rightarrow> int \<Rightarrow> int \<Rightarrow> IdmapEntry" where
  "raw_entry u g host ns n = \<lparr>Isuid = u, Isgid = g, Hostid = host, Nsid = ns, Maprange = n\<rparr>"

definition raw_kind :: "string \<Rightarrow> string \<Rightarrow> alloc_error + (bool \<times> bool)" where
  "raw_kind line k =
     (if k = ''both'' then Inr (True, True)
      else if k = ''uid'' then Inr (True, False)
      else if k = ''gid'' then Inr (False, True)
      else Inl (BadRawType line))"

definition raw_line :: "IdmapSet \<Rightarrow> string \<Rightarrow> alloc_error + IdmapSet" where
  "raw_line ret line =
     (let entries = split_on CHR '' '' line in
      if length entries \<noteq> 3 then Inl (BadRawLine line)
      else (case get_range (entries ! 1) of
          Inl e \<Rightarrow> Inl e
        | Inr (outsideBase, outsideSize) \<Rightarrow> (case get_range (entries ! 2) of
            Inl e \<Rightarrow> Inl e
          | Inr (insideBase, insideSize) \<Rightarrow>
              if insideSize \<noteq> outsideSize then Inl (RawSizes line)
              else (case raw_kind line (entries ! 0) of
                  Inl e \<Rightarrow> Inl e
                | Inr (u, g) \<Rightarrow>
                    (case AddSafe ret (raw_entry u g outsideBase insideBase insideSize) of
                       Inl e \<Rightarrow> Inl (AllocIdmap e)
                     | Inr ret' \<Rightarrow> Inr ret')))))"

fun raw_lines :: "string list \<Rightarrow> IdmapSet \<Rightarrow> alloc_error + IdmapSet" where
  "raw_lines [] ret = Inr ret"
| "raw_lines (line # lines) ret =
     (if line = [] then raw_lines lines ret
      else (case raw_line ret line of Inl e \<Rightarrow> Inl e | Inr ret' \<Rightarrow> raw_lines lines ret'))"

definition parseRawIdmap :: "string \<Rightarrow> alloc_error + IdmapSet" where
  "parseRawIdmap value = raw_lines (split_on (CHR 0x0A) value) []"

section \<open>Allocation\<close>

text \<open>The raw entries are added one by one; only \<^verbatim>\<open>ErrHostIdIsSubId\<close> stops the addition.\<close>

fun add_raw :: "IdmapEntry list \<Rightarrow> IdmapSet \<Rightarrow> alloc_error + IdmapSet" where
  "add_raw [] set1 = Inr set1"
| "add_raw (ent # ents) set1 = (case AddSafe set1 ent of
     Inl e \<Rightarrow> if e = ErrHostIdIsSubId then Inl (AllocIdmap e) else add_raw ents set1
   | Inr set2 \<Rightarrow> add_raw ents set2)"

definition mkIdmap :: "IdmapEntry list \<Rightarrow> int \<Rightarrow> int \<Rightarrow> alloc_error + IdmapSet" where
  "mkIdmap rawMaps offset n =
     add_raw rawMaps [raw_entry True False offset 0 n, raw_entry False True offset 0 n]"

definition host_less :: "IdmapEntry \<Rightarrow> IdmapEntry \<Rightarrow> bool" where
  "host_less a b \<longleftrightarrow> Hostid a < Hostid b"

text \<open>The ranges of the other isolated containers.\<close>

definition ct_entry :: "IdmapSet \<Rightarrow> strmap \<Rightarrow> alloc_error + IdmapEntry" where
  "ct_entry os config =
     (case (if mget config ''volatile.idmap.base'' \<noteq> []
            then ParseInt (mget config ''volatile.idmap.base'') 10 64 else (0, None)) of
        (_, Some e) \<Rightarrow> Inl (AllocNum e)
      | (cBase, None) \<Rightarrow>
         (case idmapSize os (mget config ''security.idmap.isolated'') (mget config ''security.idmap.size'') of
            Inl e \<Rightarrow> Inl e
          | Inr cSize \<Rightarrow> Inr (raw_entry False False cBase 0 cSize)))"

fun other_entries :: "alloc_env \<Rightarrow> string \<Rightarrow> string list \<Rightarrow> IdmapEntry list \<Rightarrow> alloc_error + IdmapEntry list" where
  "other_entries env cName [] acc = Inr acc"
| "other_entries env cName (name # names) acc =
     (if name = cName then other_entries env cName names acc
      else (case al_load env name of
          None \<Rightarrow> Inl (LoadFailed name)
        | Some c \<Rightarrow>
            if ic_privileged c then other_entries env cName names acc
            else if \<not> IsTrue (mget (ic_config c) ''security.idmap.isolated'')
            then other_entries env cName names acc
            else (case ct_entry (os_idmap env) (ic_config c) of
                Inl e \<Rightarrow> Inl e
              | Inr e \<Rightarrow> other_entries env cName names (acc @ [e]))))"

text \<open>
  The search through the sorted ranges: \<open>Found\<close> is the return of an offset from inside the
  loop, \<open>Past\<close> the offset at its end.  \<open>prev\<close> is the previous entry, \<open>None\<close> in the first round.
\<close>

datatype slot = Found int | Past int

abbreviation host_end :: "IdmapEntry \<Rightarrow> int" where
  "host_end e \<equiv> i64 (Hostid e + Maprange e)"

fun find_slot :: "int \<Rightarrow> IdmapEntry option \<Rightarrow> IdmapEntry list \<Rightarrow> int \<Rightarrow> slot" where
  "find_slot n prev [] offset = Past offset"
| "find_slot n None (m # ms) offset =
     (if Hostid m < i64 (offset + n) then find_slot n (Some m) ms (host_end m) else Found offset)"
| "find_slot n (Some p) (m # ms) offset =
     (if offset < host_end p then find_slot n (Some m) ms (host_end p)
      else if i64 (host_end p + n) < Hostid m then Found (host_end p)
      else find_slot n (Some m) ms (host_end m))"

type_synonym entry_sorter =
  "(IdmapEntry \<Rightarrow> IdmapEntry \<Rightarrow> bool) \<Rightarrow> IdmapEntry list \<Rightarrow> IdmapEntry list"

definition at_offset :: "IdmapEntry list \<Rightarrow> int \<Rightarrow> int \<Rightarrow> alloc_error + (IdmapSet \<times> int)" where
  "at_offset rawMaps offset n = (case mkIdmap rawMaps offset n of
     Inl e \<Rightarrow> Inl e | Inr set1 \<Rightarrow> Inr (set1, offset))"

definition allocate :: "entry_sorter \<Rightarrow> alloc_env \<Rightarrow> string \<Rightarrow> IdmapEntry list \<Rightarrow> int \<Rightarrow>
    alloc_error + (IdmapSet \<times> int)" where
  "allocate srt env cName rawMaps n = (case al_names env of
     None \<Rightarrow> Inl ListFailed
   | Some cs \<Rightarrow>
      (case os_idmap env of
         [] \<Rightarrow> Inl AllocPanic
       | host # _ \<Rightarrow> (case other_entries env cName cs [] of
           Inl e \<Rightarrow> Inl e
         | Inr mapentries \<Rightarrow>
            (case find_slot n None (srt host_less mapentries) (i64 (Hostid host + 65536)) of
               Found offset \<Rightarrow> at_offset rawMaps offset n
             | Past offset \<Rightarrow>
                 if i64 (offset + n) < i64 (Hostid host + Maprange host) then at_offset rawMaps offset n
                 else Inl NotEnoughIds))))"

definition findIdmap :: "entry_sorter \<Rightarrow> alloc_env \<Rightarrow> string \<Rightarrow> string \<Rightarrow> string \<Rightarrow> string \<Rightarrow> string \<Rightarrow>
    alloc_error + (IdmapSet \<times> int)" where
  "findIdmap srt env cName isolatedStr configBase configSize rawIdmap =
     (let isolated = IsTrue isolatedStr in
      case parseRawIdmap rawIdmap of
        Inl e \<Rightarrow> Inl e
      | Inr rawMaps \<Rightarrow>
          if \<not> isolated then
            (case add_raw rawMaps (os_idmap env) of Inl e \<Rightarrow> Inl e | Inr set1 \<Rightarrow> Inr (set1, 0))
          else (case idmapSize (os_idmap env) isolatedStr configSize of
              Inl e \<Rightarrow> Inl e
            | Inr n \<Rightarrow>
                if configBase \<noteq> [] then
                  (case ParseInt configBase 10 64 of
                     (_, Some e) \<Rightarrow> Inl (AllocNum e)
                   | (offset, None) \<Rightarrow> at_offset rawMaps offset n)
                else allocate srt env cName rawMaps n))"

section \<open>Free ranges\<close>

definition host_range :: "IdmapEntry \<Rightarrow> int set" where
  "host_range e = {Hostid e..<Hostid e + Maprange e}"

text \<open>The ranges in use: not empty, inside the host's ids \<open>lo .. hi\<close>, pairwise disjoint.\<close>

definition ranges_ok :: "int \<Rightarrow> int \<Rightarrow> IdmapEntry list \<Rightarrow> bool" where
  "ranges_ok lo hi es \<longleftrightarrow>
     list_all (\<lambda>e. lo \<le> Hostid e \<and> 0 < Maprange e \<and> Hostid e + Maprange e \<le> hi) es \<and>
     sorted_wrt (\<lambda>a b. host_range a \<inter> host_range b = {}) es"

lemma strict_weak_host_less: "strict_weak host_less"
  by (auto simp: strict_weak_def host_less_def)

lemma ranges_ok_perm:
  assumes "mset es = mset es'" "ranges_ok lo hi es"
  shows "ranges_ok lo hi es'"
proof -
  have "sorted_wrt (\<lambda>a b. host_range a \<inter> host_range b = {}) es'"
    using assms by (intro sorted_wrt_symp_perm [of _ es es']) (auto simp: ranges_ok_def symp_def)
  then show ?thesis using assms(2) mset_eq_setD [OF assms(1)] by (simp add: ranges_ok_def list_all_iff)
qed

lemma host_end_ok: "ranges_ok lo hi es \<Longrightarrow> e \<in> set es \<Longrightarrow> 0 \<le> lo \<Longrightarrow> hi < 2 ^ 62 \<Longrightarrow>
  host_end e = Hostid e + Maprange e"
  by (intro i64_id) (auto simp: ranges_ok_def list_all_iff in_i64_def)

lemma disjoint_sorted:
  assumes "host_range a \<inter> host_range b = {}" "Hostid a \<le> Hostid b" "0 < Maprange a" "0 < Maprange b"
  shows "Hostid a + Maprange a \<le> Hostid b"
proof (rule ccontr)
  assume "\<not> ?thesis"
  then have "Hostid b \<in> host_range a \<inter> host_range b" using assms(2,4) by (simp add: host_range_def)
  with assms(1) show False by simp
qed

text \<open>An offset of a range of \<open>n\<close> ids that is free: it touches none of the ranges.\<close>

definition free_at :: "int \<Rightarrow> int \<Rightarrow> IdmapEntry list \<Rightarrow> bool" where
  "free_at n offset es \<longleftrightarrow> (\<forall>e \<in> set es. Hostid e + Maprange e \<le> offset \<or> offset + n \<le> Hostid e)"

definition slot_ok :: "int \<Rightarrow> int \<Rightarrow> int \<Rightarrow> IdmapEntry list \<Rightarrow> slot \<Rightarrow> bool" where
  "slot_ok n lo hi es s = (case s of
     Found o1 \<Rightarrow> lo \<le> o1 \<and> o1 + n \<le> hi \<and> free_at n o1 es
   | Past o1 \<Rightarrow> lo \<le> o1 \<and> o1 \<le> hi \<and> free_at n o1 es)"

lemma slot_ok_extend:
  assumes "slot_ok n lo' hi es s" "Hostid e + Maprange e \<le> lo'" "lo \<le> lo'"
  shows "slot_ok n lo hi (e # es) s"
  using assms by (auto simp: slot_ok_def free_at_def split: slot.splits)

lemma find_slot_Some:
  assumes "ranges_ok lo hi (p # ms)" "sorted_by host_less (p # ms)" "0 \<le> lo" "hi < 2 ^ 62" "0 < n" "n < 2 ^ 62"
  shows "slot_ok n (Hostid p + Maprange p) hi (p # ms) (find_slot n (Some p) ms (host_end p))"
  using assms(1,2)
proof (induction ms arbitrary: p)
  case Nil
  then show ?case using host_end_ok [OF Nil.prems(1) _ assms(3,4)]
    by (auto simp: slot_ok_def free_at_def ranges_ok_def)
next
  case (Cons m ms)
  have ep: "host_end p = Hostid p + Maprange p" and em: "host_end m = Hostid m + Maprange m"
    using host_end_ok [OF Cons.prems(1) _ assms(3,4)] by simp_all
  have ok: "ranges_ok lo hi (m # ms)" "sorted_by host_less (m # ms)"
    using Cons.prems by (simp_all add: ranges_ok_def sorted_by_def)
  have pos: "0 < Maprange m" "0 < Maprange p" "Hostid m + Maprange m \<le> hi" "lo \<le> Hostid p"
    using Cons.prems(1) by (simp_all add: ranges_ok_def)
  have pm: "Hostid p + Maprange p \<le> Hostid m"
    using Cons.prems pos by (intro disjoint_sorted)
      (auto simp: ranges_ok_def sorted_by_def host_less_def not_less)
  have later: "Hostid m \<le> Hostid e" if "e \<in> set ms" for e
    using Cons.prems(2) that by (auto simp: sorted_by_def host_less_def not_less)
  have sum: "i64 (host_end p + n) = Hostid p + Maprange p + n"
    unfolding ep using assms(3-6) pos pm by (intro i64_id) (simp add: in_i64_def)
  show ?case
  proof (cases "i64 (host_end p + n) < Hostid m")
    case True
    then have "free_at n (Hostid p + Maprange p) (p # m # ms)"
      unfolding sum free_at_def using later by fastforce
    with True sum show ?thesis using pos by (simp add: ep slot_ok_def)
  next
    case False
    have "slot_ok n (Hostid p + Maprange p) hi (p # m # ms) (find_slot n (Some m) ms (host_end m))"
      using pm pos by (intro slot_ok_extend [OF Cons.IH [OF ok]]) simp_all
    with False show ?thesis by simp
  qed
qed

lemma find_slot_spec:
  assumes "ranges_ok lo hi ms" "sorted_by host_less ms" "0 \<le> lo" "lo \<le> hi" "hi < 2 ^ 62" "0 < n" "n < 2 ^ 62"
  shows "slot_ok n lo hi ms (find_slot n None ms lo)"
proof (cases ms)
  case Nil
  then show ?thesis using assms by (simp add: slot_ok_def free_at_def)
next
  case (Cons m rest)
  have sum: "i64 (lo + n) = lo + n" using assms by (intro i64_id) (simp add: in_i64_def)
  show ?thesis
  proof (cases "Hostid m < i64 (lo + n)")
    case True
    have "slot_ok n (Hostid m + Maprange m) hi ms (find_slot n (Some m) rest (host_end m))"
      using find_slot_Some assms Cons by blast
    moreover have "lo \<le> Hostid m + Maprange m" using assms(1) Cons by (simp add: ranges_ok_def)
    ultimately show ?thesis using True Cons by (auto simp: slot_ok_def split: slot.splits)
  next
    case False
    moreover have "Hostid m \<le> Hostid e" if "e \<in> set rest" for e
      using assms(2) that Cons by (auto simp: sorted_by_def host_less_def not_less)
    ultimately have "free_at n lo ms" using Cons by (fastforce simp: sum free_at_def)
    moreover have "Hostid m \<le> hi" using assms(1) Cons by (simp add: ranges_ok_def)
    ultimately show ?thesis using False Cons by (simp add: sum slot_ok_def)
  qed
qed

lemma other_entries_at_offset:
  assumes "allocate srt env cName rawMaps n = Inr (set1, offset)"
  shows "\<exists>cs host rest es. al_names env = Some cs \<and> os_idmap env = host # rest \<and>
    other_entries env cName cs [] = Inr es \<and> mkIdmap rawMaps offset n = Inr set1 \<and>
    (find_slot n None (srt host_less es) (i64 (Hostid host + 65536)) = Found offset \<or>
     find_slot n None (srt host_less es) (i64 (Hostid host + 65536)) = Past offset \<and>
       i64 (offset + n) < i64 (Hostid host + Maprange host))"
  using assms unfolding allocate_def
  by (auto simp: at_offset_def split: option.splits list.splits sum.splits slot.splits if_splits)

lemma allocate_gives_free:
  assumes "go_sort srt" "allocate srt env cName rawMaps n = Inr (set1, offset)"
    and "al_names env = Some cs" "os_idmap env = host # rest" "other_entries env cName cs [] = Inr es"
    and "ranges_ok (Hostid host + 65536) (Hostid host + Maprange host) es"
    and "0 \<le> Hostid host" "65536 \<le> Maprange host" "Hostid host + Maprange host < 2 ^ 62" "0 < n" "n < 2 ^ 62"
  shows "Hostid host + 65536 \<le> offset \<and> offset + n \<le> Hostid host + Maprange host \<and>
    (\<forall>e \<in> set es. host_range e \<inter> {offset..<offset + n} = {}) \<and> mkIdmap rawMaps offset n = Inr set1"
proof -
  let ?lo = "Hostid host + 65536" and ?hi = "Hostid host + Maprange host"
  let ?slot = "find_slot n None (srt host_less es) ?lo"
  have wrap: "i64 ?lo = ?lo" "i64 ?hi = ?hi"
    using assms(7-9) by (auto intro!: i64_id simp: in_i64_def)
  have perm: "mset (srt host_less es) = mset es" and sorted: "sorted_by host_less (srt host_less es)"
    using go_sort.srt_mset go_sort.srt_sorted assms(1) strict_weak_host_less by blast+
  have "slot_ok n ?lo ?hi (srt host_less es) ?slot"
    using ranges_ok_perm [OF perm [symmetric] assms(6)] sorted assms(7-11) by (intro find_slot_spec) auto
  then have slot: "slot_ok n ?lo ?hi es ?slot"
    using mset_eq_setD [OF perm] by (simp add: slot_ok_def free_at_def split: slot.splits)
  have found: "mkIdmap rawMaps offset n = Inr set1"
    "?slot = Found offset \<or> ?slot = Past offset \<and> i64 (offset + n) < ?hi"
    using other_entries_at_offset [OF assms(2)] assms(3-5) wrap by auto
  moreover have "?slot = Past offset \<Longrightarrow> i64 (offset + n) = offset + n"
    using slot assms(7-11) by (intro i64_id) (simp add: slot_ok_def in_i64_def)
  ultimately have bounds: "?lo \<le> offset" "offset + n \<le> ?hi" and free: "free_at n offset es"
    using slot by (auto simp: slot_ok_def)
  have "\<forall>e \<in> set es. host_range e \<inter> {offset..<offset + n} = {}"
    using free by (fastforce simp: free_at_def host_range_def)
  with bounds found(1) show ?thesis by simp
qed

text \<open>
  C24.  The range that \<^verbatim>\<open>findIdmap\<close> gives to an isolated container is free: when the ranges
  of the other isolated containers are disjoint and lie in the host's allocation (of ids below
  \<open>2 ^ 62\<close>) behind the first 65536 ids, so does the new one, and it meets none of them, whatever the sorting algorithm.  The
  condition then holds with the new range, too, so that it holds of the next allocation.  It does not
  hold when a configured base makes ranges overlap or a container has no base yet; what happens then
  is in \<open>allocate_overlap\<close> and \<open>allocate_unset_base\<close>.
\<close>

theorem allocate_free:
  assumes "go_sort srt" "allocate srt env cName rawMaps n = Inr (set1, offset)"
    and "al_names env = Some cs" "os_idmap env = host # rest" "other_entries env cName cs [] = Inr es"
    and "ranges_ok (Hostid host + 65536) (Hostid host + Maprange host) es"
    and "0 \<le> Hostid host" "65536 \<le> Maprange host" "Hostid host + Maprange host < 2 ^ 62" "0 < n" "n < 2 ^ 62"
  shows "Hostid host + 65536 \<le> offset \<and> offset + n \<le> Hostid host + Maprange host \<and>
    (\<forall>e \<in> set es. host_range e \<inter> {offset..<offset + n} = {}) \<and> mkIdmap rawMaps offset n = Inr set1
    \<and> ranges_ok (Hostid host + 65536) (Hostid host + Maprange host) (es @ [raw_entry False False offset 0 n])"
  using allocate_gives_free [OF assms] assms(6,10)
  by (auto simp: ranges_ok_def sorted_wrt_append host_range_def raw_entry_def)

definition ct_isolated :: "string \<Rightarrow> string \<Rightarrow> idmap_ct" where
  "ct_isolated base n = \<lparr>ic_privileged = False,
     ic_config = [(''security.idmap.isolated'', ''true''), (''volatile.idmap.base'', base), (''security.idmap.size'', n)]\<rparr>"

definition host_map :: IdmapSet where
  "host_map = [raw_entry True False 1000000 0 1000000000, raw_entry False True 1000000 0 1000000000]"

definition alloc_demo :: "(string \<times> idmap_ct) list \<Rightarrow> alloc_env" where
  "alloc_demo cts = \<lparr>os_idmap = host_map, al_names = Some (map fst cts), al_load = map_of cts\<rparr>"

lemma demo_numbers:
  "ParseInt ''1065536'' 10 64 = (1065536, None)" "ParseInt ''1196608'' 10 64 = (1196608, None)"
  "ParseInt ''1100000'' 10 64 = (1100000, None)" "ParseInt ''200000'' 10 64 = (200000, None)"
  by (simp_all add: ParseInt_def ParseUint_def digit_val_def Let_def)

lemma IsTrue_true: "IsTrue ''true''"
  by (simp add: IsTrue_def ToLower_def lower_char_def Let_def)

lemmas alloc_defs = findIdmap_def parseRawIdmap_def allocate_def alloc_demo_def host_map_def ct_isolated_def
  ct_entry_def idmapSize_def sort_by_def host_less_def raw_entry_def at_offset_def mkIdmap_def i64_def
  demo_numbers IsTrue_true Let_def

theorem allocate_free_witness:
  "\<exists>offset. allocate sort_by (alloc_demo [(''a'', ct_isolated ''1065536'' []), (''b'', ct_isolated ''1196608'' [])]) ''c'' [] 65536 =
      Inr ([raw_entry True False offset 0 65536, raw_entry False True offset 0 65536], offset) \<and>
    1065536 \<le> offset \<and> {1065536..<1131072} \<inter> {offset..<offset + 65536} = {} \<and>
    {1196608..<1262144} \<inter> {offset..<offset + 65536} = {}"
proof -
  let ?env = "alloc_demo [(''a'', ct_isolated ''1065536'' []), (''b'', ct_isolated ''1196608'' [])]"
  let ?es = "[raw_entry False False 1065536 0 65536, raw_entry False False 1196608 0 65536]"
  have run: "allocate sort_by ?env ''c'' [] 65536 =
      Inr ([raw_entry True False 1262144 0 65536, raw_entry False True 1262144 0 65536], 1262144)"
    by (simp add: alloc_defs)
  have others: "other_entries ?env ''c'' [''a'', ''b''] [] = Inr ?es" by (simp add: alloc_defs)
  have "ranges_ok 1065536 1001000000 ?es" by (simp add: ranges_ok_def raw_entry_def host_range_def)
  with allocate_free [OF isort.go_sort_axioms run, of "[''a'', ''b'']" "raw_entry True False 1000000 0 1000000000"] others
  have "{1065536..<1131072} \<inter> {1262144..<1262144 + 65536 :: int} = {} \<and>
      {1196608..<1262144} \<inter> {1262144..<1262144 + 65536 :: int} = {}"
    by (simp add: alloc_demo_def host_map_def raw_entry_def host_range_def)
  with run show ?thesis by (intro exI [of _ 1262144]) simp
qed

text \<open>
   Finding: when the ranges in use overlap, which \<^verbatim>\<open>security.idmap.base\<close> allows, the
  range given to a new isolated container can lie inside the range of another one.  The search
  continues behind the last range it saw, not behind the furthest end: here it returns the end
  of \<open>b\<close>, in the middle of \<open>a\<close>.
\<close>

theorem allocate_overlap:
  "findIdmap sort_by (alloc_demo [(''a'', ct_isolated ''1065536'' ''200000''), (''b'', ct_isolated ''1100000'' [])])
     ''c'' ''true'' [] [] [] =
   Inr ([raw_entry True False 1165536 0 65536, raw_entry False True 1165536 0 65536], 1165536) \<and>
   {1165536..<1165536 + 65536} \<subseteq> host_range (raw_entry False False 1065536 0 200000)"
proof
  show "findIdmap sort_by (alloc_demo [(''a'', ct_isolated ''1065536'' ''200000''), (''b'', ct_isolated ''1100000'' [])])
     ''c'' ''true'' [] [] [] =
   Inr ([raw_entry True False 1165536 0 65536, raw_entry False True 1165536 0 65536], 1165536)"
    by (simp add: alloc_defs)
qed (simp add: host_range_def raw_entry_def)

text \<open>
   Finding: an isolated container that has no \<^verbatim>\<open>volatile.idmap.base\<close> yet counts as one
  at host id 0, and the next container is then mapped to host ids from 65536 on, below the ids
  that the host allocated.
\<close>

theorem allocate_unset_base:
  "findIdmap sort_by (alloc_demo [(''a'', ct_isolated [] [])]) ''c'' ''true'' [] [] [] =
     Inr ([raw_entry True False 65536 0 65536, raw_entry False True 65536 0 65536], 65536) \<and>
   65536 < Hostid (hd host_map)"
  by (simp add: alloc_defs)

text \<open>
   Finding: a range of \<^verbatim>\<open>raw.idmap\<close> that runs backwards is accepted and gives an entry
  of negative size.
\<close>

theorem parseRawIdmap_backwards:
  "parseRawIdmap ''both 10-5 20-15'' = Inr [raw_entry True True 10 20 (- 4)]"
  by (simp add: parseRawIdmap_def raw_line_def get_range_def raw_kind_def raw_entry_def AddSafe_def i64_def
      ParseInt_def ParseUint_def digit_val_def Let_def)

end
