(* ===== verification/Device_Lists.thy ===== *)
theory Device_Lists
  imports Go_Strings
begin

text \<open>
  Container devices: \<^verbatim>\<open>lxd/types/devices.go\<close>.  A device is a (non-nil) Go map from
  property names to values, a \<open>Devices\<close> value a map from device names to devices.  The
  theory holds the comparison of devices, the computation of the changes between two device
  lists (\<^verbatim>\<open>Update\<close>), the extension from a profile and the sorted list of names, with exact
  characterisations that do not depend on the iteration order of the maps.

  \<^verbatim>\<open>shared.DeepCopy\<close> of a map of strings cannot fail and copies its value.
\<close>

type_synonym Device = strmap
type_synonym Devices = "(string, Device) gomap"

section \<open>Comparison\<close>

definition ContainsName :: "Devices \<Rightarrow> string \<Rightarrow> bool" where
  "ContainsName l k = mhas l k"

definition deviceEquals :: "Device \<Rightarrow> Device \<Rightarrow> bool" where
  "deviceEquals old d \<longleftrightarrow>
     list_all (\<lambda>k. mget d k = mget old k) (keys_of d) \<and>
     list_all (\<lambda>k. mget d k = mget old k) (keys_of old)"

definition ContainsDevice :: "Devices \<Rightarrow> string \<Rightarrow> Device \<Rightarrow> bool" where
  "ContainsDevice l k d = (case map_of l k of None \<Rightarrow> False | Some old \<Rightarrow> deviceEquals old d)"

definition deviceEqualsDiffKeys :: "Device \<Rightarrow> Device \<Rightarrow> string list" where
  "deviceEqualsDiffKeys old d =
     filter (\<lambda>k. mget d k \<noteq> mget old k) (keys_of d) @
     filter (\<lambda>k. mget d k \<noteq> mget old k) (keys_of old)"

section \<open>Update\<close>

text \<open>The properties that can change on a running container.\<close>

definition live_keys :: "string list" where
  "live_keys = [''limits.max'', ''limits.read'', ''limits.write'', ''limits.egress'', ''limits.ingress'']"

definition strip_live :: "Device \<Rightarrow> Device" where
  "strip_live d = foldl (\<lambda>m k. AList.delete k m) d live_keys"

record device_changes =
  rmlist :: Devices
  addlist :: Devices
  updatelist :: Devices
  updateDiff :: "string list"

definition device_or_empty :: "Devices \<Rightarrow> string \<Rightarrow> Device" where
  "device_or_empty l k = (case map_of l k of None \<Rightarrow> [] | Some d \<Rightarrow> d)"

text \<open>One round of the loop over \<^verbatim>\<open>addlist\<close>; the loop deletes from the maps it visits.\<close>

definition update_step :: "Devices \<Rightarrow> device_changes \<Rightarrow> string \<times> Device \<Rightarrow> device_changes" where
  "update_step newlist c kd = (case kd of (key, d) \<Rightarrow>
     let oldDevice = device_or_empty (rmlist c) key;
         newDevice = device_or_empty newlist key;
         c1 = c\<lparr>updateDiff := deviceEqualsDiffKeys oldDevice newDevice\<rparr>
     in if deviceEquals (strip_live oldDevice) (strip_live newDevice)
        then c1\<lparr>rmlist := AList.delete key (rmlist c1), addlist := AList.delete key (addlist c1),
                updatelist := AList.update key d (updatelist c1)\<rparr>
        else c1)"

definition Update :: "Devices \<Rightarrow> Devices \<Rightarrow> device_changes" where
  "Update old newlist =
     (let rm = filter (\<lambda>(key, d). \<not> ContainsDevice newlist key d) old;
          add = filter (\<lambda>(key, d). \<not> ContainsDevice old key d) newlist
      in foldl (update_step newlist)
           \<lparr>rmlist = rm, addlist = add, updatelist = [], updateDiff = []\<rparr> add)"

section \<open>Profiles and names\<close>

definition ExtendFromProfile :: "Devices \<Rightarrow> Devices \<Rightarrow> Devices \<Rightarrow> Devices" where
  "ExtendFromProfile newBase currentFull fromProfile =
     foldl (\<lambda>base (name, newDev).
       (case map_of currentFull name of
          Some curDev \<Rightarrow> AList.update name curDev base
        | None \<Rightarrow> AList.update name newDev base)) newBase fromProfile"

definition device_less :: "string \<times> Device \<Rightarrow> string \<times> Device \<Rightarrow> bool" where
  "device_less a b =
     (if mget (snd a) ''type'' \<noteq> mget (snd b) ''type''
      then str_less (mget (snd a) ''type'') (mget (snd b) ''type'')
      else if mget (snd a) ''type'' = ''disk'' \<and> mget (snd b) ''type'' = ''disk'' \<and>
              mget (snd a) ''path'' \<noteq> mget (snd b) ''path''
      then str_less (mget (snd a) ''path'') (mget (snd b) ''path'')
      else str_less (fst a) (fst b))"

type_synonym device_sorter =
  "(string \<times> Device \<Rightarrow> string \<times> Device \<Rightarrow> bool) \<Rightarrow> Devices \<Rightarrow> Devices"

definition DeviceNames :: "device_sorter \<Rightarrow> Devices \<Rightarrow> string list" where
  "DeviceNames srt devices = map fst (srt device_less devices)"

section \<open>Lemmas on the comparison\<close>

lemma deviceEquals_iff: "deviceEquals old d \<longleftrightarrow> mget old = mget d"
proof
  assume eq: "deviceEquals old d"
  show "mget old = mget d"
  proof
    fix k
    show "mget old k = mget d k"
      using eq by (cases "k \<in> set (keys_of d) \<or> k \<in> set (keys_of old)")
        (auto simp: deviceEquals_def list_all_iff mget_absent)
  qed
qed (auto simp: deviceEquals_def list_all_iff)

lemma ContainsDevice_iff:
  "ContainsDevice l k d \<longleftrightarrow> (\<exists>old. map_of l k = Some old \<and> mget old = mget d)"
  by (simp add: ContainsDevice_def deviceEquals_iff split: option.split)

lemma mget_strip_live: "mget (strip_live d) k = (if k \<in> set live_keys then [] else mget d k)"
  by (auto simp: strip_live_def live_keys_def mget_delete)

definition live_equal :: "Device \<Rightarrow> Device \<Rightarrow> bool" where
  "live_equal a b \<longleftrightarrow> (\<forall>k. k \<notin> set live_keys \<longrightarrow> mget a k = mget b k)"

lemma strip_live_equal: "deviceEquals (strip_live a) (strip_live b) \<longleftrightarrow> live_equal a b"
  by (auto simp: deviceEquals_iff live_equal_def mget_strip_live fun_eq_iff)

lemma deviceEqualsDiffKeys_set:
  "set (deviceEqualsDiffKeys old d) = {k. mget old k \<noteq> mget d k}"
  by (auto simp: deviceEqualsDiffKeys_def) (metis mget_absent set_map)+

section \<open>The loop of Update\<close>

text \<open>A key of \<^verbatim>\<open>addlist\<close> whose device differs from the old one in live properties only.\<close>

definition live_key :: "Devices \<Rightarrow> Devices \<Rightarrow> string \<Rightarrow> bool" where
  "live_key rm newlist k = live_equal (device_or_empty rm k) (device_or_empty newlist k)"

lemma update_loop_spec:
  assumes "gomap_ok todo" "gomap_ok (updatelist c)" "set (keys_of todo) \<inter> set (keys_of (updatelist c)) = {}"
    and "\<And>k. k \<in> set (keys_of todo) \<Longrightarrow> map_of (rmlist c) k = map_of rm k"
  shows "map_of (rmlist (foldl (update_step newlist) c todo)) k =
      (if k \<in> set (keys_of todo) \<and> live_key rm newlist k then None else map_of (rmlist c) k) \<and>
    map_of (addlist (foldl (update_step newlist) c todo)) k =
      (if k \<in> set (keys_of todo) \<and> live_key rm newlist k then None else map_of (addlist c) k) \<and>
    map_of (updatelist (foldl (update_step newlist) c todo)) k =
      (if k \<in> set (keys_of todo) \<and> live_key rm newlist k then map_of todo k else map_of (updatelist c) k)"
  using assms
proof (induction todo arbitrary: c)
  case (Cons kd todo)
  obtain a d where kd: "kd = (a, d)" by fastforce
  let ?c = "update_step newlist c (a, d)"
  have old: "device_or_empty (rmlist c) a = device_or_empty rm a"
    using Cons.prems(4) [of a] kd by (simp add: device_or_empty_def)
  have live: "live_key rm newlist a \<longleftrightarrow>
      deviceEquals (strip_live (device_or_empty (rmlist c) a)) (strip_live (device_or_empty newlist a))"
    by (simp add: live_key_def strip_live_equal old)
  have step: "map_of (rmlist ?c) k = (if k = a \<and> live_key rm newlist a then None else map_of (rmlist c) k)"
    "map_of (addlist ?c) k = (if k = a \<and> live_key rm newlist a then None else map_of (addlist c) k)"
    "map_of (updatelist ?c) k = (if k = a \<and> live_key rm newlist a then Some d else map_of (updatelist c) k)"
    for k
    by (auto simp: update_step_def Let_def live delete_conv' update_conv')
  have fresh: "a \<notin> set (keys_of todo)" "gomap_ok todo" using Cons.prems(1) kd by auto
  have prems: "gomap_ok todo" "gomap_ok (updatelist ?c)"
    "set (keys_of todo) \<inter> set (keys_of (updatelist ?c)) = {}"
    "\<And>k. k \<in> set (keys_of todo) \<Longrightarrow> map_of (rmlist ?c) k = map_of rm k"
    using Cons.prems fresh kd step(1)
    by (auto simp: update_step_def Let_def distinct_update dom_update split: if_splits)
  note IH = Cons.IH [OF prems]
  have "k = a \<or> k \<noteq> a" by blast
  then show ?case
  proof
    assume "k = a"
    then show ?thesis using IH step [of k] fresh(1) kd by auto
  next
    assume "k \<noteq> a"
    then show ?thesis using IH step [of k] kd by auto
  qed
qed simp

lemma map_of_filter_None: "k \<notin> set (keys_of m) \<Longrightarrow> map_of (filter P m) k = None"
  by (induction m) auto

lemma map_of_filter_key:
  assumes "gomap_ok m"
  shows "map_of (filter (\<lambda>(k, d). P k d) m) k =
    (case map_of m k of None \<Rightarrow> None | Some d \<Rightarrow> if P k d then Some d else None)"
  using assms
proof (induction m)
  case (Cons kd m)
  obtain a d where kd: "kd = (a, d)" by fastforce
  with Cons.prems have "a \<notin> set (keys_of m)" by simp
  with Cons kd show ?case by (cases "k = a") (auto simp: map_of_filter_None)
qed simp

text \<open>
  What \<^verbatim>\<open>Update\<close> computes, key by key: \<open>same\<close> says that a name has equal devices in both
  lists, \<open>live\<close> that the name is in both and only live properties differ (or it is new and
  holds nothing but live properties).
\<close>

definition same_device :: "Devices \<Rightarrow> Devices \<Rightarrow> string \<Rightarrow> bool" where
  "same_device old newlist k \<longleftrightarrow>
     (\<exists>a b. map_of old k = Some a \<and> map_of newlist k = Some b \<and> mget a = mget b)"

definition live_change :: "Devices \<Rightarrow> Devices \<Rightarrow> string \<Rightarrow> bool" where
  "live_change old newlist k \<longleftrightarrow>
     map_of newlist k \<noteq> None \<and> \<not> same_device old newlist k \<and>
     live_equal (device_or_empty old k) (device_or_empty newlist k)"

lemma Update_spec:
  assumes "gomap_ok old" "gomap_ok newlist"
  shows "map_of (rmlist (Update old newlist)) k =
      (if same_device old newlist k \<or> live_change old newlist k then None else map_of old k) \<and>
    map_of (addlist (Update old newlist)) k =
      (if same_device old newlist k \<or> live_change old newlist k then None else map_of newlist k) \<and>
    map_of (updatelist (Update old newlist)) k =
      (if live_change old newlist k then map_of newlist k else None)"
proof -
  let ?rm = "filter (\<lambda>(key, d). \<not> ContainsDevice newlist key d) old"
  let ?add = "filter (\<lambda>(key, d). \<not> ContainsDevice old key d) newlist"
  let ?c = "\<lparr>rmlist = ?rm, addlist = ?add, updatelist = [], updateDiff = []\<rparr>"
  have rm: "map_of ?rm k = (if same_device old newlist k then None else map_of old k)" for k
    using map_of_filter_key [OF assms(1), of "\<lambda>k d. \<not> ContainsDevice newlist k d" k]
    by (auto simp: ContainsDevice_iff same_device_def split: option.splits)
  have add: "map_of ?add k = (if same_device old newlist k then None else map_of newlist k)" for k
    using map_of_filter_key [OF assms(2), of "\<lambda>k d. \<not> ContainsDevice old k d" k]
    by (auto simp: ContainsDevice_iff same_device_def split: option.splits)
  have "gomap_ok ?add" using assms(2) by (simp add: distinct_map_filter)
  have keys: "k \<in> set (keys_of ?add) \<longleftrightarrow> map_of newlist k \<noteq> None \<and> \<not> same_device old newlist k"
    unfolding mhas_iff [of ?add k, symmetric] mhas_def add by auto
  have live: "k \<in> set (keys_of ?add) \<and> live_key ?rm newlist k \<longleftrightarrow> live_change old newlist k"
    unfolding live_change_def keys live_key_def using rm [of k] by (auto simp: device_or_empty_def)
  have "Update old newlist = foldl (update_step newlist) ?c ?add" by (simp add: Update_def Let_def)
  moreover have "\<not> same_device old newlist k" if "live_change old newlist k"
    using that by (simp add: live_change_def)
  ultimately show ?thesis
    using update_loop_spec [OF \<open>gomap_ok ?add\<close>, of ?c ?rm newlist k]
    unfolding live by (auto simp: rm add)
qed

lemma update_diff_loop:
  "updateDiff (foldl (update_step newlist) c todo) = updateDiff c \<or>
   (\<exists>k. k \<in> set (keys_of todo) \<and> (\<exists>rm. updateDiff (foldl (update_step newlist) c todo) =
      deviceEqualsDiffKeys rm (device_or_empty newlist k)))"
proof (induction todo rule: rev_induct)
  case (snoc kd todo)
  then show ?case by (cases kd) (auto simp: update_step_def Let_def)
qed simp

section \<open>The order of the names\<close>

definition device_key :: "string \<times> Device \<Rightarrow> string \<times> string \<times> string" where
  "device_key a = (mget (snd a) ''type'',
     if mget (snd a) ''type'' = ''disk'' then mget (snd a) ''path'' else [], fst a)"

fun key_less :: "string \<times> string \<times> string \<Rightarrow> string \<times> string \<times> string \<Rightarrow> bool" where
  "key_less (a, b, c) (a', b', c') \<longleftrightarrow>
     str_less a a' \<or> a = a' \<and> (str_less b b' \<or> b = b' \<and> str_less c c')"

lemma device_less_key: "device_less a b = key_less (device_key a) (device_key b)"
  by (auto simp: device_less_def device_key_def)

lemma key_less_linear: "x \<noteq> y \<Longrightarrow> key_less x y \<or> key_less y x"
  using str_less_linear by (cases x; cases y) fastforce

lemma key_less_trans: "key_less x y \<Longrightarrow> key_less y z \<Longrightarrow> key_less x z"
  by (cases x; cases y; cases z) (auto dest: str_less_trans)

lemma strict_weak_device_less: "strict_weak device_less"
proof -
  have "\<not> key_less x x" for x by (cases x) auto
  then have "strict_weak key_less"
    unfolding strict_weak_def using key_less_trans key_less_linear by metis
  then show ?thesis unfolding strict_weak_def device_less_key by blast
qed

lemma str_less_strict_prefix: "strict_prefix p q \<Longrightarrow> str_less p q"
proof -
  have "q \<noteq> [] \<Longrightarrow> str_less p (p @ q)" for q
    by (induction p) (auto simp: neq_Nil_conv)
  then show "strict_prefix p q \<Longrightarrow> str_less p q" by (auto simp: strict_prefix_def prefix_def)
qed

section \<open>Properties\<close>

text \<open>
  C19.  \<^verbatim>\<open>Update\<close> sorts every device name into exactly one fate, whatever the iteration order
  of the maps: unchanged (in no list), changed only in live properties (in the update list
  with its new value, not removed or added), or replaced: then its old device is in the
  remove list and its new device in the add list.
\<close>

theorem Update_partition:
  assumes "gomap_ok old" "gomap_ok newlist"
  shows "map_of (rmlist (Update old newlist)) k =
      (if same_device old newlist k \<or> live_change old newlist k then None else map_of old k) \<and>
    map_of (addlist (Update old newlist)) k =
      (if same_device old newlist k \<or> live_change old newlist k then None else map_of newlist k) \<and>
    map_of (updatelist (Update old newlist)) k =
      (if live_change old newlist k then map_of newlist k else None)"
  using assms by (rule Update_spec)

definition sample_old :: Devices where
  "sample_old = [(''eth0'', [(''type'', ''nic''), (''limits.max'', ''1Mbit'')]),
                 (''root'', [(''type'', ''disk''), (''path'', ''/'')])]"

definition sample_new :: Devices where
  "sample_new = [(''eth0'', [(''type'', ''nic''), (''limits.max'', ''2Mbit'')]),
                 (''data'', [(''type'', ''disk''), (''path'', ''/data'')])]"

theorem Update_partition_witness:
  "map_of (updatelist (Update sample_old sample_new)) ''eth0'' =
     Some [(''type'', ''nic''), (''limits.max'', ''2Mbit'')]"
proof -
  have ok: "gomap_ok sample_old" "gomap_ok sample_new" by (simp_all add: sample_old_def sample_new_def)
  have "mget [(''type'', ''nic''), (''limits.max'', ''1Mbit'')] ''limits.max'' \<noteq>
      mget [(''type'', ''nic''), (''limits.max'', ''2Mbit'')] ''limits.max''" by simp
  then have "mget [(''type'', ''nic''), (''limits.max'', ''1Mbit'')] \<noteq>
      mget [(''type'', ''nic''), (''limits.max'', ''2Mbit'')]" by metis
  then have "live_change sample_old sample_new ''eth0''"
    by (auto simp: live_change_def same_device_def live_equal_def device_or_empty_def
        sample_old_def sample_new_def live_keys_def)
  with Update_partition [OF ok, of "''eth0''"] show ?thesis by (simp add: sample_new_def)
qed

text \<open>
  C37.  The sorted device names do not depend on the iteration order of the map nor on the
  sorting algorithm.
\<close>

theorem DeviceNames_deterministic:
  assumes "go_sort srt" "go_sort srt'" "gomap_ok devices" "mset devices = mset devices'"
  shows "DeviceNames srt devices = DeviceNames srt' devices'"
proof -
  note sw = strict_weak_device_less
  have "srt device_less devices = srt' device_less devices'"
  proof (rule sorted_by_unique)
    show "mset (srt device_less devices) = mset (srt' device_less devices')"
      using assms by (simp add: go_sort.srt_mset [OF _ sw])
    show "sorted_by device_less (srt device_less devices)"
      "sorted_by device_less (srt' device_less devices')"
      using assms(1,2) by (simp_all add: go_sort.srt_sorted [OF _ sw])
    fix x y assume "x \<in> set (srt device_less devices)" "y \<in> set (srt device_less devices)" "x \<noteq> y"
    then have "fst x \<noteq> fst y"
      using assms(3) go_sort.srt_set [OF assms(1) sw] by (auto simp: distinct_map inj_on_def)
    then have "device_key x \<noteq> device_key y" by (simp add: device_key_def)
    then show "device_less x y \<or> device_less y x"
      unfolding device_less_key by (rule key_less_linear)
  qed
  then show ?thesis by (simp add: DeviceNames_def)
qed

theorem DeviceNames_deterministic_witness:
  "DeviceNames sort_by sample_old = DeviceNames sort_by (rev sample_old)"
  using DeviceNames_deterministic [OF isort.go_sort_axioms isort.go_sort_axioms,
      of sample_old "rev sample_old"] by (simp add: sample_old_def)

text \<open>
   A disk whose path lies above the path of another disk comes first in the sorted
  list: parents are mounted before what is mounted inside them.
\<close>

theorem DeviceNames_mount_order:
  assumes "go_sort srt" "gomap_ok devices" "(a, d) \<in> set devices" "(b, e) \<in> set devices"
    and "mget d ''type'' = ''disk''" "mget e ''type'' = ''disk''"
    and "strict_prefix (mget d ''path'') (mget e ''path'')"
  shows "\<exists>xs ys zs. DeviceNames srt devices = xs @ a # ys @ b # zs"
proof -
  let ?s = "srt device_less devices"
  note sw = strict_weak_device_less
  have lt: "device_less (a, d) (b, e)"
    using assms(5-7) str_less_strict_prefix by (auto simp: device_less_def strict_prefix_def)
  have "set ?s = set devices" by (rule go_sort.srt_set [OF assms(1) sw])
  with assms(3,4) obtain i j where ij: "i < length ?s" "?s ! i = (a, d)" "j < length ?s" "?s ! j = (b, e)"
    by (metis in_set_conv_nth)
  have "\<not> j < i"
    using go_sort.srt_sorted [OF assms(1) sw, of devices] lt ij
    unfolding sorted_by_def sorted_wrt_iff_nth_less by metis
  moreover have "i \<noteq> j" using lt ij strict_weak_asym [OF sw lt] by auto
  ultimately have "i < j" by simp
  with ij have "?s = take i ?s @ (a, d) # drop (Suc i) ?s"
    "drop (Suc i) ?s = take (j - Suc i) (drop (Suc i) ?s) @ (b, e) # drop (Suc j) ?s"
    using id_take_nth_drop [of i ?s] id_take_nth_drop [of "j - Suc i" "drop (Suc i) ?s"] by auto
  then have "map fst ?s = map fst (take i ?s) @ a #
      map fst (take (j - Suc i) (drop (Suc i) ?s)) @ b # map fst (drop (Suc j) ?s)"
    by (metis fst_conv list.simps(9) map_append)
  then show ?thesis unfolding DeviceNames_def by blast
qed

definition sample_disks :: Devices where
  "sample_disks = [(''a'', [(''type'', ''disk''), (''path'', ''/srv/data'')]),
                   (''b'', [(''type'', ''disk''), (''path'', ''/srv'')])]"

theorem DeviceNames_mount_order_witness:
  "\<exists>xs ys zs. DeviceNames sort_by sample_disks = xs @ ''b'' # ys @ ''a'' # zs"
  using DeviceNames_mount_order [OF isort.go_sort_axioms, of sample_disks "''b''"
      "[(''type'', ''disk''), (''path'', ''/srv'')]" "''a''" "[(''type'', ''disk''), (''path'', ''/srv/data'')]"]
  by (simp add: sample_disks_def strict_prefix_def)

text \<open>
   Finding: \<^verbatim>\<open>updateDiff\<close> holds the changed properties of one device only, the last one
  the loop visits.  With a nic whose limit changes and a disk that is added, one iteration
  order of the same map reports the change of \<^verbatim>\<open>limits.max\<close> and the other one does not,
  although the nic is in the update list in both cases.
\<close>

theorem updateDiff_order_dependent:
  "mset (rev sample_new) = mset sample_new \<and>
   mhas (updatelist (Update sample_old sample_new)) ''eth0'' \<and>
   mhas (updatelist (Update sample_old (rev sample_new))) ''eth0'' \<and>
   ''limits.max'' \<notin> set (updateDiff (Update sample_old sample_new)) \<and>
   ''limits.max'' \<in> set (updateDiff (Update sample_old (rev sample_new)))"
proof (intro conjI)
  show "mset (rev sample_new) = mset sample_new" by simp
qed (code_simp, code_simp, code_simp, code_simp)

end
