(* ===== verification/Host_Devices.thy ===== *)
theory Host_Devices
  imports Shared_Util Device_Lists "HOL-Library.Signed_Division"
begin

text \<open>
  Host side of the devices: the parsers and queries of \<^verbatim>\<open>lxd/devices.go\<close> that turn limits,
  modes and paths into what the kernel takes, the device numbers of
  \<^verbatim>\<open>shared/util_linux.go\<close> and their encoding for \<^verbatim>\<open>mknod\<close>
  (\<^verbatim>\<open>createUnixDevice\<close>), and the block limits of a container (\<^verbatim>\<open>getDiskLimits\<close>).

  What the host answers (\<^verbatim>\<open>stat\<close>, mount table, memory information, commands) is the record
  \<open>host_env\<close>.  A loop that may not end is a \<open>partial_function\<close> whose value is then
  \<open>None\<close>; the recursion of \<^verbatim>\<open>deviceGetParentBlocks\<close> (a pool whose disks are files on
  another file system) has fuel.
\<close>

unbundle bit_operations_syntax

section \<open>The host\<close>

record stat_t =
  st_mode :: "32 word"
  st_rdev :: "64 word"

datatype host_error =
    StatFailed string
  | NotADevice
  | BadDeviceMode string
  | InvalidCpuset string
  | BadNum num_error
  | InvalidAllowance string
  | BadSize size_error
  | NoMemTotal
  | ReadFailed string
  | AbsFailed string
  | NoMountMatch
  | QueryFailed string
  | NoBackingBlock string
  | InvalidBlockDevice string
  | FsDetectFailed string
  | MountFailed string string
  | NoQuotaSupport string
  | IndexPanic

record host_env =
  h_stat :: "string \<Rightarrow> stat_t option"
  h_exists :: "string \<Rightarrow> bool"
  h_isdir :: "string \<Rightarrow> bool"
  h_run :: "string list \<Rightarrow> string \<times> bool"
  h_meminfo :: "string list option"
  h_mountinfo :: "string list option"
  h_abs :: "string \<Rightarrow> string option"
  h_evalsymlinks :: "string \<Rightarrow> string option"
  h_fs :: "string \<Rightarrow> string"
  h_readdir :: "string \<Rightarrow> string list option"
  h_readfile :: "string \<Rightarrow> string option"

section \<open>Device nodes\<close>

definition S_IFMT :: "32 word" where "S_IFMT = 0xf000"
definition S_IFBLK :: "32 word" where "S_IFBLK = 0x6000"
definition S_IFCHR :: "32 word" where "S_IFCHR = 0x2000"

definition Major :: "64 word \<Rightarrow> 64 word" where
  "Major dev = ((drop_bit 8 dev) AND 0xfff) OR ((drop_bit 32 dev) AND 0xfffff000)"

definition Minor :: "64 word \<Rightarrow> 64 word" where
  "Minor dev = (dev AND 0xff) OR ((drop_bit 12 dev) AND 0xffffff00)"

definition encoded_device_number :: "64 word \<Rightarrow> 64 word \<Rightarrow> 64 word" where
  "encoded_device_number major minor =
     (minor AND 0xff) OR (push_bit 8 major) OR (push_bit 12 (minor AND NOT 0xff))"

definition deviceIsBlockdev :: "host_env \<Rightarrow> string \<Rightarrow> bool" where
  "deviceIsBlockdev h path = (case h_stat h path of
     None \<Rightarrow> False
   | Some stat \<Rightarrow> st_mode stat AND S_IFMT = S_IFBLK)"

definition deviceModeOct :: "string \<Rightarrow> host_error + int" where
  "deviceModeOct strmode =
     (if strmode = [] then Inr 384
      else case ParseInt strmode 8 32 of
        (i, None) \<Rightarrow> Inr i
      | (_, Some _) \<Rightarrow> Inl (BadDeviceMode strmode))"

definition deviceGetAttributes :: "host_env \<Rightarrow> string \<Rightarrow> host_error + (string \<times> int \<times> int)" where
  "deviceGetAttributes h path = (case h_stat h path of
     None \<Rightarrow> Inl (StatFailed path)
   | Some stat \<Rightarrow>
      (let attrs = (\<lambda>dType. Inr (dType, sint (Major (st_rdev stat)), sint (Minor (st_rdev stat)))) in
       if st_mode stat AND S_IFMT = S_IFBLK then attrs ''b''
       else if st_mode stat AND S_IFMT = S_IFCHR then attrs ''c''
       else Inl NotADevice))"

section \<open>CPU sets and CPU limits\<close>

text \<open>The loop \<^verbatim>\<open>for i := low; i <= high; i++\<close>, whose counter wraps around.\<close>

partial_function (option) cpu_loop :: "int \<Rightarrow> int \<Rightarrow> int list \<Rightarrow> int list option" where
  "cpu_loop i high cpus =
     (if i \<le> high then cpu_loop (i64 (i + 1)) high (cpus @ [i]) else Some cpus)"

declare cpu_loop.simps [code]

definition parse_chunk :: "string \<Rightarrow> string \<Rightarrow> int list \<Rightarrow> (host_error + int list) option" where
  "parse_chunk cpu chunk cpus =
     (if ContainsChar chunk CHR ''-'' then
        (case split2 CHR ''-'' chunk of
           [f0, f1] \<Rightarrow>
             (case Atoi f0 of
                (_, Some _) \<Rightarrow> Some (Inl (InvalidCpuset cpu))
              | (low, None) \<Rightarrow>
                  (case Atoi f1 of
                     (_, Some _) \<Rightarrow> Some (Inl (InvalidCpuset cpu))
                   | (high, None) \<Rightarrow> map_option Inr (cpu_loop low high cpus)))
         | _ \<Rightarrow> Some (Inl (InvalidCpuset cpu)))
      else (case Atoi chunk of
              (_, Some _) \<Rightarrow> Some (Inl (InvalidCpuset cpu))
            | (nr, None) \<Rightarrow> Some (Inr (cpus @ [nr]))))"

fun parse_chunks :: "string \<Rightarrow> string list \<Rightarrow> int list \<Rightarrow> (host_error + int list) option" where
  "parse_chunks cpu [] cpus = Some (Inr cpus)"
| "parse_chunks cpu (chunk # chunks) cpus = (case parse_chunk cpu chunk cpus of
     None \<Rightarrow> None
   | Some (Inl e) \<Rightarrow> Some (Inl e)
   | Some (Inr cpus') \<Rightarrow> parse_chunks cpu chunks cpus')"

definition parseCpuset :: "string \<Rightarrow> (host_error + int list) option" where
  "parseCpuset cpu = parse_chunks cpu (split_on CHR '','' cpu) []"

text \<open>The priority and the allowance of \<^verbatim>\<open>deviceParseCPU\<close>; \<^verbatim>\<open>int\<close> arithmetic wraps.\<close>

definition cpu_priority :: "string \<Rightarrow> host_error + int" where
  "cpu_priority cpuPriority =
     (if cpuPriority = [] then Inr 10
      else case Atoi cpuPriority of (i, None) \<Rightarrow> Inr i | (_, Some e) \<Rightarrow> Inl (BadNum e))"

definition cpu_allowance :: "int \<Rightarrow> string \<Rightarrow> host_error + (int \<times> string \<times> string)" where
  "cpu_allowance cpuShares cpuAllowance =
     (if cpuAllowance \<noteq> [] then
        (if HasSuffix cpuAllowance ''%'' then
           (case Atoi (TrimSuffix cpuAllowance ''%'') of
              (_, Some e) \<Rightarrow> Inl (BadNum e)
            | (percent, None) \<Rightarrow> Inr (i64 (cpuShares + i64 (i64 (10 * percent) + 24)), ''-1'', ''100000''))
         else (case split2 CHR ''/'' cpuAllowance of
             [f0, f1] \<Rightarrow>
               (case Atoi (TrimSuffix f0 ''ms'') of
                  (_, Some e) \<Rightarrow> Inl (BadNum e)
                | (quota, None) \<Rightarrow>
                    (case Atoi (TrimSuffix f1 ''ms'') of
                       (_, Some e) \<Rightarrow> Inl (BadNum e)
                     | (period, None) \<Rightarrow>
                         Inr (i64 (cpuShares + 1024), dec_of_int (i64 (quota * 1000)), dec_of_int (i64 (period * 1000)))))
           | _ \<Rightarrow> Inl (InvalidAllowance cpuAllowance)))
      else Inr (i64 (cpuShares + 1024), ''-1'', ''100000''))"

definition deviceParseCPU :: "string \<Rightarrow> string \<Rightarrow> host_error + (string \<times> string \<times> string)" where
  "deviceParseCPU cpuAllowance cpuPriority = (case cpu_priority cpuPriority of
     Inl e \<Rightarrow> Inl e
   | Inr prio \<Rightarrow>
      (case cpu_allowance (i64 (0 - i64 (10 - prio))) cpuAllowance of
         Inl e \<Rightarrow> Inl e
       | Inr (cpuShares, cpuCfsQuota, cpuCfsPeriod) \<Rightarrow>
           Inr (dec_of_int (if cpuShares < 0 then 0 else cpuShares), cpuCfsQuota, cpuCfsPeriod)))"

section \<open>Memory\<close>

fun total_memory :: "string list \<Rightarrow> host_error + int" where
  "total_memory [] = Inl NoMemTotal"
| "total_memory (line # lines) =
     (if \<not> HasPrefix line ''MemTotal:'' then total_memory lines
      else let fields = split_on CHR '' '' line in
        if length fields < 2 then Inl IndexPanic
        else (case ParseByteSizeString (fields ! (length fields - 2) @ fields ! (length fields - 1)) of
           Inl e \<Rightarrow> Inl (BadSize e) | Inr v \<Rightarrow> Inr v))"

definition deviceTotalMemory :: "host_env \<Rightarrow> host_error + int" where
  "deviceTotalMemory h = (case h_meminfo h of
     None \<Rightarrow> Inl (ReadFailed ''/proc/meminfo'')
   | Some lines \<Rightarrow> total_memory lines)"

section \<open>Mounting a disk\<close>

definition MS_RDONLY :: "64 word" where "MS_RDONLY = 0x1"
definition MS_REMOUNT :: "64 word" where "MS_REMOUNT = 0x20"
definition MS_BIND :: "64 word" where "MS_BIND = 0x1000"
definition MS_REC :: "64 word" where "MS_REC = 0x4000"
definition MS_SLAVE :: "64 word" where "MS_SLAVE = 0x80000"

record mount_call =
  m_source :: string
  m_target :: string
  m_fstype :: string
  m_flags :: "64 word"

definition BlockFsDetect :: "host_env \<Rightarrow> string \<Rightarrow> host_error + string" where
  "BlockFsDetect h dev = (case h_run h [''blkid'', ''-s'', ''TYPE'', ''-o'', ''value'', dev] of
     (out, ok) \<Rightarrow> if ok then Inr (TrimSpace out) else Inl (FsDetectFailed dev))"

text \<open>
  A list of mount system calls, issued in order until one fails (\<open>mnt\<close> says which do).  The
  result is the list of the calls that succeeded and the error, if any.
\<close>

fun issue :: "(mount_call \<Rightarrow> bool) \<Rightarrow> mount_call list \<Rightarrow> mount_call list \<Rightarrow> mount_call list \<times> host_error option" where
  "issue mnt [] performed = (performed, None)"
| "issue mnt (c # cs) performed =
     (if mnt c then issue mnt cs (performed @ [c])
      else (performed, Some (MountFailed (m_source c) (m_target c))))"

definition disk_flags :: "host_env \<Rightarrow> string \<Rightarrow> bool \<Rightarrow> bool \<Rightarrow> host_error + (string \<times> 64 word)" where
  "disk_flags h srcPath readonly recursive =
     (let flags = (if readonly then MS_RDONLY else 0) in
      if deviceIsBlockdev h srcPath then
        (case BlockFsDetect h srcPath of Inl e \<Rightarrow> Inl e | Inr fstype \<Rightarrow> Inr (fstype, flags))
      else let flags = flags OR MS_BIND
           in Inr (''none'', if recursive then flags OR MS_REC else flags))"

definition deviceMountDisk ::
  "host_env \<Rightarrow> (mount_call \<Rightarrow> bool) \<Rightarrow> string \<Rightarrow> string \<Rightarrow> bool \<Rightarrow> bool \<Rightarrow> mount_call list \<times> host_error option" where
  "deviceMountDisk h mnt srcPath dstPath readonly recursive =
     (case disk_flags h srcPath readonly recursive of
        Inl e \<Rightarrow> ([], Some e)
      | Inr (fstype, flags) \<Rightarrow>
          issue mnt
            ([\<lparr>m_source = srcPath, m_target = dstPath, m_fstype = fstype, m_flags = flags\<rparr>] @
             (if readonly \<and> flags AND MS_BIND = MS_BIND
              then [\<lparr>m_source = [], m_target = dstPath, m_fstype = fstype,
                      m_flags = MS_RDONLY OR MS_BIND OR MS_REMOUNT\<rparr>]
              else []) @
             [\<lparr>m_source = [], m_target = dstPath, m_fstype = [], m_flags = MS_REC OR MS_SLAVE\<rparr>]) [])"

section \<open>Block devices behind a path\<close>

text \<open>The scan of the mount table: the longest mount point that is a string prefix of the path.\<close>

fun mount_scan :: "string \<Rightarrow> string list \<Rightarrow> string \<Rightarrow> (string \<times> string) option \<Rightarrow> host_error + (string \<times> string) option" where
  "mount_scan expPath [] match device = Inr device"
| "mount_scan expPath (line # lines) match device =
     (let rows = Fields line in
      if length rows < 5 then Inl IndexPanic
      else if length (rows ! 4) \<le> length match then mount_scan expPath lines match device
      else if expPath \<noteq> rows ! 4 \<and> \<not> HasPrefix expPath (rows ! 4) then mount_scan expPath lines match device
      else mount_scan expPath lines (rows ! 4) (Some (rows ! 2, rows ! (length rows - 2))))"

definition dev_string :: "int \<Rightarrow> int \<Rightarrow> string" where
  "dev_string major minor = dec_of_int major @ '':'' @ dec_of_int minor"

definition IsBlockdevPath :: "host_env \<Rightarrow> string \<Rightarrow> bool" where
  "IsBlockdevPath h pathName = (case h_stat h pathName of
     None \<Rightarrow> False | Some stat \<Rightarrow> st_mode stat AND S_IFMT = S_IFBLK)"

text \<open>
  The lines of \<^verbatim>\<open>zpool status\<close>; \<open>sub\<close> stands for the recursive call on a vdev that is not a
  block device.
\<close>

fun zpool_lines ::
  "host_env \<Rightarrow> (string \<Rightarrow> (host_error + string list) option) \<Rightarrow> string list \<Rightarrow> bool \<Rightarrow> string list \<Rightarrow>
   (host_error + string list) option" where
  "zpool_lines h sub [] header devices = Some (Inr devices)"
| "zpool_lines h sub (line # lines) header devices =
     (let fields = Fields line in
      if length fields < 5 then zpool_lines h sub lines header devices
      else if fields ! 1 \<noteq> ''ONLINE'' then zpool_lines h sub lines header devices
      else if header then zpool_lines h sub lines False devices
      else if \<not> h_exists h (fields ! 0) then zpool_lines h sub lines header devices
      else if IsBlockdevPath h (fields ! 0) then
        (case deviceGetAttributes h (fields ! 0) of
           Inl _ \<Rightarrow> zpool_lines h sub lines header devices
         | Inr (_, major, minor) \<Rightarrow> zpool_lines h sub lines header (devices @ [dev_string major minor]))
      else (case sub (fields ! 0) of
              None \<Rightarrow> None
            | Some (Inl e) \<Rightarrow> Some (Inl e)
            | Some (Inr subDevices) \<Rightarrow> zpool_lines h sub lines header (devices @ subDevices)))"

fun btrfs_lines :: "host_env \<Rightarrow> string list \<Rightarrow> string list \<Rightarrow> host_error + string list" where
  "btrfs_lines h [] devices = Inr devices"
| "btrfs_lines h (line # lines) devices =
     (let fields = Fields line in
      if fields = [] \<or> hd fields \<noteq> ''devid'' then btrfs_lines h lines devices
      else (case deviceGetAttributes h (last fields) of
              Inl e \<Rightarrow> Inl e
            | Inr (_, major, minor) \<Rightarrow> btrfs_lines h lines (devices @ [dev_string major minor])))"

definition zfs_blocks ::
  "host_env \<Rightarrow> (string \<Rightarrow> (host_error + string list) option) \<Rightarrow> string \<Rightarrow> (host_error + string list) option" where
  "zfs_blocks h sub source =
     (let poolName = hd (split_on CHR ''/'' source) in
      case h_run h [''zpool'', ''status'', ''-P'', ''-L'', poolName] of
        (output, ok) \<Rightarrow>
          if \<not> ok then Some (Inl (QueryFailed source))
          else (case zpool_lines h sub (split_on (CHR 0x0A) output) True [] of
                  None \<Rightarrow> None
                | Some (Inl e) \<Rightarrow> Some (Inl e)
                | Some (Inr devices) \<Rightarrow>
                    Some (if devices = [] then Inl (NoBackingBlock poolName) else Inr devices)))"

definition btrfs_blocks :: "host_env \<Rightarrow> string \<Rightarrow> host_error + string list" where
  "btrfs_blocks h source = (case h_run h [''btrfs'', ''filesystem'', ''show'', source] of
     (output, ok) \<Rightarrow> if ok then btrfs_lines h (split_on (CHR 0x0A) output) []
                     else Inl (QueryFailed source))"

definition path_block :: "host_env \<Rightarrow> string \<Rightarrow> host_error + string list" where
  "path_block h source = (case deviceGetAttributes h source of
     Inl e \<Rightarrow> Inl e | Inr (_, major, minor) \<Rightarrow> Inr [dev_string major minor])"

text \<open>The value is \<open>None\<close> only when the fuel, the depth of the recursion, is used up.\<close>

fun deviceGetParentBlocks :: "nat \<Rightarrow> host_env \<Rightarrow> string \<Rightarrow> (host_error + string list) option" where
  "deviceGetParentBlocks 0 h path = None"
| "deviceGetParentBlocks (Suc fuel) h path = (case h_abs h path of
     None \<Rightarrow> Some (Inl (AbsFailed path))
   | Some absPath \<Rightarrow>
      (let expPath = (case h_evalsymlinks h absPath of None \<Rightarrow> absPath | Some p \<Rightarrow> p) in
       case h_mountinfo h of
         None \<Rightarrow> Some (Inl (ReadFailed ''/proc/self/mountinfo''))
       | Some lines \<Rightarrow> (case mount_scan expPath lines [] None of
           Inl e \<Rightarrow> Some (Inl e)
         | Inr None \<Rightarrow> Some (Inl NoMountMatch)
         | Inr (Some (number, source)) \<Rightarrow>
            if \<not> HasPrefix number ''0:'' then Some (Inr [number])
            else let fs = h_fs h expPath in
              if fs = ''zfs'' \<and> h_exists h ''/dev/zfs''
              then zfs_blocks h (deviceGetParentBlocks fuel h) source
              else if fs = ''btrfs'' \<and> h_exists h source then Some (btrfs_blocks h source)
              else if h_exists h source then Some (path_block h source)
              else Some (Inl (InvalidBlockDevice source)))))"

section \<open>Block I/O limits\<close>

text \<open>\<^verbatim>\<open>parseValue\<close> is a closure: it reads \<open>readSpeed\<close> of the enclosing function.\<close>

definition parse_limit_value :: "string \<Rightarrow> string \<Rightarrow> host_error + (int \<times> int)" where
  "parse_limit_value readSpeed value =
     (if readSpeed = [] then Inr (0, 0)
      else if HasSuffix value ''iops'' then
        (case ParseInt (TrimSuffix value ''iops'') 10 64 of
           (iops, None) \<Rightarrow> Inr (0, iops) | (_, Some e) \<Rightarrow> Inl (BadNum e))
      else (case ParseByteSizeString value of Inl e \<Rightarrow> Inl (BadSize e) | Inr bps \<Rightarrow> Inr (bps, 0)))"

record deviceBlockLimit =
  readBps :: int
  readIops :: int
  writeBps :: int
  writeIops :: int

definition deviceParseDiskLimit :: "string \<Rightarrow> string \<Rightarrow> host_error + deviceBlockLimit" where
  "deviceParseDiskLimit readSpeed writeSpeed = (case parse_limit_value readSpeed readSpeed of
     Inl e \<Rightarrow> Inl e
   | Inr (rb, ri) \<Rightarrow> (case parse_limit_value readSpeed writeSpeed of
       Inl e \<Rightarrow> Inl e
     | Inr (wb, wi) \<Rightarrow> Inr \<lparr>readBps = rb, readIops = ri, writeBps = wb, writeIops = wi\<rparr>))"

text \<open>
  \<^verbatim>\<open>getDiskLimits\<close>.  First the block devices that take limits (whole disks with a device
  number), then one round per disk device of the container, then the average of the limits that
  fall on the same block device.  The round writes \<^verbatim>\<open>limits.read\<close> and \<^verbatim>\<open>limits.write\<close>
  into the device, a Go map, so the changed device list is part of the result.
\<close>

fun valid_blocks :: "host_env \<Rightarrow> string list \<Rightarrow> string list \<Rightarrow> host_error + string list" where
  "valid_blocks h [] acc = Inr acc"
| "valid_blocks h (f # fs) acc =
     (let fPath = JoinPath [''/sys/class/block/'', f] in
      if h_exists h (fPath @ ''/partition'') then valid_blocks h fs acc
      else if \<not> h_exists h (fPath @ ''/dev'') then valid_blocks h fs acc
      else (case h_readfile h (fPath @ ''/dev'') of
              None \<Rightarrow> Inl (ReadFailed (fPath @ ''/dev''))
            | Some block \<Rightarrow> valid_blocks h fs (acc @ [TrimSuffix block [CHR 0x0A]])))"

type_synonym block_limits = "(string, deviceBlockLimit list) gomap"

definition add_limit :: "deviceBlockLimit \<Rightarrow> string \<Rightarrow> block_limits \<Rightarrow> block_limits" where
  "add_limit device blockStr m =
     AList.update blockStr ((case map_of m blockStr of None \<Rightarrow> [] | Some ls \<Rightarrow> ls) @ [device]) m"

definition block_of :: "string list \<Rightarrow> string \<Rightarrow> host_error + string" where
  "block_of valid block =
     (if StringInSlice block valid then
        (if block = [] then Inl (NoQuotaSupport block) else Inr block)
      else (case split2 CHR '':'' block of
              [major, _] \<Rightarrow>
                if StringInSlice (major @ '':0'') valid then Inr (major @ '':0'')
                else Inl (NoQuotaSupport block)
            | _ \<Rightarrow> Inl IndexPanic))"

fun add_blocks :: "string list \<Rightarrow> deviceBlockLimit \<Rightarrow> string list \<Rightarrow> block_limits \<Rightarrow> host_error + block_limits" where
  "add_blocks valid device [] m = Inr m"
| "add_blocks valid device (block # blocks) m = (case block_of valid block of
     Inl e \<Rightarrow> Inl e
   | Inr blockStr \<Rightarrow> add_blocks valid device blocks (add_limit device blockStr m))"

definition apply_max :: "Device \<Rightarrow> Device" where
  "apply_max m =
     (if mget m ''limits.max'' \<noteq> []
      then AList.update ''limits.write'' (mget m ''limits.max'')
             (AList.update ''limits.read'' (mget m ''limits.max'') m)
      else m)"

definition no_limit :: "deviceBlockLimit \<Rightarrow> bool" where
  "no_limit d \<longleftrightarrow> readBps d = 0 \<and> readIops d = 0 \<and> writeBps d = 0 \<and> writeIops d = 0"

text \<open>
  \<open>host\<close> stands for \<^verbatim>\<open>shared.HostPath\<close> in the daemon's environment, \<open>rootfs\<close> for
  \<^verbatim>\<open>c.RootfsPath()\<close>; \<open>fuel\<close> is that of \<open>deviceGetParentBlocks\<close>.
\<close>

fun disk_limit_loop ::
  "nat \<Rightarrow> host_env \<Rightarrow> (string \<Rightarrow> string) \<Rightarrow> string \<Rightarrow> string list \<Rightarrow> string list \<Rightarrow> Devices \<Rightarrow> block_limits \<Rightarrow>
   (Devices \<times> (host_error + block_limits)) option" where
  "disk_limit_loop fuel h host rootfs valid [] devs bl = Some (devs, Inr bl)"
| "disk_limit_loop fuel h host rootfs valid (k # ks) devs bl =
     (let m = device_or_empty devs k in
      if mget m ''type'' \<noteq> ''disk'' then disk_limit_loop fuel h host rootfs valid ks devs bl
      else
        let m = apply_max m; devs = AList.update k m devs in
        case deviceParseDiskLimit (mget m ''limits.read'') (mget m ''limits.write'') of
          Inl e \<Rightarrow> Some (devs, Inl e)
        | Inr device \<Rightarrow>
           (let source = (if host (mget m ''source'') = [] then rootfs else host (mget m ''source'')) in
            if \<not> h_exists h source then disk_limit_loop fuel h host rootfs valid ks devs bl
            else (case deviceGetParentBlocks fuel h source of
                None \<Rightarrow> None
              | Some (Inl e) \<Rightarrow>
                  if no_limit device then disk_limit_loop fuel h host rootfs valid ks devs bl
                  else Some (devs, Inl e)
              | Some (Inr blocks) \<Rightarrow> (case add_blocks valid device blocks bl of
                    Inl e \<Rightarrow> Some (devs, Inl e)
                  | Inr bl' \<Rightarrow> disk_limit_loop fuel h host rootfs valid ks devs bl'))))"

definition average_field :: "(deviceBlockLimit \<Rightarrow> int) \<Rightarrow> deviceBlockLimit list \<Rightarrow> int" where
  "average_field field limits =
     (case foldl (\<lambda>(n, sum_of) limit.
         if 0 < field limit then (i64 (n + 1), i64 (sum_of + field limit)) else (n, sum_of)) (0, 0) limits
      of (n, sum_of) \<Rightarrow> if 0 < n then sum_of sdiv n else 0)"

definition average_limits :: "deviceBlockLimit list \<Rightarrow> deviceBlockLimit" where
  "average_limits limits =
     \<lparr>readBps = average_field readBps limits, readIops = average_field readIops limits,
      writeBps = average_field writeBps limits, writeIops = average_field writeIops limits\<rparr>"

definition getDiskLimits ::
  "device_sorter \<Rightarrow> nat \<Rightarrow> host_env \<Rightarrow> (string \<Rightarrow> string) \<Rightarrow> string \<Rightarrow> Devices \<Rightarrow>
   (Devices \<times> (host_error + (string, deviceBlockLimit) gomap)) option" where
  "getDiskLimits srt fuel h host rootfs devs = (case h_readdir h ''/sys/class/block/'' of
     None \<Rightarrow> Some (devs, Inl (ReadFailed ''/sys/class/block/''))
   | Some dents \<Rightarrow> (case valid_blocks h dents [] of
       Inl e \<Rightarrow> Some (devs, Inl e)
     | Inr valid \<Rightarrow> (case disk_limit_loop fuel h host rootfs valid (DeviceNames srt devs) devs [] of
         None \<Rightarrow> None
       | Some (devs', Inl e) \<Rightarrow> Some (devs', Inl e)
       | Some (devs', Inr bl) \<Rightarrow> Some (devs', Inr (map (\<lambda>(block, limits). (block, average_limits limits)) bl)))))"

section \<open>Device numbers\<close>

lemma device_masks:
  "(0xfff :: 64 word) = mask 12" "(0xff :: 64 word) = mask 8"
  "(0xfffff000 :: 64 word) = push_bit 12 (mask 20)" "(0xffffff00 :: 64 word) = push_bit 8 (mask 24)"
  by (simp_all add: mask_eq_exp_minus_1 push_bit_eq_mult)

lemma Major_encoded:
  "Major (encoded_device_number (take_bit 12 major) (take_bit 20 minor)) = take_bit 12 major"
  unfolding Major_def encoded_device_number_def device_masks
  by (rule bit_word_eqI) (auto simp: bit_simps)

lemma Minor_encoded:
  "Minor (encoded_device_number (take_bit 12 major) (take_bit 20 minor)) = take_bit 20 minor"
  unfolding Minor_def encoded_device_number_def device_masks
  by (rule bit_word_eqI) (auto simp: bit_simps)

section \<open>CPU sets\<close>

lemma cpu_loop_terminates:
  assumes "- (2 ^ 63) \<le> low" "high < 2 ^ 63 - 1"
  shows "cpu_loop low high cpus = Some (cpus @ [low..high])"
  using assms
proof (induction "nat (high + 1 - low)" arbitrary: low cpus)
  case 0
  then show ?case by (subst cpu_loop.simps) simp
next
  case (Suc n)
  then have le: "low \<le> high" by simp
  have step: "i64 (low + 1) = low + 1" using Suc.prems le by (intro i64_id) (simp add: in_i64_def)
  have "cpu_loop (low + 1) high (cpus @ [low]) = Some ((cpus @ [low]) @ [low + 1..high])"
    using Suc.hyps(2) Suc.prems le by (intro Suc.hyps(1)) auto
  then show ?case using le step by (subst cpu_loop.simps) (simp add: upto_rec1)
qed

lemma cpu_loop_diverges:
  assumes "in_i64 low"
  shows "cpu_loop low (2 ^ 63 - 1) cpus = None"
proof -
  have "in_i64 i \<longrightarrow> h = 2 ^ 63 - 1 \<longrightarrow> False" if "cpu_loop i h c = Some r" for i h c r
    using _ that
  proof (rule cpu_loop.raw_induct [where P = "\<lambda>i h c r. in_i64 i \<longrightarrow> h = 2 ^ 63 - 1 \<longrightarrow> False"])
    fix rec :: "int \<Rightarrow> int \<Rightarrow> int list \<Rightarrow> int list option" and i h c r
    assume IH: "\<And>i h c r. rec i h c = Some r \<Longrightarrow> in_i64 i \<longrightarrow> h = 2 ^ 63 - 1 \<longrightarrow> False"
      and run: "(if i \<le> h then rec (i64 (i + 1)) h (c @ [i]) else Some c) = Some r"
    show "in_i64 i \<longrightarrow> h = 2 ^ 63 - 1 \<longrightarrow> False"
      using IH [of "i64 (i + 1)" h "c @ [i]" r] run i64_in_range [of "i + 1"]
      by (auto simp: in_i64_def split: if_splits)
  qed
  with assms show ?thesis by (metis not_Some_eq)
qed

text \<open>A range of CPU numbers as the kernel prints it.\<close>

definition cpu_chunk :: "int \<times> int \<Rightarrow> string" where
  "cpu_chunk r = (if fst r = snd r then dec_of_int (fst r)
                  else dec_of_int (fst r) @ ''-'' @ dec_of_int (snd r))"

lemma parse_chunk_print:
  assumes "0 \<le> lo" "lo \<le> hi" "hi < 2 ^ 63 - 1"
  shows "parse_chunk cpu (cpu_chunk (lo, hi)) cpus = Some (Inr (cpus @ [lo..hi]))"
proof -
  have lo: "Atoi (dec_of_int lo) = (lo, None)" and hi: "Atoi (dec_of_int hi) = (hi, None)"
    using assms by (simp_all add: Atoi_dec_of_int in_i64_def)
  have nodash: "CHR ''-'' \<notin> set (dec_of_int lo)" "CHR ''-'' \<notin> set (dec_of_int hi)"
    using assms dec_of_nat_not_sep by (auto simp: dec_of_int_def)
  show ?thesis
  proof (cases "lo = hi")
    case True
    with nodash lo show ?thesis by (simp add: parse_chunk_def cpu_chunk_def ContainsChar_def)
  next
    case False
    have "split2 CHR ''-'' (dec_of_int lo @ ''-'' @ dec_of_int hi) = [dec_of_int lo, dec_of_int hi]"
      using nodash by (simp add: split2_append)
    with False lo hi assms show ?thesis
      by (simp add: parse_chunk_def cpu_chunk_def ContainsChar_def cpu_loop_terminates)
  qed
qed

lemma parse_chunks_print:
  assumes "list_all (\<lambda>(lo, hi). 0 \<le> lo \<and> lo \<le> hi \<and> hi < 2 ^ 63 - 1) rs"
  shows "parse_chunks cpu (map cpu_chunk rs) cpus = Some (Inr (cpus @ concat (map (\<lambda>(lo, hi). [lo..hi]) rs)))"
  using assms by (induction rs arbitrary: cpus) (auto simp: parse_chunk_print)

section \<open>Limits\<close>

abbreviation set_limits :: "('a \<Rightarrow> int) \<Rightarrow> 'a list \<Rightarrow> int list" where
  "set_limits field limits \<equiv> filter (\<lambda>v. 0 < v) (map field limits)"

lemma sum_positive_ge_length: "(\<And>v. v \<in> set vs \<Longrightarrow> (0::int) < v) \<Longrightarrow> int (length vs) \<le> sum_list vs"
proof (induction vs)
  case (Cons v vs)
  then have "int (length vs) \<le> sum_list vs" "0 < v" by simp_all
  then show ?case by simp
qed simp

lemma average_fold:
  assumes "0 \<le> n" "n \<le> t" "t + sum_list (set_limits field limits) < 2 ^ 63"
  shows "foldl (\<lambda>(n, t) limit.
      if 0 < field limit then (i64 (n + 1), i64 (t + field limit)) else (n, t)) (n, t) limits =
    (n + int (length (set_limits field limits)), t + sum_list (set_limits field limits))"
  using assms
proof (induction limits arbitrary: n t)
  case (Cons l limits)
  have nonneg: "0 \<le> sum_list (set_limits field limits)"
    using sum_positive_ge_length [of "set_limits field limits"] by fastforce
  show ?case
  proof (cases "0 < field l")
    case True
    then have "i64 (n + 1) = n + 1" "i64 (t + field l) = t + field l"
      using Cons.prems nonneg by (auto intro!: i64_id simp: in_i64_def)
    with True Cons.IH [of "n + 1" "t + field l"] Cons.prems show ?thesis by simp
  next
    case False
    with Cons show ?thesis by simp
  qed
qed simp

lemma average_field_spec:
  assumes "sum_list (set_limits field limits) < 2 ^ 63"
  shows "average_field field limits =
    (if set_limits field limits = [] then 0
     else sum_list (set_limits field limits) div int (length (set_limits field limits)))"
proof -
  have nonneg: "0 \<le> sum_list (set_limits field limits)"
    using sum_positive_ge_length [of "set_limits field limits"] by fastforce
  show ?thesis
    using average_fold [of 0 0 field limits] assms nonneg
    by (auto simp: average_field_def signed_divide_int_def sgn_if)
qed

lemma div_between:
  assumes "vs \<noteq> []" "\<And>v. v \<in> set vs \<Longrightarrow> lo \<le> v \<and> v \<le> (hi :: int)"
  shows "lo \<le> sum_list vs div int (length vs)" "sum_list vs div int (length vs) \<le> hi"
proof -
  have "lo * int (length vs) \<le> sum_list vs \<and> sum_list vs \<le> hi * int (length vs)"
    using assms(2) by (induction vs) (auto simp: algebra_simps add_mono)
  moreover have "0 < int (length vs)" using assms(1) by simp
  ultimately have "lo * int (length vs) div int (length vs) \<le> sum_list vs div int (length vs)"
    "sum_list vs div int (length vs) \<le> hi * int (length vs) div int (length vs)"
    using zdiv_mono1 by blast+
  then show "lo \<le> sum_list vs div int (length vs)" "sum_list vs div int (length vs) \<le> hi"
    using assms(1) by simp_all
qed

section \<open>Properties\<close>

text \<open>
   Finding: a write limit is ignored when no read limit is set.  \<^verbatim>\<open>parseValue\<close> tests
  \<^verbatim>\<open>readSpeed\<close> where it means its argument, so with an empty read speed every write speed,
  well-formed or not, gives no limit and no error.
\<close>

theorem deviceParseDiskLimit_write_ignored:
  "deviceParseDiskLimit [] writeSpeed =
     Inr \<lparr>readBps = 0, readIops = 0, writeBps = 0, writeIops = 0\<rparr>"
  by (simp add: deviceParseDiskLimit_def parse_limit_value_def)

text \<open>
  C31.  The device number that \<^verbatim>\<open>createUnixDevice\<close> passes to \<^verbatim>\<open>mknod\<close> for a 12-bit
  major and a 20-bit minor (the widths of the kernel) is decoded by \<^verbatim>\<open>Major\<close> and
  \<^verbatim>\<open>Minor\<close> to these two numbers.
\<close>

theorem device_number_roundtrip:
  assumes "unat major < 2 ^ 12" "unat minor < 2 ^ 20"
  shows "Major (encoded_device_number major minor) = major \<and>
    Minor (encoded_device_number major minor) = minor"
proof -
  have "unat (take_bit 12 major) = unat major" "unat (take_bit 20 minor) = unat minor"
    using assms by (simp_all add: unsigned_take_bit_eq take_bit_nat_eq_self)
  then have "take_bit 12 major = major" "take_bit 20 minor = minor"
    by (simp_all only: unsigned_word_eqI)
  then show ?thesis
    using Major_encoded [of major minor] Minor_encoded [of major minor] by simp_all
qed

theorem device_number_roundtrip_witness:
  "Major (encoded_device_number 254 1048575) = 254 \<and> Minor (encoded_device_number 254 1048575) = 1048575"
  using device_number_roundtrip [of 254 1048575] by simp

text \<open>
  C32.  \<^verbatim>\<open>parseCpuset\<close> reads back every list of CPU numbers and ranges as the kernel prints
  it: it terminates, without an error, with the numbers of the ranges in order.
\<close>

theorem parseCpuset_roundtrip:
  assumes "rs \<noteq> []" "list_all (\<lambda>(lo, hi). 0 \<le> lo \<and> lo \<le> hi \<and> hi < 2 ^ 63 - 1) rs"
  shows "parseCpuset (join_with '','' (map cpu_chunk rs)) =
    Some (Inr (concat (map (\<lambda>(lo, hi). [lo..hi]) rs)))"
proof -
  have "CHR '','' \<notin> set (cpu_chunk r)" if "r \<in> set rs" for r
    using that assms(2) dec_of_nat_not_sep by (auto simp: cpu_chunk_def dec_of_int_def list_all_iff)
  then have "split_on CHR '','' (join_with '','' (map cpu_chunk rs)) = map cpu_chunk rs"
    using assms(1) by (intro split_on_join) auto
  then show ?thesis using parse_chunks_print [OF assms(2)] by (simp add: parseCpuset_def)
qed

theorem parseCpuset_roundtrip_witness: "parseCpuset ''0-3,7'' = Some (Inr [0, 1, 2, 3, 7])"
proof -
  have "join_with '','' (map cpu_chunk [(0, 3), (7, 7)]) = ''0-3,7''"
    by (simp add: cpu_chunk_def dec_of_int_def dec_of_nat.simps digit_char_lits)
  with parseCpuset_roundtrip [of "[(0, 3), (7, 7)]"] show ?thesis by (simp add: upto_rec1)
qed

text \<open>
   Finding: a CPU range that ends at the largest \<^verbatim>\<open>int\<close> never ends: the counter of the
  loop wraps around, so \<^verbatim>\<open>parseCpuset\<close> does not return.
\<close>

theorem parseCpuset_diverges: "parseCpuset ''0-9223372036854775807'' = None"
proof -
  have "split_on CHR '','' ''0-9223372036854775807'' = [''0-9223372036854775807'']" by simp
  moreover have "split2 CHR ''-'' ''0-9223372036854775807'' = [''0'', ''9223372036854775807'']"
    by (simp add: split2_def)
  moreover have "Atoi ''0'' = (0, None)" "Atoi ''9223372036854775807'' = (2 ^ 63 - 1, None)"
    by (simp_all add: Atoi_def ParseInt_def ParseUint_def digit_val_def Let_def)
  moreover have "cpu_loop 0 (2 ^ 63 - 1) [] = None"
    by (rule cpu_loop_diverges) (simp add: in_i64_def)
  ultimately show ?thesis
    by (simp only: parseCpuset_def parse_chunks.simps parse_chunk_def ContainsChar_def
        list.case prod.case option.case option.map) simp
qed

text \<open>
   When several disks of a container share a block device, each of its four limits is the
  mean of the limits that are set, unset ones (0) not counted, as long as their sum is a 64-bit
  number: it does not depend on the order of the disks and lies between their least and their
  greatest value.
\<close>

theorem average_limits_mean:
  assumes "field \<in> {readBps, readIops, writeBps, writeIops}"
    and "sum_list (set_limits field limits) < 2 ^ 63" "set_limits field limits \<noteq> []"
    and "\<forall>v \<in> set (set_limits field limits). lo \<le> v \<and> v \<le> hi"
    and "mset limits = mset limits'"
  shows "field (average_limits limits) =
      sum_list (set_limits field limits) div int (length (set_limits field limits)) \<and>
    lo \<le> field (average_limits limits) \<and> field (average_limits limits) \<le> hi \<and>
    field (average_limits limits') = field (average_limits limits)"
proof (intro conjI)
  have avg: "field (average_limits l) = average_field field l" for l
    using assms(1) by (auto simp: average_limits_def)
  show mean: "field (average_limits limits) =
      sum_list (set_limits field limits) div int (length (set_limits field limits))"
    using average_field_spec [OF assms(2)] assms(3) avg by simp
  show "lo \<le> field (average_limits limits)" "field (average_limits limits) \<le> hi"
    unfolding mean using div_between [OF assms(3)] assms(4) by blast+
  have perm: "mset (set_limits field limits) = mset (set_limits field limits')"
    using assms(5) by (metis mset_filter mset_map)
  then have "sum_list (set_limits field limits) = sum_list (set_limits field limits')"
    "length (set_limits field limits) = length (set_limits field limits')"
    by (metis sum_mset_sum_list, metis size_mset)
  with average_field_spec assms(2) avg show "field (average_limits limits') = field (average_limits limits)"
    by (metis length_0_conv)
qed

theorem average_limits_mean_witness:
  "readBps (average_limits
     [\<lparr>readBps = 100, readIops = 0, writeBps = 5, writeIops = 0\<rparr>,
      \<lparr>readBps = 0, readIops = 7, writeBps = 5, writeIops = 0\<rparr>,
      \<lparr>readBps = 301, readIops = 0, writeBps = 5, writeIops = 0\<rparr>]) = 200"
  using average_limits_mean [OF _ _ _ _ refl, of readBps
     "[\<lparr>readBps = 100, readIops = 0, writeBps = 5, writeIops = 0\<rparr>,
      \<lparr>readBps = 0, readIops = 7, writeBps = 5, writeIops = 0\<rparr>,
      \<lparr>readBps = 301, readIops = 0, writeBps = 5, writeIops = 0\<rparr>]" 100 301] by simp

end
