(* ===== verification/Container_Config.thy ===== *)
theory Container_Config
  imports Host_Devices Idmap
begin

text \<open>
  Validation of the configuration of containers and profiles: \<^verbatim>\<open>lxd/container.go\<close>, with
  \<^verbatim>\<open>lxcValidConfig\<close>, \<^verbatim>\<open>expandConfig\<close> and \<^verbatim>\<open>expandDevices\<close> of
  \<^verbatim>\<open>lxd/container_lxc.go\<close>.

  A nil map is \<open>None\<close> where the code tests for it.  What the host says of paths is the record
  \<open>host_env\<close>; \<open>lxc21\<close> is \<^verbatim>\<open>lxc.VersionAtLeast(2, 1, 0)\<close> of the go-lxc library.
\<close>

section \<open>Names and paths\<close>

datatype config_error =
    ReservedCharacter
  | NotAHostname
  | BadInteger string
  | BadBoolean string
  | NotOneOf string "string list"
  | BadUint32 string num_error
  | BadAllowance string
  | BadNumberIn num_error
  | BadMemory size_error
  | BadRawLxc string
  | ForbiddenKey string
  | NetworkKey string
  | UnknownKey string
  | VolatileInProfile
  | NoIdAllocation
  | ManyRootDisks
  | NoRootDisk
  | MissingType string
  | InvalidType string
  | InvalidDeviceKey string string
  | MissingNicType
  | BadNicType string
  | MissingParent string
  | SamePath string
  | MissingPath
  | MissingSource
  | RootWithSource
  | SizeNotRoot
  | RecursiveNotBind
  | UnixMissingPath
  | UnixPathMissing
  | BadAttributes host_error
  | IsBlockDevice
  | IsCharDevice
  | ProfileLoad string

definition containerGetParentAndSnapshotName :: "string \<Rightarrow> string \<times> string \<times> bool" where
  "containerGetParentAndSnapshotName name = (case split2 CHR ''/'' name of
     [f0, f1] \<Rightarrow> (f0, f1, True) | _ \<Rightarrow> (name, [], False))"

definition containerPath :: "string \<Rightarrow> string \<Rightarrow> bool \<Rightarrow> string" where
  "containerPath lxd_dir name isSnapshot =
     (if isSnapshot then VarPath lxd_dir [''snapshots'', name] else VarPath lxd_dir [''containers'', name])"

definition containerValidName :: "string \<Rightarrow> config_error option" where
  "containerValidName name =
     (if ContainsChar name CHR ''/'' then Some ReservedCharacter
      else if \<not> ValidHostname name then Some NotAHostname
      else None)"

section \<open>raw.lxc\<close>

definition trim_chars :: "string \<Rightarrow> string \<Rightarrow> string" where
  "trim_chars cs s = rev (dropWhile (\<lambda>c. c \<in> set cs) (rev (dropWhile (\<lambda>c. c \<in> set cs) s)))"

definition lxc_key_check :: "bool \<Rightarrow> string \<Rightarrow> config_error option" where
  "lxc_key_check lxc21 key =
     (if key = ''lxc.logfile'' \<or> key = ''lxc.log.file'' then Some (ForbiddenKey ''lxc.logfile'')
      else if key = ''lxc.syslog'' \<or> key = ''lxc.log.syslog'' then Some (ForbiddenKey ''lxc.syslog'')
      else if key = ''lxc.ephemeral'' then Some (ForbiddenKey ''lxc.ephemeral'')
      else
        let networkKeyPrefix = (if \<not> lxc21 then ''lxc.network.'' else ''lxc.net.'') in
        if HasPrefix key networkKeyPrefix then
          let fields = split_on CHR ''.'' key;
              allowedIPKeys = (if \<not> lxc21 then [''ipv4'', ''ipv6''] else [''ipv4.address'', ''ipv6.address''])
          in if length fields = 4 \<and> StringInSlice (fields ! 3) allowedIPKeys then None
             else if length fields = 5 \<and> StringInSlice (fields ! 3) allowedIPKeys \<and> fields ! 4 = ''gateway'' then None
             else Some (NetworkKey networkKeyPrefix)
        else None)"

definition lxc_line_key :: "string \<Rightarrow> string" where
  "lxc_line_key memb = ToLower (trim_chars [CHR 0x20, CHR 0x09] memb)"

definition lxc_line_check :: "bool \<Rightarrow> string \<Rightarrow> config_error option" where
  "lxc_line_check lxc21 line =
     (if line = [] then None
      else let line = dropWhile (\<lambda>c. c \<in> set [CHR 0x09, CHR 0x20]) line in
        if HasPrefix line ''#'' then None
        else (case split2 CHR ''='' line of
                [m0, _] \<Rightarrow> lxc_key_check lxc21 (lxc_line_key m0)
              | _ \<Rightarrow> Some (BadRawLxc line)))"

definition lxcValidConfig :: "bool \<Rightarrow> string \<Rightarrow> config_error option" where
  "lxcValidConfig lxc21 rawLxc = first_error (lxc_line_check lxc21) (split_on (CHR 0x0A) rawLxc)"

section \<open>Configuration keys\<close>

definition isInt64 :: "string \<Rightarrow> config_error option" where
  "isInt64 value =
     (if value = [] then None
      else (case ParseInt value 10 64 of (_, None) \<Rightarrow> None | (_, Some _) \<Rightarrow> Some (BadInteger value)))"

definition isBool :: "string \<Rightarrow> config_error option" where
  "isBool value =
     (if value = [] then None
      else if \<not> StringInSlice (ToLower value) [''true'', ''false'', ''yes'', ''no'', ''1'', ''0'', ''on'', ''off'']
      then Some (BadBoolean value) else None)"

definition isOneOf :: "string \<Rightarrow> string list \<Rightarrow> config_error option" where
  "isOneOf value valid =
     (if value = [] then None
      else if \<not> StringInSlice value valid then Some (NotOneOf value valid) else None)"

definition isUint32 :: "string \<Rightarrow> config_error option" where
  "isUint32 value =
     (if value = [] then None
      else (case ParseInt value 10 32 of (_, None) \<Rightarrow> None | (_, Some e) \<Rightarrow> Some (BadUint32 value e)))"

definition valid_allowance :: "string \<Rightarrow> config_error option" where
  "valid_allowance value =
     (if value = [] then None
      else if HasSuffix value ''%'' then map_option BadNumberIn (snd (Atoi (TrimSuffix value ''%'')))
      else (case split2 CHR ''/'' value of
          [f0, f1] \<Rightarrow>
            (case snd (Atoi (TrimSuffix f0 ''ms'')) of
               Some e \<Rightarrow> Some (BadNumberIn e)
             | None \<Rightarrow> map_option BadNumberIn (snd (Atoi (TrimSuffix f1 ''ms''))))
        | _ \<Rightarrow> Some (BadAllowance value)))"

definition valid_memory :: "string \<Rightarrow> config_error option" where
  "valid_memory value =
     (if value = [] then None
      else if HasSuffix value ''%'' then map_option BadNumberIn (snd (ParseInt (TrimSuffix value ''%'') 10 64))
      else (case ParseByteSizeString value of Inl e \<Rightarrow> Some (BadMemory e) | Inr _ \<Rightarrow> None))"

text \<open>The switch on the key, in the order of the code.\<close>

definition key_switch :: "bool \<Rightarrow> string \<Rightarrow> string \<Rightarrow> config_error option option" where
  "key_switch lxc21 key value =
     (if key = ''boot.autostart'' then Some (isBool value)
      else if key = ''boot.autostart.delay'' then Some (isInt64 value)
      else if key = ''boot.autostart.priority'' then Some (isInt64 value)
      else if key = ''limits.cpu'' then Some (None)
      else if key = ''limits.cpu.allowance'' then Some (valid_allowance value)
      else if key = ''limits.cpu.priority'' then Some (isInt64 value)
      else if key = ''limits.disk.priority'' then Some (isInt64 value)
      else if key = ''limits.memory'' then Some (valid_memory value)
      else if key = ''limits.memory.enforce'' then Some (isOneOf value [''soft'', ''hard''])
      else if key = ''limits.memory.swap'' then Some (isBool value)
      else if key = ''limits.memory.swap.priority'' then Some (isInt64 value)
      else if key = ''limits.network.priority'' then Some (isInt64 value)
      else if key = ''limits.processes'' then Some (isInt64 value)
      else if key = ''linux.kernel_modules'' then Some (None)
      else if key = ''security.privileged'' then Some (isBool value)
      else if key = ''security.nesting'' then Some (isBool value)
      else if key = ''security.idmap.base'' then Some (isUint32 value)
      else if key = ''security.idmap.size'' then Some (isUint32 value)
      else if key = ''security.idmap.isolated'' then Some (isBool value)
      else if key = ''raw.apparmor'' then Some (None)
      else if key = ''raw.idmap'' then Some (None)
      else if key = ''raw.lxc'' then Some (lxcValidConfig lxc21 value)
      else if key = ''volatile.apply_template'' then Some (None)
      else if key = ''volatile.base_image'' then Some (None)
      else if key = ''volatile.last_state.idmap'' then Some (None)
      else if key = ''volatile.last_state.power'' then Some (None)
      else if key = ''volatile.idmap.next'' then Some (None)
      else if key = ''volatile.idmap.base'' then Some (None)
      else None)"

definition containerValidConfigKey :: "bool \<Rightarrow> string \<Rightarrow> string \<Rightarrow> config_error option" where
  "containerValidConfigKey lxc21 key value = (case key_switch lxc21 key value of
     Some r \<Rightarrow> r
   | None \<Rightarrow>
       if HasPrefix key ''volatile.'' \<and>
          (HasSuffix key ''.hwaddr'' \<or> HasSuffix key ''.name'' \<or> HasSuffix key ''.host_name'') then None
       else if HasPrefix key ''environment.'' then None
       else if HasPrefix key ''user.'' then None
       else Some (UnknownKey key))"

definition containerValidConfig ::
  "bool \<Rightarrow> IdmapSet option \<Rightarrow> strmap option \<Rightarrow> bool \<Rightarrow> bool \<Rightarrow> config_error option" where
  "containerValidConfig lxc21 os_idmap config profile expanded = (case config of
     None \<Rightarrow> None
   | Some cfg \<Rightarrow>
      (case first_error (\<lambda>(k, v).
          if profile \<and> HasPrefix k ''volatile.'' then Some VolatileInProfile
          else containerValidConfigKey lxc21 k v) cfg of
         Some e \<Rightarrow> Some e
       | None \<Rightarrow>
          if expanded \<and> (mget cfg ''security.privileged'' = [] \<or> \<not> IsTrue (mget cfg ''security.privileged'')) \<and>
             os_idmap = None
          then Some NoIdAllocation else None))"

section \<open>Devices\<close>

definition containerNetworkLimitKeys :: "string list" where
  "containerNetworkLimitKeys = [''limits.max'', ''limits.ingress'', ''limits.egress'']"

definition containerValidDeviceConfigKey :: "string \<Rightarrow> string \<Rightarrow> bool" where
  "containerValidDeviceConfigKey t k =
     (if k = ''type'' then True
      else if t = ''unix-char'' \<or> t = ''unix-block'' then
        k \<in> set [''gid'', ''major'', ''minor'', ''mode'', ''path'', ''uid'']
      else if t = ''nic'' then
        k \<in> set [''limits.max'', ''limits.ingress'', ''limits.egress'', ''host_name'', ''hwaddr'', ''mtu'', ''name'',
                 ''nictype'', ''parent'']
      else if t = ''disk'' then
        k \<in> set [''limits.max'', ''limits.read'', ''limits.write'', ''optional'', ''path'', ''readonly'', ''size'',
                 ''source'', ''recursive'']
      else False)"

definition isRootDiskDevice :: "Device \<Rightarrow> bool" where
  "isRootDiskDevice device \<longleftrightarrow>
     mget device ''type'' = ''disk'' \<and> mget device ''path'' = ''/'' \<and> mget device ''source'' = []"

fun root_disk_loop :: "Devices \<Rightarrow> string \<Rightarrow> Device \<Rightarrow> config_error + (string \<times> Device)" where
  "root_disk_loop [] devName dev = (if devName \<noteq> [] then Inr (devName, dev) else Inl NoRootDisk)"
| "root_disk_loop ((n, d) # rest) devName dev =
     (if isRootDiskDevice d then
        (if devName \<noteq> [] then Inl ManyRootDisks else root_disk_loop rest n d)
      else root_disk_loop rest devName dev)"

definition containerGetRootDiskDevice :: "Devices \<Rightarrow> config_error + (string \<times> Device)" where
  "containerGetRootDiskDevice devices = root_disk_loop devices [] []"

definition check_nic :: "Device \<Rightarrow> config_error option" where
  "check_nic m =
     (if mget m ''nictype'' = [] then Some MissingNicType
      else if \<not> StringInSlice (mget m ''nictype'') [''bridged'', ''physical'', ''p2p'', ''macvlan'']
      then Some (BadNicType (mget m ''nictype''))
      else if StringInSlice (mget m ''nictype'') [''bridged'', ''physical'', ''macvlan''] \<and> mget m ''parent'' = []
      then Some (MissingParent (mget m ''nictype''))
      else None)"

definition check_disk :: "host_env \<Rightarrow> Device \<Rightarrow> config_error option" where
  "check_disk h m =
     (if mget m ''path'' = [] then Some MissingPath
      else if mget m ''source'' = [] \<and> mget m ''path'' \<noteq> ''/'' then Some MissingSource
      else if mget m ''path'' = ''/'' \<and> mget m ''source'' \<noteq> [] then Some RootWithSource
      else if mget m ''size'' \<noteq> [] \<and> mget m ''path'' \<noteq> ''/'' then Some SizeNotRoot
      else if (mget m ''path'' = ''/'' \<or> \<not> h_isdir h (mget m ''source'')) \<and> mget m ''recursive'' \<noteq> []
      then Some RecursiveNotBind
      else None)"

definition check_unix :: "host_env \<Rightarrow> Device \<Rightarrow> config_error option" where
  "check_unix h m =
     (if mget m ''path'' = [] then Some UnixMissingPath
      else if mget m ''major'' = [] \<or> mget m ''minor'' = [] then
        (if \<not> h_exists h (mget m ''path'') then Some UnixPathMissing
         else (case deviceGetAttributes h (mget m ''path'') of
            Inl e \<Rightarrow> Some (BadAttributes e)
          | Inr (dType, _, _) \<Rightarrow>
              if mget m ''type'' = ''unix-char'' \<and> dType \<noteq> ''c'' then Some IsBlockDevice
              else if mget m ''type'' = ''unix-block'' \<and> dType \<noteq> ''b'' then Some IsCharDevice
              else None))
      else None)"

text \<open>
  One device; \<open>paths\<close> are the disk paths seen so far, which the loop collects for a list that
  is not expanded.  The result is the error or the new list of paths.
\<close>

definition check_device :: "host_env \<Rightarrow> bool \<Rightarrow> string list \<Rightarrow> string \<Rightarrow> Device \<Rightarrow> config_error + string list" where
  "check_device h expanded paths name m =
     (let keep = (\<lambda>r. (case r of Some e \<Rightarrow> Inl e | None \<Rightarrow> Inr paths)) in
      if mget m ''type'' = [] then Inl (MissingType name)
      else if \<not> StringInSlice (mget m ''type'') [''none'', ''nic'', ''disk'', ''unix-char'', ''unix-block'']
      then Inl (InvalidType name)
      else (case find (\<lambda>k. \<not> containerValidDeviceConfigKey (mget m ''type'') k) (keys_of m) of
          Some k \<Rightarrow> Inl (InvalidDeviceKey (mget m ''type'') k)
        | None \<Rightarrow>
            if mget m ''type'' = ''nic'' then keep (check_nic m)
            else if mget m ''type'' = ''disk'' then
              (if \<not> expanded \<and> StringInSlice (mget m ''path'') paths then Inl (SamePath (mget m ''path''))
               else (case check_disk h m of
                       Some e \<Rightarrow> Inl e
                     | None \<Rightarrow> Inr (if \<not> expanded then paths @ [mget m ''path''] else paths)))
            else if StringInSlice (mget m ''type'') [''unix-char'', ''unix-block''] then keep (check_unix h m)
            else if mget m ''type'' = ''none'' then Inr paths
            else Inl (InvalidType (mget m ''type''))))"

fun check_devices :: "host_env \<Rightarrow> bool \<Rightarrow> string list \<Rightarrow> Devices \<Rightarrow> config_error option" where
  "check_devices h expanded paths [] = None"
| "check_devices h expanded paths ((name, m) # rest) = (case check_device h expanded paths name m of
     Inl e \<Rightarrow> Some e
   | Inr paths' \<Rightarrow> check_devices h expanded paths' rest)"

definition containerValidDevices :: "host_env \<Rightarrow> Devices option \<Rightarrow> bool \<Rightarrow> bool \<Rightarrow> config_error option" where
  "containerValidDevices h devices profile expanded = (case devices of
     None \<Rightarrow> None
   | Some devs \<Rightarrow>
      (case check_devices h expanded [] devs of
         Some e \<Rightarrow> Some e
       | None \<Rightarrow> if expanded
                 then (case containerGetRootDiskDevice devs of Inl e \<Rightarrow> Some e | Inr _ \<Rightarrow> None)
                 else None))"

section \<open>Profiles\<close>

text \<open>\<^verbatim>\<open>for k, v := range m { dst[k] = v }\<close>, and the application of the profiles in order.\<close>

definition assign_all :: "('k, 'v) gomap \<Rightarrow> ('k, 'v) gomap \<Rightarrow> ('k, 'v) gomap" where
  "assign_all dst m = foldl (\<lambda>acc (k, v). AList.update k v acc) dst m"

fun apply_profiles :: "(string \<Rightarrow> ('k, 'v) gomap option) \<Rightarrow> string list \<Rightarrow> ('k, 'v) gomap \<Rightarrow>
    config_error + ('k, 'v) gomap" where
  "apply_profiles load [] acc = Inr acc"
| "apply_profiles load (p # ps) acc = (case load p of
     None \<Rightarrow> Inl (ProfileLoad p)
   | Some m \<Rightarrow> apply_profiles load ps (assign_all acc m))"

definition expandConfig :: "(string \<Rightarrow> strmap option) \<Rightarrow> string list \<Rightarrow> strmap \<Rightarrow> config_error + strmap" where
  "expandConfig load profiles localConfig = (case apply_profiles load profiles [] of
     Inl e \<Rightarrow> Inl e | Inr config \<Rightarrow> Inr (assign_all config localConfig))"

definition expandDevices :: "(string \<Rightarrow> Devices option) \<Rightarrow> string list \<Rightarrow> Devices \<Rightarrow> config_error + Devices" where
  "expandDevices load profiles localDevices = (case apply_profiles load profiles [] of
     Inl e \<Rightarrow> Inl e | Inr devices \<Rightarrow> Inr (assign_all devices localDevices))"

section \<open>Lemmas on the device checks\<close>

text \<open>What one device must satisfy, whatever the other devices are.\<close>

definition device_ok :: "host_env \<Rightarrow> Device \<Rightarrow> bool" where
  "device_ok h m \<longleftrightarrow>
     mget m ''type'' \<in> {''none'', ''nic'', ''disk'', ''unix-char'', ''unix-block''} \<and>
     (\<forall>k \<in> set (keys_of m). containerValidDeviceConfigKey (mget m ''type'') k) \<and>
     (mget m ''type'' = ''nic'' \<longrightarrow> check_nic m = None) \<and>
     (mget m ''type'' = ''disk'' \<longrightarrow> check_disk h m = None) \<and>
     (mget m ''type'' \<in> {''unix-char'', ''unix-block''} \<longrightarrow> check_unix h m = None)"

definition disk_paths :: "Devices \<Rightarrow> string list" where
  "disk_paths devs = map (\<lambda>d. mget (snd d) ''path'') (filter (\<lambda>d. mget (snd d) ''type'' = ''disk'') devs)"

definition root_disks :: "Devices \<Rightarrow> Devices" where
  "root_disks devs = filter (\<lambda>d. isRootDiskDevice (snd d)) devs"

lemma find_key_None: "find (\<lambda>k. \<not> P k) ks = None \<longleftrightarrow> (\<forall>k \<in> set ks. P k)"
  by (induction ks) auto

lemma check_device_Inr:
  "check_device h expanded paths name m = Inr paths' \<longleftrightarrow>
     device_ok h m \<and>
     (if mget m ''type'' = ''disk'' \<and> \<not> expanded
      then mget m ''path'' \<notin> set paths \<and> paths' = paths @ [mget m ''path'']
      else paths' = paths)"
proof (cases "find (\<lambda>k. \<not> containerValidDeviceConfigKey (mget m ''type'') k) (keys_of m)")
  case None
  then have keys: "\<forall>k \<in> set (keys_of m). containerValidDeviceConfigKey (mget m ''type'') k"
    by (simp only: find_key_None)
  consider "mget m ''type'' = ''none''" | "mget m ''type'' = ''nic''" | "mget m ''type'' = ''disk''"
    | "mget m ''type'' = ''unix-char''" | "mget m ''type'' = ''unix-block''"
    | "mget m ''type'' \<notin> {''none'', ''nic'', ''disk'', ''unix-char'', ''unix-block''}" by blast
  then show ?thesis
    by cases (use None keys in \<open>auto simp: check_device_def device_ok_def Let_def split: option.splits\<close>)
next
  case (Some k)
  then have "\<not> (\<forall>k \<in> set (keys_of m). containerValidDeviceConfigKey (mget m ''type'') k)"
    using find_SomeD by fastforce
  then have "\<not> device_ok h m" unfolding device_ok_def by blast
  moreover have "check_device h expanded paths name m \<noteq> Inr paths'"
    unfolding check_device_def Let_def Some by simp
  ultimately show ?thesis by blast
qed

lemma check_devices_None:
  "check_devices h expanded paths devs = None \<longleftrightarrow>
     (\<forall>d \<in> set devs. device_ok h (snd d)) \<and>
     (\<not> expanded \<longrightarrow> distinct (disk_paths devs) \<and> set (disk_paths devs) \<inter> set paths = {})"
proof (induction devs arbitrary: paths)
  case (Cons d devs)
  obtain name m where d: "d = (name, m)" by (cases d)
  show ?case
  proof (cases "check_device h expanded paths name m")
    case (Inl e)
    then have "\<And>p. check_device h expanded paths name m \<noteq> Inr p" by simp
    then have bad: "\<not> (device_ok h m \<and> \<not> (mget m ''type'' = ''disk'' \<and> \<not> expanded \<and> mget m ''path'' \<in> set paths))"
      unfolding check_device_Inr by metis
    show ?thesis using bad by (auto simp: d Inl disk_paths_def)
  next
    case (Inr p)
    then have eq: "check_devices h expanded paths (d # devs) = check_devices h expanded p devs"
      by (simp add: d)
    show ?thesis
      unfolding eq Cons.IH using Inr [unfolded check_device_Inr]
      by (auto simp: d disk_paths_def split: if_splits)
  qed
qed (simp add: disk_paths_def)

lemma root_disk_loop_spec:
  assumes "\<forall>d \<in> set devs. fst d \<noteq> []"
  shows "root_disk_loop devs devName dev =
    (if devName = [] then
       (case root_disks devs of [] \<Rightarrow> Inl NoRootDisk | [r] \<Rightarrow> Inr r | _ \<Rightarrow> Inl ManyRootDisks)
     else if root_disks devs = [] then Inr (devName, dev) else Inl ManyRootDisks)"
  using assms
proof (induction devs devName dev rule: root_disk_loop.induct)
  case (2 n d rest devName dev)
  then show ?case by (auto simp: root_disks_def split: list.splits)
qed (simp add: root_disks_def)

lemma containerValidDevices_None:
  assumes "\<forall>d \<in> set devs. fst d \<noteq> []"
  shows "containerValidDevices h (Some devs) profile expanded = None \<longleftrightarrow>
    (\<forall>d \<in> set devs. device_ok h (snd d)) \<and>
    (if expanded then length (root_disks devs) = 1 else distinct (disk_paths devs))"
proof -
  have "containerGetRootDiskDevice devs =
      (case root_disks devs of [] \<Rightarrow> Inl NoRootDisk | [r] \<Rightarrow> Inr r | _ \<Rightarrow> Inl ManyRootDisks)"
    using root_disk_loop_spec [OF assms, of "[]" "[]"] by (simp add: containerGetRootDiskDevice_def)
  then have "(case containerGetRootDiskDevice devs of Inl e \<Rightarrow> Some e | Inr _ \<Rightarrow> None) = None \<longleftrightarrow>
      length (root_disks devs) = 1"
    by (auto split: list.splits)
  then show ?thesis
    using check_devices_None [of h expanded "[]" devs]
    by (cases "check_devices h expanded [] devs"; cases expanded)
      (simp_all add: containerValidDevices_def)
qed

section \<open>Lemmas on profiles\<close>

lemma map_of_assign_all:
  "gomap_ok m \<Longrightarrow> map_of (assign_all dst m) k = (case map_of m k of Some v \<Rightarrow> Some v | None \<Rightarrow> map_of dst k)"
  unfolding assign_all_def
proof (induction m arbitrary: dst)
  case (Cons b m)
  obtain a v where b: "b = (a, v)" by (cases b)
  then have "map_of m a = None" using Cons.prems by (simp add: map_of_eq_None_iff)
  with b Cons.prems Cons.IH [of "AList.update a v dst"] show ?case
    by (auto simp: update_conv' split: option.splits)
qed simp

text \<open>The value of the last profile that has the key.\<close>

fun last_profile :: "(string \<Rightarrow> ('k, 'v) gomap option) \<Rightarrow> string list \<Rightarrow> 'k \<Rightarrow> 'v option" where
  "last_profile load [] k = None"
| "last_profile load (p # ps) k = (case last_profile load ps k of
     Some v \<Rightarrow> Some v
   | None \<Rightarrow> (case load p of None \<Rightarrow> None | Some m \<Rightarrow> map_of m k))"

lemma apply_profiles_spec:
  assumes "apply_profiles load ps acc = Inr m" "\<And>p m. load p = Some m \<Longrightarrow> gomap_ok m"
  shows "map_of m k = (case last_profile load ps k of Some v \<Rightarrow> Some v | None \<Rightarrow> map_of acc k)"
  using assms
proof (induction ps arbitrary: acc)
  case (Cons p ps)
  from Cons.prems(1) obtain pm where pm: "load p = Some pm" "apply_profiles load ps (assign_all acc pm) = Inr m"
    by (auto split: option.splits)
  from Cons.IH [OF pm(2) Cons.prems(2)] Cons.prems(2) [OF pm(1)] show ?case
    by (simp add: pm(1) map_of_assign_all split: option.splits)
qed simp

section \<open>Paths\<close>

lemma split_on_snoc: "c \<notin> set b \<Longrightarrow> split_on c (a @ c # b) = split_on c a @ [b]"
proof (induction a)
  case Nil
  have "split_on c b = [b]" using split_on_join [of "[b]" c] Nil by simp
  then show ?case by simp
next
  case (Cons x a)
  obtain g gs where "split_on c a = g # gs" by (cases "split_on c a") auto
  with Cons show ?case by simp
qed

lemma join_with_snoc: "join_with sep (xs @ [x]) = (if xs = [] then x else join_with sep xs @ sep @ x)"
  by (induction sep xs rule: join_with.induct) auto

lemma clean_segments:
  assumes "[] \<notin> set st"
  shows "[] \<notin> set (foldl (clean_step r) st segs)"
proof -
  have "[] \<notin> set (clean_step r st seg)" if "[] \<notin> set st" for st seg
    using that by (auto dest: in_set_butlastD)
  with assms show ?thesis by (induction segs arbitrary: st) (simp_all del: clean_step.simps)
qed

text \<open>A plain segment is kept at the end of a cleaned path.\<close>

definition plain :: "string \<Rightarrow> bool" where
  "plain name \<longleftrightarrow> CHR ''/'' \<notin> set name \<and> name \<noteq> [] \<and> name \<noteq> ''.'' \<and> name \<noteq> ''..''"

definition clean_stack :: "string \<Rightarrow> string list" where
  "clean_stack path = foldl (clean_step (hd path = CHR ''/'')) [] (split_on CHR ''/'' path)"

lemma clean_stack_snoc:
  "plain name \<Longrightarrow> base \<noteq> [] \<Longrightarrow> clean_stack (base @ CHR ''/'' # name) = clean_stack base @ [name]"
  by (simp add: clean_stack_def split_on_snoc plain_def)

lemma Clean_stack:
  "Clean path =
     (if path = [] then ''.''
      else if hd path = CHR ''/'' then CHR ''/'' # join_with ''/'' (clean_stack path)
      else if join_with ''/'' (clean_stack path) = [] then ''.''
      else join_with ''/'' (clean_stack path))"
  by (cases "hd path = CHR ''/''") (simp_all only: Clean_def clean_stack_def Let_def if_True if_False)

lemma Clean_snoc:
  assumes "plain name" "base \<noteq> []" "clean_stack base \<noteq> []"
  shows "Clean (base @ CHR ''/'' # name) = Clean base @ CHR ''/'' # name"
proof -
  have "[] \<notin> set (clean_stack base)" unfolding clean_stack_def by (rule clean_segments) simp
  then have "join_with ''/'' (clean_stack base) \<noteq> []"
    using assms(3) by (cases "clean_stack base" rule: rev_cases) (auto simp: join_with_snoc)
  then show ?thesis
    using assms(2,3) clean_stack_snoc [OF assms(1,2)] by (simp add: Clean_stack join_with_snoc)
qed

section \<open>Properties\<close>

text \<open>
  C18.  The validation of a device list without an empty device name does not depend on the order in
  which Go visits the map: for a list \<open>devs'\<close> in any order it succeeds exactly when every device is
  valid by itself and the disks have different paths or, for an expanded list, there is exactly one
  root disk, which is then the one returned.  With an empty name the order decides
  (\<open>empty_name_order\<close>).
\<close>

theorem containerValidDevices_iff:
  assumes "\<forall>d \<in> set devs. fst d \<noteq> []" "mset devs = mset devs'"
  shows "containerValidDevices h (Some devs') profile expanded = None \<longleftrightarrow>
    (\<forall>d \<in> set devs. device_ok h (snd d)) \<and>
    (if expanded then \<exists>r. root_disks devs = [r] \<and> containerGetRootDiskDevice devs' = Inr r
     else distinct (disk_paths devs))"
proof -
  have set: "set devs' = set devs" using assms(2) by (metis mset_eq_setD)
  then have ne: "\<forall>d \<in> set devs'. fst d \<noteq> []" using assms(1) by simp
  have paths: "mset (disk_paths devs') = mset (disk_paths devs)"
    by (simp add: disk_paths_def assms(2))
  have roots: "mset (root_disks devs') = mset (root_disks devs)"
    unfolding root_disks_def by (simp add: assms(2))
  have root: "containerGetRootDiskDevice devs' =
      (case root_disks devs' of [] \<Rightarrow> Inl NoRootDisk | [r] \<Rightarrow> Inr r | _ \<Rightarrow> Inl ManyRootDisks)"
    using root_disk_loop_spec [OF ne, of "[]" "[]"] by (simp add: containerGetRootDiskDevice_def)
  have "length (root_disks devs') = 1 \<longleftrightarrow>
      (\<exists>r. root_disks devs = [r] \<and> containerGetRootDiskDevice devs' = Inr r)"
  proof
    assume "length (root_disks devs') = 1"
    then obtain r where r: "root_disks devs' = [r]" by (auto simp: length_Suc_conv)
    then have "root_disks devs = [r]" using roots by (simp add: mset_single_iff_right)
    with r root show "\<exists>r. root_disks devs = [r] \<and> containerGetRootDiskDevice devs' = Inr r" by simp
  next
    assume "\<exists>r. root_disks devs = [r] \<and> containerGetRootDiskDevice devs' = Inr r"
    then show "length (root_disks devs') = 1" using mset_eq_length [OF roots] by auto
  qed
  then show ?thesis
    using containerValidDevices_None [OF ne, of h profile expanded] set mset_eq_imp_distinct_iff [OF paths]
    by simp
qed

text \<open>
  The search for the root disk takes the empty name for none: of two root disks, one of which has the empty name, the other
  one is found or two are reported.
\<close>

lemma empty_name_order:
  assumes "isRootDiskDevice d"
  shows "containerGetRootDiskDevice [([], d), (''r'', d)] = Inr (''r'', d)
    \<and> containerGetRootDiskDevice [(''r'', d), ([], d)] = Inl ManyRootDisks"
  using assms by (simp add: containerGetRootDiskDevice_def)

theorem containerValidDevices_iff_witness:
  "\<exists>r. containerGetRootDiskDevice
     [(''eth0'', [(''type'', ''nic''), (''nictype'', ''p2p'')]), (''root'', [(''path'', ''/''), (''type'', ''disk'')])] = Inr r \<and>
     r = (''root'', [(''path'', ''/''), (''type'', ''disk'')])"
proof -
  let ?r = "(''root'', [(''path'', ''/''), (''type'', ''disk'')]) :: string \<times> Device"
  let ?e = "(''eth0'', [(''type'', ''nic''), (''nictype'', ''p2p'')]) :: string \<times> Device"
  have valid: "containerValidDevices h (Some [?e, ?r]) False True = None" for h
    by (simp add: containerValidDevices_def containerGetRootDiskDevice_def isRootDiskDevice_def
        check_device_def check_nic_def check_disk_def containerValidDeviceConfigKey_def)
  have "root_disks [?r, ?e] = [?r]" by (simp add: root_disks_def isRootDiskDevice_def)
  with containerValidDevices_iff [of "[?r, ?e]" "[?e, ?r]" _ False True] valid show ?thesis by auto
qed

text \<open>
  C33.  The path of a container with a valid name is the directory of that name directly under
  \<^verbatim>\<open>containers\<close>: a valid name cannot lead out of it.
\<close>

theorem containerPath_contained:
  assumes "containerValidName name = None"
  shows "containerPath lxd_dir name False = VarPath lxd_dir [''containers''] @ ''/'' @ name"
proof -
  have host: "ValidHostname name" and slash: "CHR ''/'' \<notin> set name"
    using assms by (auto simp: containerValidName_def ContainsChar_def split: if_splits)
  have "name \<noteq> []" "list_all is_hostname_char name" using host by (auto simp: ValidHostname_def split: if_splits)
  moreover have "\<not> is_hostname_char CHR ''.''" by (simp add: is_hostname_char_def)
  ultimately have plain: "plain name" using slash by (auto simp: plain_def)
  let ?base = "(if lxd_dir = [] then ''/var/lib/lxd'' else lxd_dir)"
  have base: "?base \<noteq> []" by simp
  have "plain ''containers''" by (simp add: plain_def)
  then have "clean_stack (?base @ CHR ''/'' # ''containers'') \<noteq> []"
    using clean_stack_snoc [OF _ base] by simp
  from Clean_snoc [OF plain _ this] show ?thesis
    using \<open>name \<noteq> []\<close> base by (simp add: containerPath_def VarPath_def JoinPath_def Let_def)
qed

theorem containerPath_contained_witness: "containerPath [] ''web-1'' False = ''/var/lib/lxd/containers/web-1''"
proof -
  have "containerValidName ''web-1'' = None"
    by (simp add: containerValidName_def ContainsChar_def ValidHostname_def HasPrefix_def HasSuffix_def
        is_hostname_char_def Atoi_def ParseInt_def ParseUint_def digit_val_def Let_def)
  moreover have "VarPath [] [''containers''] = ''/var/lib/lxd/containers''"
    by (simp add: VarPath_def JoinPath_def Clean_def Let_def)
  ultimately show ?thesis using containerPath_contained [of "''web-1''" "[]"] by simp
qed

text \<open>
   Values that the validation of \<^verbatim>\<open>limits.cpu.allowance\<close> and
  \<^verbatim>\<open>limits.cpu.priority\<close> accepts are always understood by \<^verbatim>\<open>deviceParseCPU\<close> when the
  limits are applied.
\<close>

theorem valid_cpu_limits_parse:
  assumes "containerValidConfigKey lxc21 ''limits.cpu.allowance'' allowance = None"
    and "containerValidConfigKey lxc21 ''limits.cpu.priority'' priority = None"
  shows "\<exists>shares quota period. deviceParseCPU allowance priority = Inr (shares, quota, period)"
proof -
  have a: "valid_allowance allowance = None" and p: "isInt64 priority = None"
    using assms by (simp_all add: containerValidConfigKey_def key_switch_def)
  from p obtain prio where prio: "cpu_priority priority = Inr prio"
    by (auto simp: isInt64_def cpu_priority_def Atoi_def split: if_splits prod.splits option.splits)
  have "\<exists>r. cpu_allowance sh allowance = Inr r" for sh
  proof (cases "allowance = [] \<or> HasSuffix allowance ''%''")
    case True
    with a show ?thesis
      by (auto simp: valid_allowance_def cpu_allowance_def split: if_splits prod.splits option.splits)
  next
    case False
    with a obtain f0 f1 where f: "split2 CHR ''/'' allowance = [f0, f1]"
      by (auto simp: valid_allowance_def split: list.splits)
    with a False have "snd (Atoi (TrimSuffix f0 ''ms'')) = None" "snd (Atoi (TrimSuffix f1 ''ms'')) = None"
      by (auto simp: valid_allowance_def split: option.splits)
    with f False show ?thesis
      by (auto simp: cpu_allowance_def split: prod.splits option.splits)
  qed
  from this [of "i64 (0 - i64 (10 - prio))"] prio show ?thesis
    by (auto simp: deviceParseCPU_def)
qed

theorem valid_cpu_limits_parse_witness:
  "\<exists>shares quota period. deviceParseCPU ''25ms/100ms'' ''5'' = Inr (shares, quota, period)"
proof (rule valid_cpu_limits_parse [of True])
  have at: "Atoi ''25'' = (25, None)" "Atoi ''100'' = (100, None)" "ParseInt ''5'' 10 64 = (5, None)"
    by (simp_all add: Atoi_def ParseInt_def ParseUint_def digit_val_def Let_def)
  show "containerValidConfigKey True ''limits.cpu.allowance'' ''25ms/100ms'' = None"
    by (simp add: containerValidConfigKey_def key_switch_def valid_allowance_def split2_def
        HasSuffix_def TrimSuffix_def at)
  show "containerValidConfigKey True ''limits.cpu.priority'' ''5'' = None"
    by (simp add: containerValidConfigKey_def key_switch_def isInt64_def at)
qed






text \<open>
   Finding: the check for a 32-bit unsigned number parses a signed one: a negative
  \<^verbatim>\<open>security.idmap.base\<close> is accepted and one from 2147483648 on is refused.
\<close>

theorem isUint32_signed:
  "containerValidConfigKey lxc21 ''security.idmap.base'' ''-1'' = None \<and>
   containerValidConfigKey lxc21 ''security.idmap.base'' ''2147483648'' =
     Some (BadUint32 ''2147483648'' ErrRange)"
  by (simp add: containerValidConfigKey_def key_switch_def isUint32_def
      ParseInt_def ParseUint_def digit_val_def Let_def)

lemma apply_profiles_error:
  "apply_profiles load ps acc = Inl e \<Longrightarrow> \<exists>p \<in> set ps. load p = None \<and> e = ProfileLoad p"
  by (induction load ps acc rule: apply_profiles.induct) (auto split: option.splits)

text \<open>
  C35. The expansion of the configuration fails only when a profile cannot be loaded.  Otherwise the expanded configuration has, for
  every key, the local value, or else the one of the last profile that has the key, whatever the order of the keys in the maps.
\<close>

theorem expandConfig_lookup:
  assumes "gomap_ok local" "\<And>p m. load p = Some m \<Longrightarrow> gomap_ok m"
  shows "case expandConfig load profiles local of
      Inl e \<Rightarrow> (\<exists>p \<in> set profiles. load p = None \<and> e = ProfileLoad p)
    | Inr config \<Rightarrow> (\<forall>k. map_of config k =
        (case map_of local k of Some v \<Rightarrow> Some v | None \<Rightarrow> last_profile load profiles k))"
proof (cases "apply_profiles load profiles []")
  case (Inl e)
  with apply_profiles_error [OF Inl] show ?thesis by (simp add: expandConfig_def)
next
  case (Inr m)
  from apply_profiles_spec [OF Inr assms(2)] map_of_assign_all [OF assms(1), where dst = m] Inr show ?thesis
    by (simp add: expandConfig_def split: option.splits)
qed

theorem expandConfig_lookup_witness:
  "\<exists>config. expandConfig (\<lambda>p. if p = ''a'' then Some [(''x'', ''1''), (''y'', ''1'')] else Some [(''x'', ''2'')])
      [''a'', ''b''] [(''z'', ''3'')] = Inr config \<and>
    map_of config ''x'' = Some ''2'' \<and> map_of config ''y'' = Some ''1'' \<and> map_of config ''z'' = Some ''3''"
proof -
  let ?load = "\<lambda>p. if p = ''a'' then Some [(''x'', ''1''), (''y'', ''1'')] else Some [(''x'', ''2'')]"
  obtain config where c: "expandConfig ?load [''a'', ''b''] [(''z'', ''3'')] = Inr config"
    by (simp add: expandConfig_def)
  have "case expandConfig ?load [''a'', ''b''] [(''z'', ''3'')] of
      Inl e \<Rightarrow> (\<exists>p \<in> set [''a'', ''b'']. ?load p = None \<and> e = ProfileLoad p)
    | Inr config \<Rightarrow> (\<forall>k. map_of config k = (case map_of [(''z'', ''3'')] k of Some v \<Rightarrow> Some v
        | None \<Rightarrow> last_profile ?load [''a'', ''b''] k))"
    by (rule expandConfig_lookup) (auto split: if_splits)
  with c show ?thesis by simp
qed

end
