(* ===== verification/Cpu_Balance.thy ===== *)
theory Cpu_Balance
  imports Host_Devices
begin

text \<open>
  The scheduler of \<^verbatim>\<open>lxd/devices.go\<close>: the pinning of the running containers to the CPUs of
  the host (\<^verbatim>\<open>deviceTaskBalance\<close>), the network priorities (\<^verbatim>\<open>deviceNetworkPriority\<close>) and
  the dispatch of the kernel and internal events that start them.

  The functions return nothing and act through the control groups: a model function returns the
  list of the writes it makes.  \<open>None\<close> is a run that does not end (see \<open>cpu_loop\<close>).  The
  orders in which Go visits the four maps of the function are the permutations of the record
  \<open>range_orders\<close>; containers, map keys by pointer in the code, are known by their unique
  names.
\<close>

record balance_ct =
  ct_config :: strmap
  ct_running :: bool

record balance_env =
  cgCpusetController :: bool
  effective_cpus :: "string option"
  root_cpus :: "string option"
  isolated_exists :: bool
  isolated_file :: "string option"
  containers_list :: "string list option"
  container_load :: "string \<Rightarrow> balance_ct option"
  still_running :: "string \<Rightarrow> bool"

datatype cg_write = SetRoot string | SetContainer string string

type_synonym fixed_map = "(int, string list) gomap"
type_synonym balanced_map = "(string, int) gomap"
type_synonym pinning_map = "(string, string list) gomap"
type_synonym cpu_usage = "(int, int) gomap"

record range_orders =
  range_fixed :: "fixed_map \<Rightarrow> fixed_map"
  range_usage :: "cpu_usage \<Rightarrow> cpu_usage"
  range_balanced :: "balanced_map \<Rightarrow> balanced_map"
  range_pinning :: "pinning_map \<Rightarrow> pinning_map"

definition range_orders_ok :: "range_orders \<Rightarrow> bool" where
  "range_orders_ok ro \<longleftrightarrow>
     (\<forall>m. mset (range_fixed ro m) = mset m) \<and> (\<forall>m. mset (range_usage ro m) = mset m) \<and>
     (\<forall>m. mset (range_balanced ro m) = mset m) \<and> (\<forall>m. mset (range_pinning ro m) = mset m)"

section \<open>The CPUs of the host\<close>

datatype 'a step = Diverge | Return | Continue 'a

definition isolated_cpus :: "balance_env \<Rightarrow> int list step" where
  "isolated_cpus env =
     (if isolated_exists env then
        (case isolated_file env of
           None \<Rightarrow> Return
         | Some buf \<Rightarrow>
            (if TrimSpace buf \<noteq> [] then
               (case parseCpuset (TrimSpace buf) of
                  None \<Rightarrow> Diverge | Some (Inl _) \<Rightarrow> Return | Some (Inr l) \<Rightarrow> Continue l)
             else Continue []))
      else Continue [])"

definition effective_string :: "balance_env \<Rightarrow> string step" where
  "effective_string env =
     (case (case effective_cpus env of Some e \<Rightarrow> Some e | None \<Rightarrow> root_cpus env) of
        None \<Rightarrow> Return
      | Some effective \<Rightarrow> (case parseCpuset effective of
          None \<Rightarrow> Diverge
        | Some (Inl _) \<Rightarrow> Return
        | Some (Inr effectiveInt) \<Rightarrow> (case isolated_cpus env of
            Diverge \<Rightarrow> Diverge
          | Return \<Rightarrow> Return
          | Continue isolatedInt \<Rightarrow>
              Continue (join_with '','' (map dec_of_int
                (filter (\<lambda>x. \<not> IntInSlice x isolatedInt) effectiveInt))))))"

section \<open>Collecting the containers\<close>

definition cpu_limit :: "string \<Rightarrow> strmap \<Rightarrow> string" where
  "cpu_limit effective conf =
     (if \<not> mhas conf ''limits.cpu'' \<or> mget conf ''limits.cpu'' = [] then effective
      else mget conf ''limits.cpu'')"

definition append_at :: "'k \<Rightarrow> 'v \<Rightarrow> ('k, 'v list) gomap \<Rightarrow> ('k, 'v list) gomap" where
  "append_at k v m = (case map_of m k of
     Some vs \<Rightarrow> AList.update k (vs @ [v]) m
   | None \<Rightarrow> AList.update k [v] m)"

definition add_fixed :: "int list \<Rightarrow> string \<Rightarrow> int list \<Rightarrow> fixed_map \<Rightarrow> fixed_map" where
  "add_fixed cpus name ctCpus fixed =
     foldl (\<lambda>m nr. if IntInSlice nr cpus then append_at nr name m else m) fixed ctCpus"

fun collect :: "balance_env \<Rightarrow> string \<Rightarrow> int list \<Rightarrow> string list \<Rightarrow> fixed_map \<Rightarrow> balanced_map \<Rightarrow>
    (fixed_map \<times> balanced_map) step" where
  "collect env effective cpus [] fixed balanced = Continue (fixed, balanced)"
| "collect env effective cpus (name # names) fixed balanced =
     (case container_load env name of
        None \<Rightarrow> collect env effective cpus names fixed balanced
      | Some c \<Rightarrow>
         (let cpulimit = cpu_limit effective (ct_config c) in
          if \<not> ct_running c then collect env effective cpus names fixed balanced
          else (case Atoi cpulimit of
              (n, None) \<Rightarrow>
                collect env effective cpus names fixed
                  (AList.update name (if n < int (length cpus) then n else int (length cpus)) balanced)
            | (_, Some _) \<Rightarrow> (case parseCpuset cpulimit of
                None \<Rightarrow> Diverge
              | Some (Inl _) \<Rightarrow> Return
              | Some (Inr ctCpus) \<Rightarrow>
                  collect env effective cpus names (add_fixed cpus name ctCpus fixed) balanced))))"

section \<open>Balancing\<close>

definition initial_usage :: "int list \<Rightarrow> cpu_usage" where
  "initial_usage cpus = foldl (\<lambda>m x. AList.update x 0 m) [] cpus"

fun pin_fixed :: "fixed_map \<Rightarrow> cpu_usage \<Rightarrow> pinning_map \<Rightarrow> cpu_usage \<times> pinning_map" where
  "pin_fixed [] usage pinning = (usage, pinning)"
| "pin_fixed ((cpu, ctns) # rest) usage pinning = (case map_of usage cpu of
     None \<Rightarrow> pin_fixed rest usage pinning
   | Some n \<Rightarrow>
       pin_fixed rest (AList.update cpu (i64 (n + int (length ctns))) usage)
         (foldl (\<lambda>p ctn. append_at ctn (dec_of_int cpu) p) pinning ctns))"

definition cpu_less :: "int \<times> int \<Rightarrow> int \<times> int \<Rightarrow> bool" where
  "cpu_less a b \<longleftrightarrow> snd a < snd b"

type_synonym cpu_sorter = "(int \<times> int \<Rightarrow> int \<times> int \<Rightarrow> bool) \<Rightarrow> cpu_usage \<Rightarrow> cpu_usage"
type_synonym string_sorter = "(string \<Rightarrow> string \<Rightarrow> bool) \<Rightarrow> string list \<Rightarrow> string list"

text \<open>The inner loop over the sorted CPUs, for one container and its number of CPUs.\<close>

fun assign_cpus :: "string \<Rightarrow> int \<Rightarrow> cpu_usage \<Rightarrow> pinning_map \<Rightarrow> cpu_usage \<times> pinning_map" where
  "assign_cpus ctn n [] pinning = ([], pinning)"
| "assign_cpus ctn n ((cpu, used) # rest) pinning =
     (if n = 0 then ((cpu, used) # rest, pinning)
      else (case assign_cpus ctn (i64 (n - 1)) rest (append_at ctn (dec_of_int cpu) pinning) of
              (rest', pinning') \<Rightarrow> ((cpu, i64 (used + 1)) # rest', pinning')))"

definition balance_step :: "cpu_sorter \<Rightarrow> cpu_usage \<times> pinning_map \<Rightarrow> string \<times> int \<Rightarrow> cpu_usage \<times> pinning_map" where
  "balance_step srt st cn = assign_cpus (fst cn) (snd cn) (srt cpu_less (fst st)) (snd st)"

definition balance_all :: "cpu_sorter \<Rightarrow> balanced_map \<Rightarrow> cpu_usage \<times> pinning_map \<Rightarrow> cpu_usage \<times> pinning_map" where
  "balance_all srt balanced st = foldl (balance_step srt) st balanced"

definition set_pinning :: "string_sorter \<Rightarrow> balance_env \<Rightarrow> pinning_map \<Rightarrow> cg_write list" where
  "set_pinning srt env pinning =
     map (\<lambda>(ctn, cpus). SetContainer ctn (join_with '','' (srt str_less cpus)))
       (filter (\<lambda>(ctn, _). still_running env ctn) pinning)"

definition balance_pinning :: "cpu_sorter \<Rightarrow> range_orders \<Rightarrow> int list \<Rightarrow> fixed_map \<Rightarrow> balanced_map \<Rightarrow> pinning_map" where
  "balance_pinning srt ro cpus fixed balanced =
     (case pin_fixed (range_fixed ro fixed) (initial_usage cpus) [] of
        (usage, pinning) \<Rightarrow>
          snd (balance_all srt (range_balanced ro balanced) (range_usage ro usage, pinning)))"

definition deviceTaskBalance ::
  "cpu_sorter \<Rightarrow> string_sorter \<Rightarrow> range_orders \<Rightarrow> balance_env \<Rightarrow> cg_write list option" where
  "deviceTaskBalance srt ssrt ro env =
     (if \<not> cgCpusetController env then Some []
      else (case effective_string env of
          Diverge \<Rightarrow> None
        | Return \<Rightarrow> Some []
        | Continue effective \<Rightarrow>
           (case parseCpuset effective of
              None \<Rightarrow> None
            | Some (Inl _) \<Rightarrow> Some [SetRoot effective]
            | Some (Inr cpus) \<Rightarrow> (case containers_list env of
                None \<Rightarrow> Some [SetRoot effective]
              | Some names \<Rightarrow> (case collect env effective cpus names [] [] of
                  Diverge \<Rightarrow> None
                | Return \<Rightarrow> Some [SetRoot effective]
                | Continue (fixed, balanced) \<Rightarrow>
                    Some (SetRoot effective #
                      set_pinning ssrt env
                        (range_pinning ro (balance_pinning srt ro cpus fixed balanced))))))))"

section \<open>Network priorities and events\<close>

definition deviceNetworkPriority ::
  "bool \<Rightarrow> string list option \<Rightarrow> (string \<Rightarrow> balance_ct option) \<Rightarrow> string \<Rightarrow> cg_write list" where
  "deviceNetworkPriority cgNetPrioController names load netif =
     (if \<not> cgNetPrioController then []
      else (case names of
          None \<Rightarrow> []
        | Some ns \<Rightarrow> concat (map (\<lambda>name. (case load name of
              None \<Rightarrow> []
            | Some c \<Rightarrow>
               (let networkPriority = mget (ct_config c) ''limits.network.priority'' in
                if networkPriority = [] then []
                else (case Atoi networkPriority of
                    (_, Some _) \<Rightarrow> []
                  | (networkInt, None) \<Rightarrow> [SetContainer name (netif @ '' '' @ dec_of_int networkInt)])))) ns)))"

text \<open>
  A message of the kernel, NUL-separated; \<open>b\<close> is the whole buffer.  The text of a property runs
  from one after the previous NUL to the next NUL, so the first property starts at offset 1.
\<close>

fun uevent_props :: "string \<Rightarrow> nat \<Rightarrow> nat \<Rightarrow> string \<Rightarrow> strmap \<Rightarrow> strmap option" where
  "uevent_props b lst i [] props = Some props"
| "uevent_props b lst i (e # es) props =
     (if e = CHR 0x00 then
        (if i < lst + 1 then None
         else let msg = take (i - (lst + 1)) (drop (lst + 1) b) in
           (if msg = [] \<or> msg = [CHR 0x00] then uevent_props b i (i + 1) es props
            else (case split2 CHR ''='' msg of
                [k, v] \<Rightarrow> uevent_props b i (i + 1) es (AList.update k v props)
              | _ \<Rightarrow> uevent_props b i (i + 1) es props)))
      else uevent_props b lst (i + 1) es props)"

datatype uevent = CpuEvent string string | NetEvent string string

definition path_base :: "string \<Rightarrow> string" where
  "path_base p =
     (if p = [] then ''.''
      else let q = rev (dropWhile (\<lambda>c. c = CHR ''/'') (rev p)) in
           if q = [] then ''/'' else last (split_on CHR ''/'' q))"

definition uevent_dispatch :: "(string \<Rightarrow> bool) \<Rightarrow> strmap \<Rightarrow> uevent list" where
  "uevent_dispatch exists props =
     (if mget props ''SUBSYSTEM'' = ''cpu'' then
        (if mget props ''DRIVER'' \<noteq> ''processor'' then []
         else if mget props ''ACTION'' \<noteq> ''offline'' \<and> mget props ''ACTION'' \<noteq> ''online'' then []
         else [CpuEvent (path_base (mget props ''DEVPATH'')) (mget props ''ACTION'')])
      else if mget props ''SUBSYSTEM'' = ''net'' then
        (if mget props ''ACTION'' \<noteq> ''add'' \<and> mget props ''ACTION'' \<noteq> ''removed'' then []
         else if \<not> exists (''/sys/class/net/'' @ mget props ''INTERFACE'') then []
         else [NetEvent (mget props ''INTERFACE'') (mget props ''ACTION'')])
      else [])"

section \<open>The pinning map\<close>

definition pins :: "('k, 'v list) gomap \<Rightarrow> 'k \<Rightarrow> 'v list" where
  "pins m k = (case map_of m k of None \<Rightarrow> [] | Some v \<Rightarrow> v)"

lemma pins_Nil [simp]: "pins [] k = []"
  by (simp add: pins_def)

lemma pins_append_at [simp]: "pins (append_at k v m) k' = (if k' = k then pins m k @ [v] else pins m k')"
  by (auto simp: pins_def append_at_def update_conv' split: option.splits)

lemma gomap_ok_append_at [simp]: "gomap_ok m \<Longrightarrow> gomap_ok (append_at k v m)"
  by (auto simp: append_at_def distinct_update split: option.splits)

lemma pins_member: "gomap_ok m \<Longrightarrow> (k, v) \<in> set m \<Longrightarrow> pins m k = v"
  by (simp add: pins_def)

lemma pins_foldl_append:
  "pins (foldl (\<lambda>p ctn. append_at ctn v p) m ctns) k = pins m k @ replicate (length (filter ((=) k) ctns)) v"
  by (induction ctns arbitrary: m) (auto simp: replicate_app_Cons_same)

lemma gomap_ok_foldl_append: "gomap_ok m \<Longrightarrow> gomap_ok (foldl (\<lambda>p ctn. append_at ctn v p) m ctns)"
  by (induction ctns arbitrary: m) auto

section \<open>Pinned containers\<close>

lemma add_fixed_pins: "name' \<noteq> name \<Longrightarrow>
  name' \<in> set (pins (add_fixed cpus name ctCpus fixed) cpu) \<longleftrightarrow> name' \<in> set (pins fixed cpu)"
  unfolding add_fixed_def by (induction ctCpus arbitrary: fixed) auto

lemma gomap_ok_add_fixed: "gomap_ok fixed \<Longrightarrow> gomap_ok (add_fixed cpus name ctCpus fixed)"
  unfolding add_fixed_def by (induction ctCpus arbitrary: fixed) auto

lemma keys_initial_usage:
  assumes "distinct cpus"
  shows "map fst (initial_usage cpus) = cpus"
proof -
  have "distinct (map fst m @ cpus) \<Longrightarrow>
    map fst (foldl (\<lambda>m x. AList.update x 0 m) m cpus) = map fst m @ cpus" for m :: cpu_usage
  proof (induction cpus arbitrary: m)
    case (Cons x xs)
    then have "map fst (AList.update x 0 m) = map fst m @ [x]" by (simp add: update_keys)
    with Cons.IH [of "AList.update x 0 m"] Cons.prems show ?case by simp
  qed simp
  with assms show ?thesis by (simp add: initial_usage_def)
qed

lemma pin_fixed_spec:
  "map fst (fst (pin_fixed fixed usage p)) = map fst usage \<and>
   (gomap_ok p \<longrightarrow> gomap_ok (snd (pin_fixed fixed usage p))) \<and>
   ((\<forall>(cpu, ctns) \<in> set fixed. c \<notin> set ctns) \<longrightarrow> pins (snd (pin_fixed fixed usage p)) c = pins p c)"
proof (induction fixed usage p rule: pin_fixed.induct)
  case (2 cpu ctns rest usage p)
  show ?case
  proof (cases "map_of usage cpu")
    case None
    with 2 show ?thesis by simp
  next
    case (Some n)
    then have "cpu \<in> set (map fst usage)" by (metis map_of_eq_None_iff option.distinct(1) list.set_map)
    then have keys: "map fst (AList.update cpu (i64 (n + int (length ctns))) usage) = map fst usage"
      by (simp add: update_keys)
    have none: "c \<notin> set ctns \<Longrightarrow> filter ((=) c) ctns = []" by (auto simp: filter_empty_conv)
    from 2(2) [OF Some] Some keys show ?thesis
      by (auto simp: gomap_ok_foldl_append pins_foldl_append none)
  qed
qed simp

section \<open>Balanced containers\<close>

lemma strict_weak_cpu_less: "strict_weak cpu_less"
  by (auto simp: strict_weak_def cpu_less_def)

lemma assign_ids: "map fst (fst (assign_cpus ctn n us p)) = map fst us"
  by (induction ctn n us p rule: assign_cpus.induct) (auto split: prod.splits)

lemma assign_gomap_ok: "gomap_ok p \<Longrightarrow> gomap_ok (snd (assign_cpus ctn n us p))"
  by (induction ctn n us p rule: assign_cpus.induct) (auto split: prod.splits)

lemma assign_pins:
  assumes "0 \<le> n" "n < 2 ^ 63"
  shows "pins (snd (assign_cpus ctn n us p)) c =
    (if c = ctn then pins p c @ map (dec_of_int \<circ> fst) (take (nat n) us) else pins p c)"
  using assms
proof (induction ctn n us p rule: assign_cpus.induct)
  case (2 ctn n cpu used rest p)
  show ?case
  proof (cases "n = 0")
    case False
    with 2 have small: "i64 (n - 1) = n - 1" by (intro i64_id) (simp add: in_i64_def)
    have n: "nat n = Suc (nat (n - 1))" using False 2 by simp
    show ?thesis using 2 False small by (auto simp: n split: prod.splits)
  qed simp
qed simp

lemma assign_other: "c \<noteq> ctn \<Longrightarrow> pins (snd (assign_cpus ctn n us p)) c = pins p c"
  by (induction ctn n us p rule: assign_cpus.induct) (auto split: prod.splits)

text \<open>
  What one balanced container gets, for every sorting algorithm: as many different CPUs as it
  asked for, out of those of the host.
\<close>

definition fair_share :: "int \<Rightarrow> int list \<Rightarrow> int list \<Rightarrow> bool" where
  "fair_share n cpus ids \<longleftrightarrow>
     distinct ids \<and> set ids \<subseteq> set cpus \<and> length ids = min (nat n) (length cpus)"

lemma fair_share_perm: "mset cpus = mset cpus' \<Longrightarrow> fair_share n cpus ids \<longleftrightarrow> fair_share n cpus' ids"
  unfolding fair_share_def by (metis mset_eq_setD size_mset)

lemma fair_share_take:
  assumes "distinct (map fst us)"
  shows "fair_share n (map fst us) (map fst (take (nat n) us))"
  using assms unfolding fair_share_def
  by (auto simp: take_map [symmetric] distinct_take dest: in_set_takeD)

lemma balance_step_ids:
  assumes "go_sort srt"
  shows "mset (map fst (fst (balance_step srt st cn))) = mset (map fst (fst st))"
  using go_sort.srt_mset [OF assms strict_weak_cpu_less, of "fst st"]
  by (simp add: balance_step_def assign_ids)

lemma balance_all_ids:
  assumes "go_sort srt"
  shows "mset (map fst (fst (balance_all srt bal st))) = mset (map fst (fst st))"
  unfolding balance_all_def
  by (induction bal arbitrary: st) (simp_all add: balance_step_ids [OF assms] del: mset_map)

lemma balance_all_other:
  "c \<notin> set (keys_of bal) \<Longrightarrow> pins (snd (balance_all srt bal st)) c = pins (snd st) c"
  unfolding balance_all_def
  by (induction bal arbitrary: st) (auto simp: balance_step_def assign_other)

lemma balance_all_gomap_ok: "gomap_ok (snd st) \<Longrightarrow> gomap_ok (snd (balance_all srt bal st))"
  unfolding balance_all_def
  by (induction bal arbitrary: st) (auto simp: balance_step_def assign_gomap_ok)

lemma balance_all_share:
  assumes "go_sort srt" "gomap_ok bal" "(c, n) \<in> set bal" "0 \<le> n" "n < 2 ^ 63"
    and "distinct (map fst (fst st))" "mset (map fst (fst st)) = mset cpus"
  shows "\<exists>ids. fair_share n cpus ids \<and>
    pins (snd (balance_all srt bal st)) c = pins (snd st) c @ map dec_of_int ids"
  using assms(2,3,6,7)
proof (induction bal arbitrary: st)
  case (Cons b bal)
  let ?st = "balance_step srt st b"
  have fold: "balance_all srt (b # bal) st = balance_all srt bal ?st"
    by (simp add: balance_all_def)
  note ids = balance_step_ids [OF assms(1), of st b]
  show ?case
  proof (cases "b = (c, n)")
    case True
    let ?us = "srt cpu_less (fst st)"
    have us: "mset (map fst ?us) = mset (map fst (fst st))"
      using go_sort.srt_mset [OF assms(1) strict_weak_cpu_less, of "fst st"] by simp
    then have "distinct (map fst ?us)" using Cons.prems(3) mset_eq_imp_distinct_iff by blast
    then have "fair_share n cpus (map fst (take (nat n) ?us))"
      using fair_share_take fair_share_perm us Cons.prems(4) by metis
    moreover have "pins (snd ?st) c = pins (snd st) c @ map dec_of_int (map fst (take (nat n) ?us))"
      using True assign_pins [OF assms(4,5)] by (simp add: balance_step_def)
    moreover have "c \<notin> set (keys_of bal)" using Cons.prems(1) True by simp
    ultimately show ?thesis unfolding fold using balance_all_other by metis
  next
    case False
    then have mem: "(c, n) \<in> set bal" using Cons.prems(2) by auto
    then have "c \<in> set (keys_of bal)" by force
    then have "c \<noteq> fst b" using Cons.prems(1) by (metis distinct.simps(2) list.simps(9))
    then have "pins (snd ?st) c = pins (snd st) c" by (simp add: balance_step_def assign_other)
    moreover have "distinct (map fst (fst ?st))" using ids Cons.prems(3) mset_eq_imp_distinct_iff by blast
    ultimately show ?thesis unfolding fold using Cons.IH [OF _ mem, of ?st] ids Cons.prems by simp
  qed
qed simp

section \<open>Collection\<close>

lemma collect_spec:
  assumes "collect env eff cpus names fixed balanced = Continue (fixed', balanced')"
    and "distinct names" "gomap_ok balanced" "gomap_ok fixed"
  shows "gomap_ok balanced' \<and> gomap_ok fixed' \<and>
    (c \<notin> set names \<longrightarrow> map_of balanced' c = map_of balanced c \<and>
       (\<forall>cpu. c \<in> set (pins fixed' cpu) \<longleftrightarrow> c \<in> set (pins fixed cpu)))"
  using assms
proof (induction env eff cpus names fixed balanced rule: collect.induct)
  case (2 env eff cpus name names fixed balanced)
  then show ?case
    by (auto simp: Let_def distinct_update update_conv' gomap_ok_add_fixed add_fixed_pins
        split: option.splits if_splits prod.splits sum.splits)
qed simp

text \<open>A running container whose limit is a number is balanced, and not pinned.\<close>

definition balanced_limit :: "balance_env \<Rightarrow> string \<Rightarrow> string \<Rightarrow> int \<Rightarrow> bool" where
  "balanced_limit env eff c n \<longleftrightarrow>
     (case container_load env c of None \<Rightarrow> False
      | Some ct \<Rightarrow> ct_running ct \<and> Atoi (cpu_limit eff (ct_config ct)) = (n, None))"

lemma collect_balanced:
  assumes "collect env eff cpus names fixed balanced = Continue (fixed', balanced')"
    and "distinct names" "gomap_ok balanced" "gomap_ok fixed" "c \<in> set names" "balanced_limit env eff c n"
    and "\<forall>cpu. c \<notin> set (pins fixed cpu)"
  shows "map_of balanced' c = Some (min n (int (length cpus))) \<and> (\<forall>cpu. c \<notin> set (pins fixed' cpu))"
  using assms
proof (induction env eff cpus names fixed balanced rule: collect.induct)
  case (2 env eff cpus name names fixed balanced)
  show ?case
  proof (cases "name = c")
    case True
    then obtain ct where "container_load env c = Some ct" "ct_running ct"
      "Atoi (cpu_limit eff (ct_config ct)) = (n, None)"
      using "2.prems"(6) by (auto simp: balanced_limit_def split: option.splits)
    with True "2.prems"(1) have "collect env eff cpus names fixed
        (AList.update c (min n (int (length cpus))) balanced) = Continue (fixed', balanced')"
      by (simp add: min_def split: if_splits)
    from collect_spec [OF this, of c] True "2.prems"(2-4,7) show ?thesis
      by (simp add: distinct_update update_conv')
  next
    case False
    with 2 show ?thesis
      by (auto simp: Let_def distinct_update gomap_ok_add_fixed add_fixed_pins
          split: option.splits if_splits prod.splits sum.splits)
  qed
qed simp

lemma balance_pinning_share:
  assumes "go_sort srt" "range_orders_ok ro" "distinct cpus"
    and "collect env eff cpus names [] [] = Continue (fixed, balanced)"
    and "distinct names" "c \<in> set names" "balanced_limit env eff c n" "0 \<le> n" "length cpus < 2 ^ 63"
  shows "\<exists>ids. fair_share n cpus ids \<and> pins (balance_pinning srt ro cpus fixed balanced) c = map dec_of_int ids"
    and "gomap_ok (balance_pinning srt ro cpus fixed balanced)"
proof -
  let ?n = "min n (int (length cpus))"
  have perm: "mset (range_fixed ro fixed) = mset fixed" "mset (range_balanced ro balanced) = mset balanced"
    "\<And>m. mset (range_usage ro m) = mset m" using assms(2) by (auto simp: range_orders_ok_def)
  have ok: "gomap_ok balanced" "gomap_ok fixed" using collect_spec [OF assms(4,5)] by auto
  have bal: "map_of balanced c = Some ?n" and free: "\<forall>cpu. c \<notin> set (pins fixed cpu)"
    using collect_balanced [OF assms(4,5) _ _ assms(6,7)] by auto
  obtain usage pinning where pf: "pin_fixed (range_fixed ro fixed) (initial_usage cpus) [] = (usage, pinning)"
    by (cases "pin_fixed (range_fixed ro fixed) (initial_usage cpus) []")
  have notin: "\<forall>(cpu, ctns) \<in> set (range_fixed ro fixed). c \<notin> set ctns"
    using free ok(2) perm(1) by (auto simp: pins_def dest: mset_eq_setD)
  have keys: "map fst usage = cpus" and p: "gomap_ok pinning" "pins pinning c = []"
    using pin_fixed_spec [of "range_fixed ro fixed" "initial_usage cpus" "[]" c] pf notin
      keys_initial_usage [OF assms(3)] by auto
  have us: "mset (map fst (range_usage ro usage)) = mset cpus" using perm(3) [of usage] keys by (metis mset_map)
  have result: "balance_pinning srt ro cpus fixed balanced =
      snd (balance_all srt (range_balanced ro balanced) (range_usage ro usage, pinning))"
    by (simp add: balance_pinning_def pf)
  have "gomap_ok (range_balanced ro balanced)" "(c, ?n) \<in> set (range_balanced ro balanced)"
    using ok(1) perm(2) bal gomap_ok_perm map_of_SomeD mset_eq_setD by metis+
  moreover have "?n < 2 ^ 63" using assms(9) by simp
  ultimately have "\<exists>ids. fair_share ?n cpus ids \<and>
      pins (balance_pinning srt ro cpus fixed balanced) c = map dec_of_int ids"
    using balance_all_share [OF assms(1), of "range_balanced ro balanced" c ?n "(range_usage ro usage, pinning)" cpus]
      us assms(3,8) p(2) mset_eq_imp_distinct_iff [OF us] unfolding result by simp
  then obtain ids where "fair_share ?n cpus ids"
    "pins (balance_pinning srt ro cpus fixed balanced) c = map dec_of_int ids" by blast
  moreover from this(1) have "fair_share n cpus ids" by (auto simp: fair_share_def min_def)
  ultimately show "\<exists>ids. fair_share n cpus ids \<and>
      pins (balance_pinning srt ro cpus fixed balanced) c = map dec_of_int ids" by blast
  show "gomap_ok (balance_pinning srt ro cpus fixed balanced)"
    unfolding result using p(1) by (intro balance_all_gomap_ok) simp
qed

section \<open>Fairness\<close>

definition level :: "cpu_usage \<Rightarrow> bool" where
  "level us \<longleftrightarrow> (\<forall>a \<in> set us. \<forall>b \<in> set us. snd a \<le> snd b + 1)"

lemma assign_usage:
  assumes "0 \<le> n" "n < 2 ^ 63" "\<forall>a \<in> set us. 0 \<le> snd a \<and> snd a < m" "m < 2 ^ 63"
  shows "fst (assign_cpus ctn n us p) =
    map (\<lambda>(x, u). (x, u + 1)) (take (nat n) us) @ drop (nat n) us"
  using assms
proof (induction ctn n us p rule: assign_cpus.induct)
  case (2 ctn n cpu used rest p)
  show ?case
  proof (cases "n = 0")
    case False
    with 2 have "i64 (n - 1) = n - 1" "i64 (used + 1) = used + 1"
      by (auto intro!: i64_id simp: in_i64_def)
    moreover have "nat n = Suc (nat (n - 1))" using False 2 by simp
    ultimately show ?thesis using 2 False by (auto split: prod.splits)
  qed simp
qed simp

lemma level_raise:
  assumes "\<forall>a \<in> set xs \<union> set ys. \<forall>b \<in> set xs \<union> set ys. snd a \<le> snd b + 1"
    and "\<forall>a \<in> set xs. \<forall>b \<in> set ys. snd a \<le> snd b"
  shows "level (map (\<lambda>(x, u). (x, u + 1)) xs @ ys)"
  unfolding level_def
proof (intro ballI)
  fix a b
  assume "a \<in> set (map (\<lambda>(x, u). (x, u + 1)) xs @ ys)" "b \<in> set (map (\<lambda>(x, u). (x, u + 1)) xs @ ys)"
  then consider (xx) a' b' where "a' \<in> set xs" "snd a = snd a' + 1" "b' \<in> set xs" "snd b = snd b' + 1"
    | (xy) a' where "a' \<in> set xs" "snd a = snd a' + 1" "b \<in> set ys"
    | (yx) b' where "a \<in> set ys" "b' \<in> set xs" "snd b = snd b' + 1"
    | (yy) "a \<in> set ys" "b \<in> set ys" by fastforce
  then show "snd a \<le> snd b + 1"
  proof cases
    case xx
    then have "snd a' \<le> snd b' + 1" using assms(1) by auto
    with xx show ?thesis by simp
  next
    case xy
    with assms(2) show ?thesis by auto
  next
    case yx
    then have "snd a \<le> snd b' + 1" using assms(1) by auto
    with yx show ?thesis by simp
  next
    case yy
    with assms(1) show ?thesis by auto
  qed
qed

lemma balance_step_level:
  assumes "go_sort srt" "0 \<le> snd cn" "snd cn < 2 ^ 63" "level (fst st)"
    and "\<forall>a \<in> set (fst st). 0 \<le> snd a \<and> snd a < m" "m < 2 ^ 63"
  shows "level (fst (balance_step srt st cn)) \<and>
    (\<forall>a \<in> set (fst (balance_step srt st cn)). 0 \<le> snd a \<and> snd a < m + 1)"
proof -
  let ?us = "srt cpu_less (fst st)" and ?k = "nat (snd cn)"
  have eq: "set ?us = set (fst st)" by (rule go_sort.srt_set [OF assms(1) strict_weak_cpu_less])
  have us: "fst (balance_step srt st cn) = map (\<lambda>(x, u). (x, u + 1)) (take ?k ?us) @ drop ?k ?us"
    unfolding balance_step_def using assms(5) eq by (intro assign_usage [OF assms(2,3) _ assms(6)]) auto
  have "sorted_by cpu_less (take ?k ?us @ drop ?k ?us)"
    using go_sort.srt_sorted [OF assms(1) strict_weak_cpu_less] by simp
  then have sorted: "\<forall>a \<in> set (take ?k ?us). \<forall>b \<in> set (drop ?k ?us). snd a \<le> snd b"
    unfolding sorted_by_def sorted_wrt_append by (auto simp: cpu_less_def not_less)
  have sub: "set (take ?k ?us) \<subseteq> set (fst st)" "set (drop ?k ?us) \<subseteq> set (fst st)"
    using eq by (auto dest: in_set_takeD in_set_dropD)
  show ?thesis unfolding us
  proof
    show "level (map (\<lambda>(x, u). (x, u + 1)) (take ?k ?us) @ drop ?k ?us)"
      using assms(4) sub sorted unfolding level_def by (intro level_raise [unfolded level_def]) blast+
    show "\<forall>a \<in> set (map (\<lambda>(x, u). (x, u + 1)) (take ?k ?us) @ drop ?k ?us). 0 \<le> snd a \<and> snd a < m + 1"
      using assms(5) sub by fastforce
  qed
qed

lemma balance_all_level:
  assumes "go_sort srt" "\<forall>cn \<in> set bal. 0 \<le> snd cn \<and> snd cn < 2 ^ 63" "level (fst st)"
    and "\<forall>a \<in> set (fst st). 0 \<le> snd a \<and> snd a < m" "m + int (length bal) \<le> 2 ^ 63"
  shows "level (fst (balance_all srt bal st))"
  using assms(2-5)
proof (induction bal arbitrary: st m)
  case (Cons b bal)
  have "level (fst (balance_step srt st b)) \<and>
      (\<forall>a \<in> set (fst (balance_step srt st b)). 0 \<le> snd a \<and> snd a < m + 1)"
    using Cons.prems by (intro balance_step_level [OF assms(1)]) auto
  then have "level (fst (balance_all srt bal (balance_step srt st b)))"
    using Cons.IH [of "balance_step srt st b" "m + 1"] Cons.prems by simp
  then show ?case by (simp add: balance_all_def)
qed (simp add: balance_all_def)

section \<open>Properties\<close>

lemma inj_dec_of_int: "inj dec_of_int"
proof (rule injI)
  fix i j :: int
  assume eq: "dec_of_int i = dec_of_int j"
  define b where "b = Suc (nat \<bar>i\<bar> + nat \<bar>j\<bar>)"
  have big: "int k < 2 ^ k" for k :: nat
    by (metis less_exp of_nat_less_iff of_nat_numeral of_nat_power)
  have "\<bar>i\<bar> < 2 ^ (b - 1)" "\<bar>j\<bar> < 2 ^ (b - 1)"
    using big [of "nat \<bar>i\<bar> + nat \<bar>j\<bar>"] unfolding b_def diff_Suc_1 of_nat_add by linarith+
  then have bounds: "- (2 ^ (b - 1)) \<le> i" "i < 2 ^ (b - 1)" "- (2 ^ (b - 1)) \<le> j" "j < 2 ^ (b - 1)"
    by linarith+
  have "0 < b" by (simp add: b_def)
  note parse_i = ParseInt_dec_of_int [of b i, OF bounds(1,2) \<open>0 < b\<close>]
  note parse_j = ParseInt_dec_of_int [of b j, OF bounds(3,4) \<open>0 < b\<close>]
  show "i = j" using parse_i parse_j unfolding eq by (simp only: prod.inject)
qed

lemma set_pinning_iff:
  "SetContainer c v \<in> set (set_pinning ssrt env p) \<longleftrightarrow>
     still_running env c \<and> (\<exists>l. (c, l) \<in> set p \<and> v = join_with '','' (ssrt str_less l))"
  by (auto simp: set_pinning_def)

text \<open>
  C8.  When the effective CPUs of the host can be read and name no CPU twice, and the limits of all
  running containers can be read, a running container that asks for a
  number of CPUs is pinned to exactly that many different CPUs, or to all of them when it asks for
  more, taken from the available CPUs of the host, whatever the limits of the other containers, the
  sorting algorithm and the order in which Go visits its maps; a container that stopped in the
  meantime gets no write.  One limit that cannot be read stops the balancing of all containers
  (\<open>deviceTaskBalance_bad_limit\<close>).
\<close>

theorem deviceTaskBalance_share:
  assumes "go_sort srt" "go_sort ssrt" "range_orders_ok ro"
    and "cgCpusetController env" "effective_string env = Continue eff"
    and "parseCpuset eff = Some (Inr cpus)" "distinct cpus" "length cpus < 2 ^ 63"
    and "containers_list env = Some names" "distinct names"
    and "collect env eff cpus names [] [] = Continue (fixed, balanced)"
    and "c \<in> set names" "balanced_limit env eff c n" "0 < n" "cpus \<noteq> []"
  shows "\<exists>ws strs. deviceTaskBalance srt ssrt ro env = Some ws \<and>
    distinct strs \<and> set strs \<subseteq> dec_of_int ` set cpus \<and> length strs = min (nat n) (length cpus) \<and>
    {v. SetContainer c v \<in> set ws} = (if still_running env c then {join_with '','' strs} else {})"
proof -
  let ?p = "balance_pinning srt ro cpus fixed balanced"
  let ?ws = "SetRoot eff # set_pinning ssrt env (range_pinning ro ?p)"
  have n: "0 \<le> n" using assms(14) by simp
  note share = balance_pinning_share [OF assms(1,3,7,11,10,12,13) n assms(8)]
  from share(1) obtain ids where ids: "fair_share n cpus ids" "pins ?p c = map dec_of_int ids" by blast
  let ?strs = "ssrt str_less (map dec_of_int ids)"
  have perm: "mset ?strs = mset (map dec_of_int ids)"
    by (rule go_sort.srt_mset [OF assms(2) strict_weak_str_less])
  have ws: "deviceTaskBalance srt ssrt ro env = Some ?ws"
    using assms(4-6,9,11) by (simp add: deviceTaskBalance_def)
  have "ids \<noteq> []" using ids(1) assms(14,15) by (auto simp: fair_share_def min_def split: if_splits)
  then have entry: "map_of ?p c = Some (map dec_of_int ids)"
    using ids(2) by (auto simp: pins_def split: option.splits)
  have "set (range_pinning ro ?p) = set ?p"
    using assms(3) by (intro mset_eq_setD) (simp add: range_orders_ok_def)
  then have mem: "(c, l) \<in> set (range_pinning ro ?p) \<longleftrightarrow> l = map dec_of_int ids" for l
    using entry map_of_eq_Some_iff [OF share(2), of c] by (metis option.inject)
  have "distinct (map dec_of_int ids)"
    using ids(1) inj_dec_of_int by (auto simp: fair_share_def distinct_map intro: inj_on_subset)
  then have "distinct ?strs" using perm mset_eq_imp_distinct_iff by blast
  moreover have "set ?strs \<subseteq> dec_of_int ` set cpus"
    using ids(1) mset_eq_setD [OF perm] by (auto simp: fair_share_def)
  moreover have "length ?strs = min (nat n) (length cpus)"
    using ids(1) mset_eq_length [OF perm] by (simp add: fair_share_def)
  moreover have "{v. SetContainer c v \<in> set ?ws} = (if still_running env c then {join_with '','' ?strs} else {})"
    by (auto simp: set_pinning_iff mem)
  ultimately show ?thesis using ws by blast
qed

definition demo_env :: "string \<Rightarrow> balance_env" where
  "demo_env limit = \<lparr>cgCpusetController = True, effective_cpus = Some ''0-2'', root_cpus = None,
     isolated_exists = False, isolated_file = None, containers_list = Some [''a'', ''b''],
     container_load = (\<lambda>name. Some \<lparr>ct_config = [(''limits.cpu'', if name = ''a'' then ''2'' else limit)],
                                     ct_running = True\<rparr>),
     still_running = (\<lambda>_. True)\<rparr>"

definition demo_orders :: range_orders where
  "demo_orders = \<lparr>range_fixed = (\<lambda>m. m), range_usage = (\<lambda>m. m), range_balanced = (\<lambda>m. m), range_pinning = (\<lambda>m. m)\<rparr>"

lemma demo_cpus:
  "effective_string (demo_env l) = Continue ''0,1,2''" "parseCpuset ''0,1,2'' = Some (Inr [0, 1, 2])"
proof -
  have at: "Atoi ''0'' = (0, None)" "Atoi ''1'' = (1, None)" "Atoi ''2'' = (2, None)"
    by (simp_all add: Atoi_def ParseInt_def ParseUint_def digit_val_def Let_def)
  have "cpu_loop 0 2 [] = Some [0, 1, 2]" by (simp add: cpu_loop_terminates upto_rec1)
  moreover have "split2 CHR ''-'' ''0-2'' = [''0'', ''2'']" by (simp add: split2_def)
  ultimately have "parseCpuset ''0-2'' = Some (Inr [0, 1, 2])"
    using at by (simp add: parseCpuset_def parse_chunk_def ContainsChar_def)
  then show "effective_string (demo_env l) = Continue ''0,1,2''"
    by (simp add: effective_string_def demo_env_def isolated_cpus_def dec_of_int_def dec_of_nat.simps
        digit_char_lits)
  show "parseCpuset ''0,1,2'' = Some (Inr [0, 1, 2])"
    using at by (simp add: parseCpuset_def parse_chunk_def ContainsChar_def)
qed

lemma demo_collect:
  "collect (demo_env ''1'') ''0,1,2'' [0, 1, 2] [''a'', ''b''] [] [] = Continue ([], [(''a'', 2), (''b'', 1)])"
  by (simp add: demo_env_def cpu_limit_def mhas_def Atoi_def ParseInt_def ParseUint_def digit_val_def Let_def)

theorem deviceTaskBalance_share_witness:
  "\<exists>ws strs. deviceTaskBalance sort_by sort_by demo_orders (demo_env ''1'') = Some ws \<and>
    distinct strs \<and> length strs = 2 \<and> {v. SetContainer ''a'' v \<in> set ws} = {join_with '','' strs}"
proof -
  have "range_orders_ok demo_orders" by (simp add: range_orders_ok_def demo_orders_def)
  moreover have "balanced_limit (demo_env ''1'') ''0,1,2'' ''a'' 2"
    by (simp add: balanced_limit_def demo_env_def cpu_limit_def mhas_def Atoi_def ParseInt_def
        ParseUint_def digit_val_def Let_def)
  moreover have "cgCpusetController (demo_env ''1'')" "containers_list (demo_env ''1'') = Some [''a'', ''b'']"
    "still_running (demo_env ''1'') ''a''" by (simp_all add: demo_env_def)
  ultimately show ?thesis
    using deviceTaskBalance_share [OF isort.go_sort_axioms isort.go_sort_axioms, where ro = demo_orders
        and env = "demo_env ''1''" and eff = "''0,1,2''" and cpus = "[0, 1, 2]" and names = "[''a'', ''b'']"
        and fixed = "[]" and balanced = "[(''a'', 2), (''b'', 1)]" and c = "''a''" and n = 2]
      demo_cpus(1) [of "''1''"] demo_cpus(2) demo_collect
    by (simp del: collect.simps) (metis numeral_2_eq_2)
qed

text \<open>
  C30.  Without pinned containers the load is even: after all the containers are balanced, the
  numbers of containers on two CPUs differ by one at most.
\<close>

theorem balance_even:
  assumes "go_sort srt" "\<forall>cn \<in> set balanced. 0 \<le> snd cn \<and> snd cn < 2 ^ 63"
    and "int (length balanced) < 2 ^ 63 - 1" "mset usage = mset (initial_usage cpus)"
    and "a \<in> set (fst (balance_all srt balanced (usage, pinning)))"
    and "b \<in> set (fst (balance_all srt balanced (usage, pinning)))"
  shows "\<bar>snd a - snd b\<bar> \<le> 1"
proof -
  have "\<forall>x \<in> set m. snd x = 0 \<Longrightarrow> \<forall>x \<in> set (foldl (\<lambda>m x. AList.update x 0 m) m cpus). snd x = (0 :: int)"
    for m :: cpu_usage
  proof (induction cpus arbitrary: m)
    case (Cons x xs)
    have "\<forall>y \<in> set (AList.update x 0 m). snd y = 0"
      using Cons.prems by (induction m) auto
    with Cons.IH show ?case by simp
  qed simp
  from this [of "[]"] have zero: "\<forall>x \<in> set usage. snd x = 0"
    using mset_eq_setD [OF assms(4)] by (simp add: initial_usage_def)
  then have "level (fst (balance_all srt balanced (usage, pinning)))"
    using assms(2,3) by (intro balance_all_level [OF assms(1), where m = 1]) (auto simp: level_def)
  then have "snd a \<le> snd b + 1" "snd b \<le> snd a + 1" using assms(5,6) unfolding level_def by blast+
  then show ?thesis by linarith
qed

theorem balance_even_witness:
  "fst (balance_all sort_by [(''a'', 2), (''b'', 2)] ([(0, 0), (1, 0), (2, 0)], [])) = [(2, 1), (0, 2), (1, 1)] \<and>
   \<bar>snd (2, 1) - snd (0, 2 :: int)\<bar> \<le> 1"
proof -
  let ?us = "fst (balance_all sort_by [(''a'', 2), (''b'', 2)] ([(0, 0), (1, 0), (2, 0)], []))"
  have us: "?us = [(2, 1), (0, 2), (1, 1)]"
    by (simp add: balance_all_def balance_step_def sort_by_def cpu_less_def i64_def)
  moreover have "\<bar>snd (2 :: int, 1) - snd (0 :: int, 2 :: int)\<bar> \<le> 1"
    using balance_even [OF isort.go_sort_axioms, of "[(''a'', 2), (''b'', 2)]" "[(0, 0), (1, 0), (2, 0)]" "[0, 1, 2]"
        "(2, 1)" "[]" "(0, 2)"] us by (simp add: initial_usage_def)
  ultimately show ?thesis by simp
qed

text \<open>
   Finding: one running container whose \<^verbatim>\<open>limits.cpu\<close> is neither a number nor a CPU
  set stops the balancing of every container: no control group of a container is written.
\<close>

theorem deviceTaskBalance_bad_limit:
  assumes "cgCpusetController env" "effective_string env = Continue eff"
    and "containers_list env = Some names" "c \<in> set names" "container_load env c = Some ct" "ct_running ct"
    and "snd (Atoi (cpu_limit eff (ct_config ct))) \<noteq> None"
    and "parseCpuset (cpu_limit eff (ct_config ct)) = Some (Inl e)"
  shows "deviceTaskBalance srt ssrt ro env \<in> {None, Some [SetRoot eff]}"
proof -
  have "collect env eff cpus names fixed balanced \<in> {Diverge, Return}" for cpus fixed balanced
    using assms(4)
  proof (induction names arbitrary: fixed balanced)
    case (Cons name names)
    show ?case
    proof (cases "name = c")
      case True
      with assms(5-8) show ?thesis by (auto simp: Let_def split: prod.splits option.splits)
    next
      case False
      with Cons show ?thesis
        by (auto simp: Let_def split: prod.splits option.splits sum.splits)
    qed
  qed simp
  note early = this
  show ?thesis
  proof (cases "parseCpuset eff")
    case (Some r)
    show ?thesis
    proof (cases r)
      case (Inr cpus)
      with Some assms(1-3) early [of cpus "[]" "[]"] show ?thesis
        by (auto simp: deviceTaskBalance_def)
    qed (use Some assms(1,2) in \<open>simp add: deviceTaskBalance_def\<close>)
  qed (use assms(1,2) in \<open>simp add: deviceTaskBalance_def\<close>)
qed

theorem deviceTaskBalance_bad_limit_witness:
  "deviceTaskBalance sort_by sort_by demo_orders (demo_env ''lots'') \<in> {None, Some [SetRoot ''0,1,2'']}"
proof (rule deviceTaskBalance_bad_limit)
  show "snd (Atoi (cpu_limit ''0,1,2'' (ct_config \<lparr>ct_config = [(''limits.cpu'', ''lots'')], ct_running = True\<rparr>))) \<noteq> None"
    "parseCpuset (cpu_limit ''0,1,2'' (ct_config \<lparr>ct_config = [(''limits.cpu'', ''lots'')], ct_running = True\<rparr>)) =
       Some (Inl (InvalidCpuset ''lots''))"
    by (simp_all add: parseCpuset_def parse_chunk_def ContainsChar_def cpu_limit_def mhas_def
        Atoi_def ParseInt_def ParseUint_def digit_val_def Let_def)
qed (use demo_cpus in \<open>auto simp: demo_env_def\<close>)

end
