(* ===== verification/Operations.thy ===== *)
theory Operations
  imports Shared_Util
begin

text \<open>
  Background operations of the daemon: \<^verbatim>\<open>lxd/operations.go\<close>, with the status codes of
  \<^verbatim>\<open>shared/api/status_code.go\<close>, \<^verbatim>\<open>shared/cancel/canceler.go\<close> and
  \<^verbatim>\<open>shared.ParseMetadata\<close>.

  An operation is used by many goroutines at once: the callers of \<^verbatim>\<open>Run\<close>, \<^verbatim>\<open>Cancel\<close>,
  \<^verbatim>\<open>Connect\<close> and of the updates, and the goroutines these start.  A thread is a program point
  \<open>pc\<close>; \<open>thread_step\<close> executes it up to the next one.  A section under \<^verbatim>\<open>op.lock\<close> is one
  step, and so is each read or write outside the lock.  The interleavings are the step relation
  \<open>op_step\<close>; a panic of one goroutine (a call of a nil hook, a second close of a channel) ends
  the daemon.  A hook is a flag that says whether it is set, and its result, an error or none, is
  chosen by the environment when it returns: a hook that blocks is a goroutine that takes no
  step before.  The canceler is set by the download of an image only
  (\<^verbatim>\<open>lxd/daemon_images.go\<close>), which is not modelled: the branch of \<^verbatim>\<open>Cancel\<close> that uses it
  is here, but no step of this relation leads to it.  Logging and the notification of event listeners
  are left out.
\<close>

section \<open>Status codes and classes\<close>

datatype StatusCode =
    OperationCreated | Started | Stopped | Running | Cancelling | Pending | Starting | Stopping
  | Aborting | Freezing | Frozen | Thawed | StatusError | Success | Failure | Cancelled

fun status_code :: "StatusCode \<Rightarrow> int" where
  "status_code OperationCreated = 100"
| "status_code Started = 101"
| "status_code Stopped = 102"
| "status_code Running = 103"
| "status_code Cancelling = 104"
| "status_code Pending = 105"
| "status_code Starting = 106"
| "status_code Stopping = 107"
| "status_code Aborting = 108"
| "status_code Freezing = 109"
| "status_code Frozen = 110"
| "status_code Thawed = 111"
| "status_code StatusError = 112"
| "status_code Success = 200"
| "status_code Failure = 400"
| "status_code Cancelled = 401"

fun status_string :: "StatusCode \<Rightarrow> string" where
  "status_string OperationCreated = ''Operation created''"
| "status_string Started = ''Started''"
| "status_string Stopped = ''Stopped''"
| "status_string Running = ''Running''"
| "status_string Cancelling = ''Cancelling''"
| "status_string Pending = ''Pending''"
| "status_string Success = ''Success''"
| "status_string Failure = ''Failure''"
| "status_string Cancelled = ''Cancelled''"
| "status_string Starting = ''Starting''"
| "status_string Stopping = ''Stopping''"
| "status_string Aborting = ''Aborting''"
| "status_string Freezing = ''Freezing''"
| "status_string Frozen = ''Frozen''"
| "status_string Thawed = ''Thawed''"
| "status_string StatusError = ''Error''"

definition IsFinal :: "StatusCode \<Rightarrow> bool" where
  "IsFinal st \<longleftrightarrow> 200 \<le> status_code st"

text \<open>The state of a container as liblxc reports it.\<close>

definition lxcStatusCode :: "int \<Rightarrow> StatusCode option" where
  "lxcStatusCode state = map_of
     [(1, Stopped), (2, Starting), (3, Running), (4, Stopping), (5, Aborting), (6, Freezing),
      (7, Frozen), (8, Thawed), (9, StatusError)] state"

datatype operationClass = ClassTask | ClassWebsocket | ClassToken

fun class_string :: "operationClass \<Rightarrow> string" where
  "class_string ClassTask = ''task''"
| "class_string ClassWebsocket = ''websocket''"
| "class_string ClassToken = ''token''"

section \<open>Metadata\<close>

datatype go_key = StrKey string | OtherKey
datatype go_value = NoValue | MapValue "(go_key, string) gomap" | NilPointer | OtherValue

datatype op_error =
    KeyNotString
  | NotAMap
  | NotPending
  | NotRunning
  | CannotCancel
  | CannotCancelNow
  | NotWebsocket
  | NotUpdatable
  | ReadOnly
  | ConnectHook
  | NoConnectHook
  | TokenRunHook
  | TokenCancelHook
  | NoSuchOperation string

fun metadata_map :: "(go_key, string) gomap \<Rightarrow> strmap \<Rightarrow> op_error + strmap" where
  "metadata_map [] acc = Inr acc"
| "metadata_map ((k, v) # rest) acc = (case k of
     OtherKey \<Rightarrow> Inl KeyNotString
   | StrKey s \<Rightarrow> metadata_map rest (AList.update s v acc))"

definition ParseMetadata :: "go_value \<Rightarrow> op_error + strmap option" where
  "ParseMetadata metadata = (case metadata of
     NoValue \<Rightarrow> Inr None
   | MapValue m \<Rightarrow> (case metadata_map m [] of Inl e \<Rightarrow> Inl e | Inr r \<Rightarrow> Inr (Some r))
   | NilPointer \<Rightarrow> Inr None
   | OtherValue \<Rightarrow> Inl NotAMap)"

section \<open>Operations\<close>

text \<open>The canceler: the pending requests, each with the channel that cancels it.\<close>

type_synonym Canceler = "string list"

definition Cancelable :: "Canceler \<Rightarrow> bool" where
  "Cancelable c \<longleftrightarrow> 0 < length c"

definition canceler_Cancel :: "Canceler \<Rightarrow> op_error + Canceler" where
  "canceler_Cancel c = (if \<not> Cancelable c then Inl CannotCancelNow else Inr [])"

record operation =
  op_id :: string
  op_class :: operationClass
  op_created :: int
  op_updated :: int
  op_status :: StatusCode
  op_url :: string
  op_resources :: "(string, string list) gomap option"
  op_metadata :: "strmap option"
  op_err :: string
  op_readonly :: bool
  op_canceler :: "Canceler option"
  onRun :: bool
  onCancel :: bool
  onConnect :: bool
  chanDone_closed :: bool

definition operationCreate ::
  "string \<Rightarrow> int \<Rightarrow> operationClass \<Rightarrow> (string, string list) gomap option \<Rightarrow> go_value \<Rightarrow>
   bool \<Rightarrow> bool \<Rightarrow> bool \<Rightarrow> (string, operation) gomap \<Rightarrow> op_error + (operation \<times> (string, operation) gomap)" where
  "operationCreate uuid now cls resources metadata run cancel connect operations =
     (case ParseMetadata metadata of
        Inl e \<Rightarrow> Inl e
      | Inr md \<Rightarrow>
          if cls \<noteq> ClassWebsocket \<and> connect then Inl ConnectHook
          else if cls = ClassWebsocket \<and> \<not> connect then Inl NoConnectHook
          else if cls = ClassToken \<and> run then Inl TokenRunHook
          else if cls = ClassToken \<and> cancel then Inl TokenCancelHook
          else
            let op1 = \<lparr>op_id = uuid, op_class = cls, op_created = now, op_updated = now, op_status = Pending,
                       op_url = ''/1.0/operations/'' @ uuid, op_resources = resources, op_metadata = md,
                       op_err = [], op_readonly = False, op_canceler = None,
                       onRun = run, onCancel = cancel, onConnect = connect, chanDone_closed = False\<rparr>
            in Inr (op1, AList.update uuid op1 operations))"

definition operationGet :: "(string, operation) gomap \<Rightarrow> string \<Rightarrow> op_error + operation" where
  "operationGet operations uuid = (case map_of operations uuid of
     None \<Rightarrow> Inl (NoSuchOperation uuid) | Some op1 \<Rightarrow> Inr op1)"

text \<open>The timer that \<^verbatim>\<open>done\<close> starts removes the operation from the map.\<close>

definition operationExpire :: "(string, operation) gomap \<Rightarrow> string \<Rightarrow> (string, operation) gomap" where
  "operationExpire operations uuid = (if \<not> mhas operations uuid then operations else AList.delete uuid operations)"

definition mayCancel :: "operation \<Rightarrow> bool" where
  "mayCancel op1 =
     (if op_class op1 = ClassToken then True
      else if onCancel op1 then True
      else (case op_canceler op1 of None \<Rightarrow> False | Some c \<Rightarrow> Cancelable c))"

record api_operation =
  api_id :: string
  api_class :: string
  api_status :: string
  api_code :: int
  api_resources :: "(string, string list) gomap option"
  api_metadata :: "strmap option"
  api_may_cancel :: bool
  api_err :: string

definition Render :: "operation \<Rightarrow> string \<times> api_operation" where
  "Render op1 = (op_url op1,
     \<lparr>api_id = op_id op1, api_class = class_string (op_class op1), api_status = status_string (op_status op1),
      api_code = status_code (op_status op1),
      api_resources = map_option (map (\<lambda>(key, value). (key, map (\<lambda>c. ''/1.0/'' @ key @ ''/'' @ c) value)))
        (op_resources op1),
      api_metadata = op_metadata op1, api_may_cancel = mayCancel op1, api_err = op_err op1\<rparr>)"

text \<open>
  \<^verbatim>\<open>WaitFinal\<close>; \<open>finishes\<close> says whether \<^verbatim>\<open>chanDone\<close> is closed while it waits (before the
  timer, if there is one).  \<open>None\<close> is waiting for ever.
\<close>

definition WaitFinal :: "operation \<Rightarrow> int \<Rightarrow> bool \<Rightarrow> bool option" where
  "WaitFinal op1 timeout finishes =
     (if IsFinal (op_status op1) then Some True
      else if timeout = -1 then (if finishes then Some True else None)
      else if 0 < timeout then (if finishes then Some False else Some False)
      else Some False)"

text \<open>\<^verbatim>\<open>operationsAPIGet\<close> without recursion: the addresses by lower-case status.\<close>

definition operations_by_status :: "(string, operation) gomap \<Rightarrow> (string, string list) gomap" where
  "operations_by_status ops = foldl (\<lambda>md (_, v).
     let status = ToLower (status_string (op_status v)) in
     AList.update status ((case map_of md status of None \<Rightarrow> [] | Some l \<Rightarrow> l) @ [op_url v]) md) [] ops"

section \<open>Threads\<close>

datatype pc =
    RunCheck | RunLocked | GoRun | InRun | GoFailed string | GoSucceeded
  | DoneCheck | DoneLocked
  | CancelCheck | CancelMay | CancelLocked | CancelBranch StatusCode | CancelRequests | CancelFinish | CancelSet
  | GoCancel StatusCode | InCancel StatusCode | GoCancelFailed StatusCode | GoCancelled
  | ConnectCheck | ConnectLocked | GoConnect | InConnect
  | UpdateCheck "operation \<Rightarrow> operation" | UpdateReadonly "operation \<Rightarrow> operation"
  | UpdateLocked "operation \<Rightarrow> operation"

text \<open>The update of the resources and of the (parsed) metadata, at the time \<open>now\<close>.\<close>

definition set_resources :: "int \<Rightarrow> (string, string list) gomap option \<Rightarrow> operation \<Rightarrow> operation" where
  "set_resources now r op1 = op1\<lparr>op_updated := now, op_resources := r\<rparr>"

definition set_metadata :: "int \<Rightarrow> strmap option \<Rightarrow> operation \<Rightarrow> operation" where
  "set_metadata now md op1 = op1\<lparr>op_updated := now, op_metadata := md\<rparr>"

text \<open>
  One step of a thread: the new operation and the threads that continue it (none when it
  ends, two when it starts a goroutine), \<open>None\<close> when it panics.  \<open>out\<close> is the result of a hook.
\<close>

fun thread_step :: "pc \<Rightarrow> string option \<Rightarrow> operation \<Rightarrow> (operation \<times> pc list) option" where
  "thread_step RunCheck out op1 = Some (op1, if op_status op1 \<noteq> Pending then [] else [RunLocked])"
| "thread_step RunLocked out op1 = Some (op1\<lparr>op_status := Running\<rparr>, if onRun op1 then [GoRun] else [])"
| "thread_step GoRun out op1 = (if onRun op1 then Some (op1, [InRun]) else None)"
| "thread_step InRun out op1 = Some (op1, [case out of Some e \<Rightarrow> GoFailed e | None \<Rightarrow> GoSucceeded])"
| "thread_step (GoFailed e) out op1 = Some (op1\<lparr>op_status := Failure, op_err := e\<rparr>, [DoneCheck])"
| "thread_step GoSucceeded out op1 = Some (op1\<lparr>op_status := Success\<rparr>, [DoneCheck])"
| "thread_step DoneCheck out op1 = Some (op1, if op_readonly op1 then [] else [DoneLocked])"
| "thread_step DoneLocked out op1 =
     (if chanDone_closed op1 then None
      else Some (op1\<lparr>op_readonly := True, onRun := False, onCancel := False, onConnect := False,
                     chanDone_closed := True\<rparr>, []))"
| "thread_step CancelCheck out op1 = Some (op1, if op_status op1 \<noteq> Running then [] else [CancelMay])"
| "thread_step CancelMay out op1 = Some (op1, if \<not> mayCancel op1 then [] else [CancelLocked])"
| "thread_step CancelLocked out op1 = Some (op1\<lparr>op_status := Cancelling\<rparr>, [CancelBranch (op_status op1)])"
| "thread_step (CancelBranch oldStatus) out op1 =
     Some (op1, if onCancel op1 then [GoCancel oldStatus, CancelRequests] else [CancelRequests])"
| "thread_step CancelRequests out op1 = (case op_canceler op1 of
     None \<Rightarrow> Some (op1, [CancelFinish])
   | Some c \<Rightarrow> (case canceler_Cancel c of
       Inl _ \<Rightarrow> Some (op1, [])
     | Inr c' \<Rightarrow> Some (op1\<lparr>op_canceler := Some c'\<rparr>, [CancelFinish])))"
| "thread_step CancelFinish out op1 = Some (op1, if \<not> onCancel op1 then [CancelSet] else [])"
| "thread_step CancelSet out op1 = Some (op1\<lparr>op_status := Cancelled\<rparr>, [DoneCheck])"
| "thread_step (GoCancel oldStatus) out op1 = (if onCancel op1 then Some (op1, [InCancel oldStatus]) else None)"
| "thread_step (InCancel oldStatus) out op1 =
     Some (op1, [case out of Some _ \<Rightarrow> GoCancelFailed oldStatus | None \<Rightarrow> GoCancelled])"
| "thread_step (GoCancelFailed oldStatus) out op1 = Some (op1\<lparr>op_status := oldStatus\<rparr>, [])"
| "thread_step GoCancelled out op1 = Some (op1\<lparr>op_status := Cancelled\<rparr>, [DoneCheck])"
| "thread_step ConnectCheck out op1 =
     Some (op1, if op_class op1 \<noteq> ClassWebsocket then []
                else if op_status op1 \<noteq> Running then [] else [ConnectLocked])"
| "thread_step ConnectLocked out op1 = Some (op1, [GoConnect])"
| "thread_step GoConnect out op1 = (if onConnect op1 then Some (op1, [InConnect]) else None)"
| "thread_step InConnect out op1 = Some (op1, [])"
| "thread_step (UpdateCheck f) out op1 =
     Some (op1, if op_status op1 \<noteq> Pending \<and> op_status op1 \<noteq> Running then [] else [UpdateReadonly f])"
| "thread_step (UpdateReadonly f) out op1 = Some (op1, if op_readonly op1 then [] else [UpdateLocked f])"
| "thread_step (UpdateLocked f) out op1 = Some (f op1, [])"

record op_sys =
  the_op :: operation
  threads :: "pc list"
  panicked :: bool

text \<open>Any thread may do the next step, and a client may call a method at any time.\<close>

definition is_update :: "(operation \<Rightarrow> operation) \<Rightarrow> bool" where
  "is_update f \<longleftrightarrow> (\<exists>now r. f = set_resources now r) \<or> (\<exists>now md. f = set_metadata now md)"

definition entry_points :: "pc set" where
  "entry_points = {RunCheck, CancelCheck, ConnectCheck} \<union> {UpdateCheck f | f. is_update f}"

definition continue_with :: "op_sys \<Rightarrow> nat \<Rightarrow> operation \<Rightarrow> pc list \<Rightarrow> op_sys" where
  "continue_with s i op1 ts = s\<lparr>the_op := op1, threads := take i (threads s) @ ts @ drop (Suc i) (threads s)\<rparr>"

inductive sched_step :: "op_sys \<Rightarrow> op_sys \<Rightarrow> bool" where
  progress: "\<not> panicked s \<Longrightarrow> i < length (threads s) \<Longrightarrow>
    thread_step (threads s ! i) out (the_op s) = Some (op1, ts) \<Longrightarrow> sched_step s (continue_with s i op1 ts)"
| panic: "\<not> panicked s \<Longrightarrow> i < length (threads s) \<Longrightarrow>
    thread_step (threads s ! i) out (the_op s) = None \<Longrightarrow> sched_step s (s\<lparr>panicked := True\<rparr>)"

inductive op_step :: "op_sys \<Rightarrow> op_sys \<Rightarrow> bool" where
  sched: "sched_step s s' \<Longrightarrow> op_step s s'"
| call: "c \<in> entry_points \<Longrightarrow> \<not> panicked s \<Longrightarrow> op_step s (s\<lparr>threads := threads s @ [c]\<rparr>)"

text \<open>The system right after the creation of an operation.\<close>

definition fresh :: "operation \<Rightarrow> op_sys" where
  "fresh op1 = \<lparr>the_op = op1, threads = [], panicked = False\<rparr>"

text \<open>A given schedule: the index of the thread that does the next step and the result of its hook.\<close>

fun run_schedule :: "(nat \<times> string option) list \<Rightarrow> op_sys \<Rightarrow> op_sys" where
  "run_schedule [] s = s"
| "run_schedule ((i, out) # rest) s =
     (if panicked s \<or> length (threads s) \<le> i then s
      else run_schedule rest (case thread_step (threads s ! i) out (the_op s) of
        Some (op1, ts) \<Rightarrow> continue_with s i op1 ts
      | None \<Rightarrow> s\<lparr>panicked := True\<rparr>))"

section \<open>Invariants under every interleaving\<close>

inductive_cases sched_stepE: "sched_step s s'"
inductive_cases op_stepE: "op_step s s'"

definition op_statuses :: "StatusCode set" where
  "op_statuses = {Pending, Running, Cancelling, Success, Failure, Cancelled}"

lemma op_statuses_mem [simp]:
  "Pending \<in> op_statuses" "Running \<in> op_statuses" "Cancelling \<in> op_statuses"
  "Success \<in> op_statuses" "Failure \<in> op_statuses" "Cancelled \<in> op_statuses"
  by (simp_all add: op_statuses_def)

fun pc_ok :: "pc \<Rightarrow> bool" where
  "pc_ok (UpdateCheck f) = is_update f"
| "pc_ok (UpdateReadonly f) = is_update f"
| "pc_ok (UpdateLocked f) = is_update f"
| "pc_ok (CancelBranch st) = (st \<in> op_statuses)"
| "pc_ok (GoCancel st) = (st \<in> op_statuses)"
| "pc_ok (InCancel st) = (st \<in> op_statuses)"
| "pc_ok (GoCancelFailed st) = (st \<in> op_statuses)"
| "pc_ok _ = True"

text \<open>What holds of an operation between any two steps.\<close>

definition op_ok :: "operation \<Rightarrow> bool" where
  "op_ok op1 \<longleftrightarrow>
     (op_readonly op1 \<longleftrightarrow> chanDone_closed op1) \<and>
     (op_readonly op1 \<longrightarrow> \<not> onRun op1 \<and> \<not> onCancel op1 \<and> \<not> onConnect op1) \<and>
     (op_class op1 \<noteq> ClassWebsocket \<longrightarrow> \<not> onConnect op1) \<and>
     (op_class op1 = ClassToken \<longrightarrow> \<not> onRun op1 \<and> \<not> onCancel op1) \<and>
     op_status op1 \<in> op_statuses"

lemma is_update_frame:
  assumes "is_update f"
  shows "op_status (f op1) = op_status op1" "op_readonly (f op1) = op_readonly op1"
    "onRun (f op1) = onRun op1" "onCancel (f op1) = onCancel op1" "onConnect (f op1) = onConnect op1"
    "op_class (f op1) = op_class op1" "chanDone_closed (f op1) = chanDone_closed op1"
    "op_id (f op1) = op_id op1" "op_err (f op1) = op_err op1"
  using assms by (auto simp: is_update_def set_resources_def set_metadata_def)

lemma op_ok_status: "op_ok op1 \<Longrightarrow> st \<in> op_statuses \<Longrightarrow> op_ok (op1\<lparr>op_status := st\<rparr>)"
  by (simp add: op_ok_def)

lemma op_ok_failed: "op_ok op1 \<Longrightarrow> op_ok (op1\<lparr>op_status := Failure, op_err := e\<rparr>)"
  by (simp add: op_ok_def)

lemma op_ok_canceler: "op_ok op1 \<Longrightarrow> op_ok (op1\<lparr>op_canceler := c\<rparr>)"
  by (simp add: op_ok_def)

lemma op_ok_done: "op_ok op1 \<Longrightarrow>
  op_ok (op1\<lparr>op_readonly := True, onRun := False, onCancel := False, onConnect := False, chanDone_closed := True\<rparr>)"
  by (simp add: op_ok_def)

lemma op_ok_update: "op_ok op1 \<Longrightarrow> is_update f \<Longrightarrow> op_ok (f op1)"
  by (simp add: op_ok_def is_update_frame)

lemma op_ok_statuses: "op_ok op1 \<Longrightarrow> op_status op1 \<in> op_statuses"
  by (simp add: op_ok_def)

text \<open>What a step leaves alone, and what it keeps.\<close>

lemma thread_step_frame:
  assumes "thread_step p out op1 = Some (op2, ts)" "pc_ok p"
  shows "op_id op2 = op_id op1 \<and> op_class op2 = op_class op1 \<and> (op_readonly op1 \<longrightarrow> op_readonly op2)"
proof (cases "(p, out, op1)" rule: thread_step.cases)
  case (13 out op1)
  with assms show ?thesis by (auto split: option.splits sum.splits)
qed (use assms in \<open>auto simp: is_update_frame split: if_splits\<close>)

lemma thread_step_op_ok:
  assumes "thread_step p out op1 = Some (op2, ts)" "op_ok op1" "pc_ok p"
  shows "op_ok op2"
proof (cases "(p, out, op1)" rule: thread_step.cases)
  case (13 out op1)
  with assms show ?thesis by (auto simp: op_ok_canceler split: option.splits sum.splits)
qed (use assms in \<open>auto simp: op_ok_status op_ok_failed op_ok_done op_ok_update split: if_splits\<close>)

lemma thread_step_pc_ok:
  assumes "thread_step p out op1 = Some (op2, ts)" "op_ok op1" "pc_ok p"
  shows "list_all pc_ok ts"
proof (cases "(p, out, op1)" rule: thread_step.cases)
  case (13 out op1)
  with assms show ?thesis by (auto split: option.splits sum.splits)
qed (use assms in \<open>auto simp: op_ok_statuses split: if_splits option.splits\<close>)

lemmas thread_step_inv = thread_step_frame thread_step_op_ok thread_step_pc_ok

lemma entry_points_ok: "c \<in> entry_points \<Longrightarrow> pc_ok c"
  by (auto simp: entry_points_def)

lemma list_all_splice:
  "list_all P xs \<Longrightarrow> list_all P ts \<Longrightarrow> list_all P (take i xs @ ts @ drop j xs)"
  by (auto simp: list_all_iff dest: in_set_takeD in_set_dropD)

definition sys_ok :: "operation \<Rightarrow> op_sys \<Rightarrow> bool" where
  "sys_ok op0 s \<longleftrightarrow> op_ok (the_op s) \<and> list_all pc_ok (threads s) \<and>
     op_id (the_op s) = op_id op0 \<and> op_class (the_op s) = op_class op0"

lemma sched_step_inv: "sched_step s s' \<Longrightarrow> sys_ok op0 s \<Longrightarrow> sys_ok op0 s'"
proof (erule sched_stepE)
  fix i out op1 ts
  assume s: "sys_ok op0 s" "s' = continue_with s i op1 ts" "i < length (threads s)"
    "thread_step (threads s ! i) out (the_op s) = Some (op1, ts)"
  then have pc: "pc_ok (threads s ! i)" and op: "op_ok (the_op s)"
    by (simp_all add: sys_ok_def list_all_length)
  show "sys_ok op0 s'"
    using s thread_step_frame [OF s(4) pc] thread_step_op_ok [OF s(4) op pc] thread_step_pc_ok [OF s(4) op pc]
    by (simp add: sys_ok_def continue_with_def list_all_splice del: list_all_append)
qed (simp add: sys_ok_def)

lemma op_step_inv: "op_step s s' \<Longrightarrow> sys_ok op0 s \<Longrightarrow> sys_ok op0 s'"
  by (erule op_stepE) (auto simp: sched_step_inv, auto simp: sys_ok_def entry_points_ok)

lemma op_steps_inv: "op_step\<^sup>*\<^sup>* s s' \<Longrightarrow> sys_ok op0 s \<Longrightarrow> sys_ok op0 s'"
  by (induction rule: rtranclp_induct) (auto intro: op_step_inv)

lemma operationCreate_ok:
  "operationCreate uuid now cls resources metadata run cancel connect ops = Inr (op1, ops') \<Longrightarrow>
   op_ok op1 \<and> op_status op1 = Pending \<and> \<not> op_readonly op1 \<and> onRun op1 = run \<and> op_err op1 = []"
  by (auto simp: operationCreate_def op_ok_def Let_def split: sum.splits if_splits)

section \<open>Schedules are runs\<close>

lemma run_schedule_steps: "sched_step\<^sup>*\<^sup>* s (run_schedule sched s)"
proof (induction sched s rule: run_schedule.induct)
  case (2 i out rest s)
  show ?case
  proof (cases "panicked s \<or> length (threads s) \<le> i")
    case False
    let ?s = "case thread_step (threads s ! i) out (the_op s) of
        Some (op1, ts) \<Rightarrow> continue_with s i op1 ts | None \<Rightarrow> s\<lparr>panicked := True\<rparr>"
    have "sched_step s ?s"
      using False sched_step.panic [of s i out] by (auto split: option.splits intro: sched_step.progress)
    with 2 False show ?thesis by (auto intro: converse_rtranclp_into_rtranclp)
  qed auto
qed simp

lemma sched_op_steps: "sched_step\<^sup>*\<^sup>* s s' \<Longrightarrow> op_step\<^sup>*\<^sup>* s s'"
  by (induction rule: rtranclp_induct) (auto intro: op_step.sched rtranclp.rtrancl_into_rtrancl)

lemma calls_reachable: "set cs \<subseteq> entry_points \<Longrightarrow> op_step\<^sup>*\<^sup>* (fresh op1) ((fresh op1)\<lparr>threads := cs\<rparr>)"
proof (induction cs rule: rev_induct)
  case (snoc c cs)
  then have "op_step\<^sup>*\<^sup>* (fresh op1) ((fresh op1)\<lparr>threads := cs\<rparr>)" by simp
  moreover have "op_step ((fresh op1)\<lparr>threads := cs\<rparr>) ((fresh op1)\<lparr>threads := cs @ [c]\<rparr>)"
    using op_step.call [of c "(fresh op1)\<lparr>threads := cs\<rparr>"] snoc.prems by (simp add: fresh_def)
  ultimately show ?case by simp
qed (simp add: fresh_def)

lemma schedule_reachable:
  "set cs \<subseteq> entry_points \<Longrightarrow> op_step\<^sup>*\<^sup>* (fresh op1) (run_schedule sched ((fresh op1)\<lparr>threads := cs\<rparr>))"
  using calls_reachable sched_op_steps run_schedule_steps by (metis rtranclp_trans)

section \<open>Termination\<close>

text \<open>The number of steps a thread, with the threads it starts, can still do at most.\<close>

fun weight :: "pc \<Rightarrow> nat" where
  "weight RunCheck = 7"
| "weight RunLocked = 6"
| "weight GoRun = 5"
| "weight InRun = 4"
| "weight (GoFailed e) = 3"
| "weight GoSucceeded = 3"
| "weight DoneCheck = 2"
| "weight DoneLocked = 1"
| "weight CancelCheck = 14"
| "weight CancelMay = 13"
| "weight CancelLocked = 12"
| "weight (CancelBranch st) = 11"
| "weight CancelRequests = 5"
| "weight CancelFinish = 4"
| "weight CancelSet = 3"
| "weight (GoCancel st) = 5"
| "weight (InCancel st) = 4"
| "weight (GoCancelFailed st) = 1"
| "weight GoCancelled = 3"
| "weight ConnectCheck = 4"
| "weight ConnectLocked = 3"
| "weight GoConnect = 2"
| "weight InConnect = 1"
| "weight (UpdateCheck f) = 3"
| "weight (UpdateReadonly f) = 2"
| "weight (UpdateLocked f) = 1"

definition remaining :: "op_sys \<Rightarrow> nat" where
  "remaining s = (if panicked s then 0 else Suc (sum_list (map weight (threads s))))"

lemma thread_step_weight:
  assumes "thread_step p out op1 = Some (op2, ts)"
  shows "sum_list (map weight ts) < weight p"
proof (cases "(p, out, op1)" rule: thread_step.cases)
  case (13 out op1)
  with assms show ?thesis by (auto split: option.splits sum.splits)
qed (use assms in \<open>auto split: if_splits option.splits\<close>)

lemma map_splice: "i < length xs \<Longrightarrow> xs = take i xs @ xs ! i # drop (Suc i) xs"
  by (rule id_take_nth_drop)

lemma sum_splice:
  fixes g :: "'a \<Rightarrow> nat"
  assumes "i < length xs" "sum_list (map g ts) < g (xs ! i)"
  shows "sum_list (map g (take i xs @ ts @ drop (Suc i) xs)) < sum_list (map g xs)"
  using assms by (subst (3) map_splice [OF assms(1)]) simp

lemma sched_step_decreases: "sched_step s s' \<Longrightarrow> remaining s' < remaining s"
proof (erule sched_stepE)
  fix i out op1 ts
  assume s: "s' = continue_with s i op1 ts" "\<not> panicked s" "i < length (threads s)"
    "thread_step (threads s ! i) out (the_op s) = Some (op1, ts)"
  with sum_splice [OF s(3), of weight ts] thread_step_weight [OF s(4)]
  show "remaining s' < remaining s" by (simp add: remaining_def continue_with_def)
qed (simp add: remaining_def)

lemma sched_progress: "\<not> panicked s \<Longrightarrow> threads s \<noteq> [] \<Longrightarrow> \<exists>s'. sched_step s s'"
proof -
  assume s: "\<not> panicked s" "threads s \<noteq> []"
  then have "0 < length (threads s)" by simp
  then show ?thesis
    using s sched_step.progress [of s 0 None] sched_step.panic [of s 0 None]
    by (cases "thread_step (threads s ! 0) None (the_op s)") auto
qed

section \<open>One run\<close>

fun is_update_pc :: "pc \<Rightarrow> bool" where
  "is_update_pc (UpdateCheck f) = is_update f"
| "is_update_pc (UpdateReadonly f) = is_update f"
| "is_update_pc (UpdateLocked f) = is_update f"
| "is_update_pc _ = False"

text \<open>How far the run is: the threads that are not updates, with the state of the operation.\<close>

fun run_at :: "operation \<Rightarrow> pc list \<Rightarrow> bool" where
  "run_at op1 [] = (op_status op1 \<in> {Success, Failure} \<and> op_readonly op1 \<and> chanDone_closed op1)"
| "run_at op1 [RunCheck] = (op_status op1 = Pending \<and> \<not> op_readonly op1 \<and> \<not> chanDone_closed op1 \<and> onRun op1)"
| "run_at op1 [RunLocked] = (op_status op1 = Pending \<and> \<not> op_readonly op1 \<and> \<not> chanDone_closed op1 \<and> onRun op1)"
| "run_at op1 [GoRun] = (op_status op1 = Running \<and> \<not> op_readonly op1 \<and> \<not> chanDone_closed op1 \<and> onRun op1)"
| "run_at op1 [InRun] = (op_status op1 = Running \<and> \<not> op_readonly op1 \<and> \<not> chanDone_closed op1)"
| "run_at op1 [GoFailed e] = (op_status op1 = Running \<and> \<not> op_readonly op1 \<and> \<not> chanDone_closed op1)"
| "run_at op1 [GoSucceeded] = (op_status op1 = Running \<and> \<not> op_readonly op1 \<and> \<not> chanDone_closed op1)"
| "run_at op1 [DoneCheck] = (op_status op1 \<in> {Success, Failure} \<and> \<not> op_readonly op1 \<and> \<not> chanDone_closed op1)"
| "run_at op1 [DoneLocked] = (op_status op1 \<in> {Success, Failure} \<and> \<not> op_readonly op1 \<and> \<not> chanDone_closed op1)"
| "run_at op1 _ = False"

lemma run_at_frame: "is_update f \<Longrightarrow> run_at (f op1) ps = run_at op1 ps"
  by (cases "(op1, ps)" rule: run_at.cases) (simp_all add: is_update_frame)

lemma run_at_step:
  assumes "run_at op1 [p]"
  shows "\<exists>op2 ts. thread_step p out op1 = Some (op2, ts) \<and> run_at op2 ts \<and> list_all (\<lambda>t. \<not> is_update_pc t) ts"
  using assms by (cases p) (auto split: option.splits)

definition run_only :: "op_sys \<Rightarrow> bool" where
  "run_only s \<longleftrightarrow> \<not> panicked s \<and> run_at (the_op s) (filter (\<lambda>t. \<not> is_update_pc t) (threads s))"

lemma filter_splice:
  "i < length xs \<Longrightarrow> filter P xs =
    filter P (take i xs) @ (if P (xs ! i) then [xs ! i] else []) @ filter P (drop (Suc i) xs)"
  by (subst (1) map_splice) (simp_all only: filter_append filter.simps append_Cons append_Nil split: if_splits, simp_all)

lemma run_at_single: "run_at op1 (xs @ [p] @ ys) \<Longrightarrow> xs = [] \<and> ys = []"
  by (cases xs; cases ys) (auto elim: run_at.elims)

lemma update_step:
  assumes "is_update_pc p"
  shows "\<exists>op2 ts. thread_step p out op1 = Some (op2, ts) \<and> (op2 = op1 \<or> (\<exists>f. is_update f \<and> op2 = f op1)) \<and>
    list_all is_update_pc ts"
  using assms by (cases p) auto

lemma run_only_step: "sched_step s s' \<Longrightarrow> run_only s \<Longrightarrow> run_only s'"
proof -
  assume step: "sched_step s s'" and inv: "run_only s"
  let ?P = "\<lambda>t. \<not> is_update_pc t"
  have key: "\<exists>op2 ts. thread_step (threads s ! i) out (the_op s) = Some (op2, ts) \<and>
      run_at op2 (filter ?P (take i (threads s) @ ts @ drop (Suc i) (threads s)))"
    if i: "i < length (threads s)" for i out
  proof (cases "is_update_pc (threads s ! i)")
    case True
    then obtain op2 ts where st: "thread_step (threads s ! i) out (the_op s) = Some (op2, ts)"
      "op2 = the_op s \<or> (\<exists>f. is_update f \<and> op2 = f (the_op s))" "list_all is_update_pc ts"
      using update_step by meson
    have "filter ?P ts = []" using st(3) by (simp add: filter_empty_conv list_all_iff)
    then have "filter ?P (take i (threads s) @ ts @ drop (Suc i) (threads s)) = filter ?P (threads s)"
      using filter_splice [OF i, of ?P] True by simp
    with st inv show ?thesis by (auto simp: run_only_def run_at_frame)
  next
    case False
    then have split: "filter ?P (threads s) =
        filter ?P (take i (threads s)) @ [threads s ! i] @ filter ?P (drop (Suc i) (threads s))"
      using filter_splice [OF i, of ?P] by simp
    with inv have alone: "filter ?P (take i (threads s)) = []" "filter ?P (drop (Suc i) (threads s)) = []"
      "run_at (the_op s) [threads s ! i]"
      using run_at_single unfolding run_only_def by (metis, metis, metis append_Nil append_Nil2)
    from run_at_step [OF alone(3), of out] obtain op2 ts where
      "thread_step (threads s ! i) out (the_op s) = Some (op2, ts)" "run_at op2 ts" "list_all ?P ts" by blast
    moreover from this(3) have "filter ?P ts = ts" by (simp add: filter_id_conv list_all_iff)
    ultimately show ?thesis using alone(1,2) by simp
  qed
  from step show ?thesis
  proof (rule sched_stepE)
    fix i out op1 ts
    assume "s' = continue_with s i op1 ts" "i < length (threads s)"
      "thread_step (threads s ! i) out (the_op s) = Some (op1, ts)"
    with key [of i out] inv show ?thesis by (auto simp: run_only_def continue_with_def)
  next
    fix i out
    assume "i < length (threads s)" "thread_step (threads s ! i) out (the_op s) = None"
    with key [of i out] show ?thesis by auto
  qed
qed

lemma run_only_steps: "sched_step\<^sup>*\<^sup>* s s' \<Longrightarrow> run_only s \<Longrightarrow> run_only s'"
  by (induction rule: rtranclp_induct) (auto intro: run_only_step)

section \<open>Properties\<close>

text \<open>
  C16.  Whatever is called on an operation and however the goroutines interleave, between any
  two steps it is read-only exactly when its channel is closed, a read-only operation has no
  hooks, only a websocket operation has a connect hook and a token operation has neither a run
  nor a cancel hook, and its id and class are those of its creation.
\<close>

theorem op_reachable_ok:
  assumes "operationCreate uuid now cls resources metadata run cancel connect ops = Inr (op0, ops')"
    and "op_step\<^sup>*\<^sup>* (fresh op0) s"
  shows "op_ok (the_op s) \<and> op_id (the_op s) = uuid \<and> op_class (the_op s) = cls"
proof -
  have "op_ok op0" using operationCreate_ok [OF assms(1)] by simp
  then have "sys_ok op0 (fresh op0)" by (simp add: sys_ok_def fresh_def)
  from op_steps_inv [OF assms(2) this] have "sys_ok op0 s" .
  moreover have "op_id op0 = uuid" "op_class op0 = cls"
    using assms(1) by (auto simp: operationCreate_def Let_def split: sum.splits if_splits)
  ultimately show ?thesis by (simp add: sys_ok_def)
qed

definition demo_op :: operation where
  "demo_op = \<lparr>op_id = ''x'', op_class = ClassTask, op_created = 0, op_updated = 0, op_status = Pending,
     op_url = ''/1.0/operations/x'', op_resources = None, op_metadata = None, op_err = [], op_readonly = False,
     op_canceler = None, onRun = True, onCancel = True, onConnect = False, chanDone_closed = False\<rparr>"

lemma demo_op_created:
  "operationCreate ''x'' 0 ClassTask None NoValue True True False [] = Inr (demo_op, [(''x'', demo_op)])"
  by (simp add: operationCreate_def ParseMetadata_def demo_op_def Let_def)

definition demo_state :: "pc list \<Rightarrow> (nat \<times> string option) list \<Rightarrow> op_sys" where
  "demo_state calls sched = run_schedule sched ((fresh demo_op)\<lparr>threads := calls\<rparr>)"

lemma demo_reachable: "set calls \<subseteq> entry_points \<Longrightarrow> op_step\<^sup>*\<^sup>* (fresh demo_op) (demo_state calls sched)"
  unfolding demo_state_def by (rule schedule_reachable)

lemmas demo_run = demo_state_def demo_op_def fresh_def continue_with_def mayCancel_def

theorem op_reachable_ok_witness:
  "op_ok (the_op (demo_state [RunCheck] [(0, None), (0, None), (0, None), (0, None), (0, None), (0, None), (0, None)])) \<and>
   op_readonly (the_op (demo_state [RunCheck] [(0, None), (0, None), (0, None), (0, None), (0, None), (0, None), (0, None)]))"
proof
  show "op_ok (the_op (demo_state [RunCheck] [(0, None), (0, None), (0, None), (0, None), (0, None), (0, None), (0, None)]))"
    using op_reachable_ok [OF demo_op_created demo_reachable] by (simp add: entry_points_def)
qed (simp add: demo_run)

text \<open>
  C7.  An operation whose hook is run once, with any number of concurrent updates and no
  cancellation, never panics, and when nothing is left to do it is final (a success or a
  failure), read-only and its channel is closed.
\<close>

theorem op_run_completes:
  assumes "operationCreate uuid now cls resources metadata True cancel connect ops = Inr (op0, ops')"
    and "list_all is_update_pc us" "sched_step\<^sup>*\<^sup>* ((fresh op0)\<lparr>threads := RunCheck # us\<rparr>) s"
  shows "\<not> panicked s \<and>
    ((\<nexists>s'. sched_step s s') \<longrightarrow>
       threads s = [] \<and> op_status (the_op s) \<in> {Success, Failure} \<and>
       op_readonly (the_op s) \<and> chanDone_closed (the_op s))"
proof -
  have op0: "op_ok op0" "op_status op0 = Pending" "\<not> op_readonly op0" "onRun op0"
    using operationCreate_ok [OF assms(1)] by simp_all
  have none: "filter (\<lambda>t. \<not> is_update_pc t) us = []"
    using assms(2) by (simp add: filter_empty_conv list_all_iff)
  have "run_only ((fresh op0)\<lparr>threads := RunCheck # us\<rparr>)"
    using op0 none by (simp add: run_only_def fresh_def op_ok_def)
  from run_only_steps [OF assms(3) this] have inv: "run_only s" .
  then have "\<not> panicked s" by (simp add: run_only_def)
  moreover have "threads s = []" if "\<nexists>s'. sched_step s s'"
    using that sched_progress [OF \<open>\<not> panicked s\<close>] by blast
  ultimately show ?thesis using inv by (auto simp: run_only_def)
qed

theorem op_run_completes_witness:
  "op_status (the_op (demo_state [RunCheck] (replicate 7 (0, Some ''no space'')))) = Failure \<and>
   \<not> panicked (demo_state [RunCheck] (replicate 7 (0, Some ''no space'')))"
proof
  have "sched_step\<^sup>*\<^sup>* ((fresh demo_op)\<lparr>threads := RunCheck # []\<rparr>)
      (demo_state [RunCheck] (replicate 7 (0, Some ''no space'')))"
    unfolding demo_state_def by (rule run_schedule_steps)
  from op_run_completes [OF demo_op_created _ this]
  show "\<not> panicked (demo_state [RunCheck] (replicate 7 (0, Some ''no space'')))" by simp
qed (simp add: demo_run eval_nat_numeral)

text \<open>
   From any state the goroutines of an operation come to rest: without new calls there is
  no infinite sequence of steps, and \<open>remaining\<close> bounds their number.
\<close>

theorem op_sched_terminates:
  assumes "(sched_step ^^ n) s s'"
  shows "n + remaining s' \<le> remaining s"
  using assms
proof (induction n arbitrary: s')
  case (Suc n)
  then obtain t where t: "(sched_step ^^ n) s t" "sched_step t s'" by auto
  from Suc.IH [OF t(1)] sched_step_decreases [OF t(2)] show ?case by simp
qed simp

theorem op_sched_terminates_witness: "remaining ((fresh demo_op)\<lparr>threads := [RunLocked]\<rparr>) \<le> 7"
proof -
  have "sched_step ((fresh demo_op)\<lparr>threads := [RunCheck]\<rparr>) ((fresh demo_op)\<lparr>threads := [RunLocked]\<rparr>)"
    using sched_step.progress [of "(fresh demo_op)\<lparr>threads := [RunCheck]\<rparr>" 0 None demo_op "[RunLocked]"]
    by (simp add: demo_run)
  then have "(sched_step ^^ 1) ((fresh demo_op)\<lparr>threads := [RunCheck]\<rparr>) ((fresh demo_op)\<lparr>threads := [RunLocked]\<rparr>)"
    by (simp only: relpowp_1)
  from op_sched_terminates [OF this] show ?thesis by (simp add: remaining_def fresh_def)
qed

text \<open>
   Finding: a cancellation that races with the end of the run brings the daemon down.  Both
  goroutines can pass the unlocked test of \<^verbatim>\<open>readonly\<close> in \<^verbatim>\<open>done\<close>, and the second one closes
  the closed channel; or the cancellation completes between the start of the run goroutine and
  its call of \<^verbatim>\<open>op.onRun\<close>, which is nil by then.
\<close>

definition cancel_first :: "nat \<Rightarrow> (nat \<times> string option) list" where
  "cancel_first n = replicate n (0, None) @ replicate 7 (1, None)"

theorem op_cancel_race_panics:
  "(\<exists>s. op_step\<^sup>*\<^sup>* (fresh demo_op) s \<and> panicked s \<and> threads s = [DoneLocked, CancelRequests]) \<and>
   (\<exists>s. op_step\<^sup>*\<^sup>* (fresh demo_op) s \<and> panicked s \<and> threads s = [GoRun, CancelRequests])"
proof
  let ?s = "demo_state [RunCheck, CancelCheck] (cancel_first 3 @ (1, None) # replicate 5 (0, None))"
  have "panicked ?s \<and> threads ?s = [DoneLocked, CancelRequests]"
    by (simp add: cancel_first_def demo_run eval_nat_numeral)
  then show "\<exists>s. op_step\<^sup>*\<^sup>* (fresh demo_op) s \<and> panicked s \<and> threads s = [DoneLocked, CancelRequests]"
    using demo_reachable [of "[RunCheck, CancelCheck]"] by (force simp: entry_points_def)
next
  let ?t = "demo_state [RunCheck, CancelCheck] (cancel_first 2 @ [(1, None), (1, None), (0, None)])"
  have "panicked ?t \<and> threads ?t = [GoRun, CancelRequests]"
    by (simp add: cancel_first_def demo_run eval_nat_numeral)
  then show "\<exists>s. op_step\<^sup>*\<^sup>* (fresh demo_op) s \<and> panicked s \<and> threads s = [GoRun, CancelRequests]"
    using demo_reachable [of "[RunCheck, CancelCheck]"] by (force simp: entry_points_def)
qed

text \<open>
   Finding: a final status is not final.  A cancelled operation can become a success, and an
  operation whose cancel hook fails after the run has ended shows \<^verbatim>\<open>Running\<close> for ever: nothing
  is left to do, it is read-only, and \<^verbatim>\<open>WaitFinal\<close> with a timeout never reports it as done.
\<close>

theorem op_final_status_lost:
  "(\<exists>s t. op_step\<^sup>*\<^sup>* (fresh demo_op) s \<and> op_step\<^sup>*\<^sup>* s t \<and>
      op_status (the_op s) = Cancelled \<and> op_readonly (the_op s) \<and> op_status (the_op t) = Success) \<and>
   (\<exists>s. op_step\<^sup>*\<^sup>* (fresh demo_op) s \<and> threads s = [] \<and> op_readonly (the_op s) \<and>
      op_status (the_op s) = Running \<and> (\<forall>n. WaitFinal (the_op s) (int (Suc n)) True = Some False))"
proof
  let ?s = "demo_state [RunCheck, CancelCheck] (cancel_first 3 @ [(1, None), (1, None)])"
  let ?t = "run_schedule [(0, None), (0, None)] ?s"
  have "op_status (the_op ?s) = Cancelled \<and> op_readonly (the_op ?s) \<and> op_status (the_op ?t) = Success"
    by (simp add: cancel_first_def demo_run eval_nat_numeral)
  moreover have "op_step\<^sup>*\<^sup>* (fresh demo_op) ?s"
    by (rule demo_reachable) (simp add: entry_points_def)
  moreover have "op_step\<^sup>*\<^sup>* ?s ?t" by (rule sched_op_steps) (rule run_schedule_steps)
  ultimately show "\<exists>s t. op_step\<^sup>*\<^sup>* (fresh demo_op) s \<and> op_step\<^sup>*\<^sup>* s t \<and>
      op_status (the_op s) = Cancelled \<and> op_readonly (the_op s) \<and> op_status (the_op t) = Success" by blast
next
  let ?s = "demo_state [RunCheck, CancelCheck]
    (replicate 3 (0, None) @ replicate 4 (1, None) @ [(2, None), (2, None), (1, None)] @
     replicate 4 (0, None) @ [(0, Some ''busy''), (0, None)])"
  have "threads ?s = [] \<and> op_readonly (the_op ?s) \<and> op_status (the_op ?s) = Running"
    by (simp add: demo_run eval_nat_numeral)
  moreover have "op_step\<^sup>*\<^sup>* (fresh demo_op) ?s"
    by (rule demo_reachable) (simp add: entry_points_def)
  moreover have "\<forall>n. WaitFinal (the_op ?s) (int (Suc n)) True = Some False"
    using calculation(1) by (simp add: WaitFinal_def IsFinal_def)
  ultimately show "\<exists>s. op_step\<^sup>*\<^sup>* (fresh demo_op) s \<and> threads s = [] \<and> op_readonly (the_op s) \<and>
      op_status (the_op s) = Running \<and> (\<forall>n. WaitFinal (the_op s) (int (Suc n)) True = Some False)"
    by blast
qed

end
