(* ===== verification/Gnuflag.thy ===== *)
theory Gnuflag
  imports Go_Strings
begin

text \<open>
  Command lines: the parser of \<^verbatim>\<open>shared/gnuflag/flag.go\<close> and the one of
  \<^verbatim>\<open>shared/cmd/parser.go\<close> on top of it.

  A flag set is a record; the flags share their values with the caller, so the values are kept
  in the map of the defined flags.  Strings are bytes, so the length of a rune is that of its
  UTF-8 encoding.  The loop of \<^verbatim>\<open>Parse\<close> ends because each round consumes bytes of the
  command line.
\<close>

section \<open>Values\<close>

datatype flag_value =
    BoolValue bool
  | IntValue int
  | Int64Value int
  | UintValue nat
  | Uint64Value nat
  | StringValue string

definition ParseBool :: "string \<Rightarrow> bool \<times> num_error option" where
  "ParseBool s =
     (if s \<in> set [''1'', ''t'', ''T'', ''true'', ''TRUE'', ''True''] then (True, None)
      else if s \<in> set [''0'', ''f'', ''F'', ''false'', ''FALSE'', ''False''] then (False, None)
      else (False, Some ErrSyntax))"

text \<open>The value is assigned even when there is an error.\<close>

fun value_Set :: "flag_value \<Rightarrow> string \<Rightarrow> flag_value \<times> num_error option" where
  "value_Set (BoolValue _) s = (case ParseBool s of (v, e) \<Rightarrow> (BoolValue v, e))"
| "value_Set (IntValue _) s = (case ParseInt s 0 64 of (v, e) \<Rightarrow> (IntValue v, e))"
| "value_Set (Int64Value _) s = (case ParseInt s 0 64 of (v, e) \<Rightarrow> (Int64Value v, e))"
| "value_Set (UintValue _) s = (case ParseUint s 0 64 of (v, e) \<Rightarrow> (UintValue v, e))"
| "value_Set (Uint64Value _) s = (case ParseUint s 0 64 of (v, e) \<Rightarrow> (Uint64Value v, e))"
| "value_Set (StringValue _) s = (StringValue s, None)"

fun value_is_bool :: "flag_value \<Rightarrow> bool" where
  "value_is_bool (BoolValue _) = True"
| "value_is_bool _ = False"

section \<open>Flag sets\<close>

datatype flag_error =
    EmptyFlag string
  | ErrHelp
  | NotDefined string
  | NeedsArgument string
  | InvalidFlagValue string string num_error
  | NoSuchFlag string
  | ValueError num_error

datatype error_handling = ContinueOnError | ExitOnError | PanicOnError

record flag_set =
  formal :: "(string, flag_value) gomap"
  actual :: "string list"
  f_args :: "string list"
  procArgs :: "string list"
  procFlag :: string
  allowIntersperse :: bool
  errorHandling :: error_handling
  usage_shown :: nat

definition add_actual :: "string \<Rightarrow> string list \<Rightarrow> string list" where
  "add_actual name names = (if name \<in> set names then names else names @ [name])"

definition flag_Set :: "flag_set \<Rightarrow> string \<Rightarrow> string \<Rightarrow> flag_set \<times> flag_error option" where
  "flag_Set f name s = (case map_of (formal f) name of
     None \<Rightarrow> (f, Some (NoSuchFlag name))
   | Some flag \<Rightarrow> (case value_Set flag s of
       (v, Some e) \<Rightarrow> (f\<lparr>formal := AList.update name v (formal f)\<rparr>, Some (ValueError e))
     | (v, None) \<Rightarrow> (f\<lparr>formal := AList.update name v (formal f), actual := add_actual name (actual f)\<rparr>, None)))"

text \<open>\<^verbatim>\<open>Var\<close>: defining a flag twice panics.\<close>

definition flag_Var :: "flag_set \<Rightarrow> flag_value \<Rightarrow> string \<Rightarrow> flag_set option" where
  "flag_Var f v name =
     (if mhas (formal f) name then None else Some (f\<lparr>formal := AList.update name v (formal f)\<rparr>))"

section \<open>Runes\<close>

definition byte_between :: "char \<Rightarrow> nat \<Rightarrow> nat \<Rightarrow> bool" where
  "byte_between c lo hi \<longleftrightarrow> lo \<le> (of_char c :: nat) \<and> (of_char c :: nat) \<le> hi"

text \<open>The number of bytes of the first rune, one for an invalid encoding.\<close>

definition rune_len :: "string \<Rightarrow> nat" where
  "rune_len s =
     (if s = [] then 0
      else if byte_between (s ! 0) 0xC2 0xDF \<and> 1 < length s \<and> byte_between (s ! 1) 0x80 0xBF then 2
      else if 2 < length s \<and> byte_between (s ! 2) 0x80 0xBF \<and>
        (byte_between (s ! 0) 0xE0 0xE0 \<and> byte_between (s ! 1) 0xA0 0xBF \<or>
         byte_between (s ! 0) 0xED 0xED \<and> byte_between (s ! 1) 0x80 0x9F \<or>
         (byte_between (s ! 0) 0xE1 0xEC \<or> byte_between (s ! 0) 0xEE 0xEF) \<and> byte_between (s ! 1) 0x80 0xBF) then 3
      else if 3 < length s \<and> byte_between (s ! 2) 0x80 0xBF \<and> byte_between (s ! 3) 0x80 0xBF \<and>
        (byte_between (s ! 0) 0xF0 0xF0 \<and> byte_between (s ! 1) 0x90 0xBF \<or>
         byte_between (s ! 0) 0xF1 0xF3 \<and> byte_between (s ! 1) 0x80 0xBF \<or>
         byte_between (s ! 0) 0xF4 0xF4 \<and> byte_between (s ! 1) 0x80 0x8F) then 4
      else 1)"

section \<open>Parsing\<close>

text \<open>
  What one round finds: the end, an error, or a flag name (empty for a positional argument) and
  whether it is a long one.
\<close>

datatype one_flag = Finished | OneError flag_error | FlagName string bool

definition parseOneGnu :: "flag_set \<Rightarrow> flag_set \<times> one_flag" where
  "parseOneGnu f =
     (if procArgs f = [] then (f, Finished)
      else if procFlag f \<noteq> [] then
        (let n = rune_len (procFlag f) in
         (f\<lparr>procFlag := drop n (procFlag f)\<rparr>, FlagName (take n (procFlag f)) False))
      else
        let a = hd (procArgs f) in
        if a = ''-'' \<or> a = [] \<or> hd a \<noteq> CHR ''-'' then
          (if allowIntersperse f
           then (f\<lparr>f_args := f_args f @ [a], procArgs := tl (procArgs f)\<rparr>, FlagName [] False)
           else (f\<lparr>f_args := f_args f @ procArgs f, procArgs := []\<rparr>, Finished))
        else if a = ''--'' then (f\<lparr>f_args := f_args f @ tl (procArgs f), procArgs := []\<rparr>, Finished)
        else if a ! 1 = CHR ''-'' then
          (if CHR ''='' \<notin> set a then (f\<lparr>procArgs := tl (procArgs f)\<rparr>, FlagName (drop 2 a) True)
           else
             let name = drop 2 (takeWhile (\<lambda>c. c \<noteq> CHR ''='') a) in
             if name = [] then (f, OneError (EmptyFlag a))
             else (f\<lparr>procArgs := tl (procArgs f), procFlag := dropWhile (\<lambda>c. c \<noteq> CHR ''='') a\<rparr>, FlagName name True))
        else
          let a1 = tl a; n = rune_len a1 in
          (f\<lparr>procFlag := drop n a1, procArgs := tl (procArgs f)\<rparr>, FlagName (take n a1) False))"

definition flagWithMinus :: "string \<Rightarrow> string" where
  "flagWithMinus name = (if 1 < length name then ''--'' @ name else ''-'' @ name)"

text \<open>
  The value of a flag: the rest of the argument, without the equals sign of a long flag (its
  absence is a panic, \<open>None\<close>), or else the next argument.
\<close>

definition flag_argument :: "flag_set \<Rightarrow> bool \<Rightarrow> (flag_set \<times> string option) option" where
  "flag_argument f long =
     (if procFlag f \<noteq> [] then
        (if long \<and> hd (procFlag f) \<noteq> CHR ''='' then None
         else Some (f\<lparr>procFlag := []\<rparr>, Some (if long then tl (procFlag f) else procFlag f)))
      else (case procArgs f of
          [] \<Rightarrow> Some (f, None)
        | v # rest \<Rightarrow> Some (f\<lparr>procArgs := rest\<rparr>, Some v)))"

definition set_flag :: "flag_set \<Rightarrow> string \<Rightarrow> flag_value \<Rightarrow> flag_set" where
  "set_flag f name v = f\<lparr>formal := AList.update name v (formal f), actual := add_actual name (actual f)\<rparr>"

definition parseGnuFlagArg :: "flag_set \<Rightarrow> string \<Rightarrow> bool \<Rightarrow> (flag_set \<times> flag_error option) option" where
  "parseGnuFlagArg f name long = (case map_of (formal f) name of
     None \<Rightarrow>
       if name = ''help'' \<or> name = ''h'' then Some (f\<lparr>usage_shown := usage_shown f + 1\<rparr>, Some ErrHelp)
       else Some (f, Some (NotDefined (flagWithMinus name)))
   | Some flag \<Rightarrow>
       if value_is_bool flag \<and> \<not> HasPrefix (procFlag f) ''='' then
         Some (set_flag f name (fst (value_Set flag ''true'')), None)
       else (case flag_argument f long of
           None \<Rightarrow> None
         | Some (f1, None) \<Rightarrow> Some (f1, Some (NeedsArgument (flagWithMinus name)))
         | Some (f1, Some s) \<Rightarrow> (case value_Set flag s of
             (v, Some e) \<Rightarrow>
               Some (f1\<lparr>formal := AList.update name v (formal f1)\<rparr>, Some (InvalidFlagValue s (flagWithMinus name) e))
           | (v, None) \<Rightarrow> Some (set_flag f1 name v, None))))"

datatype parse_outcome =
    ParseOk flag_set
  | ParseError flag_error flag_set
  | ParseExit flag_set
  | ParsePanic flag_error flag_set
  | RuntimePanic

definition handle_error :: "flag_set \<Rightarrow> flag_error \<Rightarrow> parse_outcome" where
  "handle_error f e = (case errorHandling f of
     ContinueOnError \<Rightarrow> ParseError e f | ExitOnError \<Rightarrow> ParseExit f | PanicOnError \<Rightarrow> ParsePanic e f)"

text \<open>What is left of the command line, in bytes and arguments.\<close>

definition left_over :: "flag_set \<Rightarrow> nat" where
  "left_over f = length (procFlag f) + sum_list (map (\<lambda>a. Suc (length a)) (procArgs f))"

lemma rune_len_pos: "s \<noteq> [] \<Longrightarrow> 0 < rune_len s"
  by (simp add: rune_len_def)

lemma rune_len_le: "rune_len s \<le> length s"
  unfolding rune_len_def by (cases s) (simp_all add: Suc_le_eq)

lemma parseOneGnu_consumes:
  assumes "parseOneGnu f = (f1, FlagName name long)"
  shows "left_over f1 < left_over f"
proof -
  have pos: "0 < rune_len (procFlag f)" if "procFlag f \<noteq> []" using that by (rule rune_len_pos)
  have drop: "length (dropWhile P xs) \<le> length xs" for P and xs :: string by (rule length_dropWhile_le)
  show ?thesis
  proof (cases "procFlag f = []")
    case True
    show ?thesis
      using assms True le_imp_less_Suc [OF drop] unfolding parseOneGnu_def Let_def
      by (cases "procArgs f") (auto simp: left_over_def split: if_splits intro: le_less_trans [OF diff_le_self])
  next
    case False
    with assms pos show ?thesis
      unfolding parseOneGnu_def Let_def by (auto simp: left_over_def split: if_splits)
  qed
qed

lemma flag_argument_left: "flag_argument f long = Some (f1, r) \<Longrightarrow> left_over f1 \<le> left_over f"
  by (auto simp: flag_argument_def left_over_def split: if_splits list.splits)

lemma left_over_values [simp]:
  "left_over (f\<lparr>formal := u\<rparr>) = left_over f"
  "left_over (f\<lparr>actual := v\<rparr>) = left_over f"
  "left_over (f\<lparr>usage_shown := n\<rparr>) = left_over f"
  "left_over (f\<lparr>f_args := xs\<rparr>) = left_over f"
  by (simp_all add: left_over_def)

lemma left_over_set_flag [simp]: "left_over (set_flag f name v) = left_over f"
  by (simp add: set_flag_def)

lemma parseGnuFlagArg_left:
  assumes "parseGnuFlagArg f name long = Some (f1, e)"
  shows "left_over f1 \<le> left_over f"
proof (cases "map_of (formal f) name")
  case None
  with assms show ?thesis by (auto simp: parseGnuFlagArg_def split: if_splits)
next
  case (Some flag)
  show ?thesis
  proof (cases "value_is_bool flag \<and> \<not> HasPrefix (procFlag f) ''=''")
    case True
    with Some assms show ?thesis by (auto simp: parseGnuFlagArg_def)
  next
    case False
    with Some assms obtain f2 r where a: "flag_argument f long = Some (f2, r)"
      by (auto simp: parseGnuFlagArg_def simp del: value_is_bool.simps split: option.splits)
    have "left_over f1 = left_over f2"
    proof (cases r)
      case None
      with Some False a assms show ?thesis by (simp add: parseGnuFlagArg_def if_not_P [OF False])
    next
      case (Some v)
      obtain w er where v: "value_Set flag v = (w, er)" by force
      show ?thesis
        using \<open>map_of _ _ = Some flag\<close> a Some v assms
        by (cases er) (auto simp: parseGnuFlagArg_def if_not_P [OF False])
    qed
    with flag_argument_left [OF a] show ?thesis by simp
  qed
qed

text \<open>The loop of \<^verbatim>\<open>Parse\<close>: every round consumes some of the command line.\<close>

function parse_loop :: "flag_set \<Rightarrow> parse_outcome" where
  "parse_loop f = (case parseOneGnu f of
     (f1, Finished) \<Rightarrow> ParseOk f1
   | (f1, OneError e) \<Rightarrow> handle_error f1 e
   | (f1, FlagName name long) \<Rightarrow>
       (if name = [] then parse_loop f1
        else (case parseGnuFlagArg f1 name long of
            None \<Rightarrow> RuntimePanic
          | Some (f2, Some e) \<Rightarrow> handle_error f2 e
          | Some (f2, None) \<Rightarrow> parse_loop f2)))"
  by pat_completeness auto
termination
proof (relation "measure left_over", goal_cases)
  case 1
  show ?case by simp
next
  case 2
  then show ?case by (metis in_measure parseOneGnu_consumes)
next
  case 3
  then show ?case by (metis in_measure parseOneGnu_consumes parseGnuFlagArg_left le_less_trans)
qed

declare parse_loop.simps [simp del]

definition gnu_Parse :: "flag_set \<Rightarrow> bool \<Rightarrow> string list \<Rightarrow> parse_outcome" where
  "gnu_Parse f intersperse arguments =
     parse_loop (f\<lparr>procArgs := arguments, procFlag := [], f_args := [], allowIntersperse := intersperse\<rparr>)"

definition NewFlagSet :: "error_handling \<Rightarrow> flag_set" where
  "NewFlagSet h = \<lparr>formal = [], actual = [], f_args = [], procArgs = [], procFlag = [],
     allowIntersperse = False, errorHandling = h, usage_shown = 0\<rparr>"

section \<open>The rounds of the loop\<close>

text \<open>A long flag is read with an empty rest of the argument, or one that begins with an equals sign.\<close>

lemma parseOneGnu_long:
  assumes "parseOneGnu f = (f1, FlagName name True)"
  shows "procFlag f1 = [] \<or> hd (procFlag f1) = CHR ''=''"
proof -
  have "hd (dropWhile (\<lambda>c. c \<noteq> CHR ''='') a) = CHR ''=''" if "CHR ''='' \<in> set a" for a
    using that by (induction a) auto
  with assms show ?thesis
    unfolding parseOneGnu_def Let_def by (auto split: if_splits)
qed

lemma flag_argument_total:
  "long \<longrightarrow> procFlag f = [] \<or> hd (procFlag f) = CHR ''='' \<Longrightarrow> \<exists>f1 r. flag_argument f long = Some (f1, r)"
  by (auto simp: flag_argument_def split: list.splits)

lemma parseGnuFlagArg_total:
  assumes "long \<longrightarrow> procFlag f = [] \<or> hd (procFlag f) = CHR ''=''"
  shows "parseGnuFlagArg f name long \<noteq> None"
proof -
  from flag_argument_total [OF assms] obtain f1 r where a: "flag_argument f long = Some (f1, r)" by blast
  show ?thesis
  proof (cases r)
    case None
    with a show ?thesis by (simp add: parseGnuFlagArg_def split: option.split)
  next
    case (Some v)
    obtain w e where "\<And>flag. value_Set flag v = (w flag, e flag)"
      by (meson prod.exhaust)
    with a Some show ?thesis by (simp add: parseGnuFlagArg_def split: option.split)
  qed
qed

lemma handle_error_no_panic: "handle_error f e \<noteq> RuntimePanic"
  by (simp add: handle_error_def split: error_handling.split)

lemma parse_loop_no_panic: "parse_loop f \<noteq> RuntimePanic"
proof (induction f rule: parse_loop.induct)
  case (1 f)
  obtain f1 r where one: "parseOneGnu f = (f1, r)" by force
  show ?case
  proof (cases r)
    case (FlagName name long)
    note r = one [unfolded FlagName]
    show ?thesis
    proof (cases "name = []")
      case True
      with 1(1) [OF r [symmetric] refl True] r show ?thesis by (subst parse_loop.simps) simp
    next
      case False
      have "long \<longrightarrow> procFlag f1 = [] \<or> hd (procFlag f1) = CHR ''=''"
        using parseOneGnu_long r by metis
      then obtain f2 e where arg: "parseGnuFlagArg f1 name long = Some (f2, e)"
        using parseGnuFlagArg_total by fastforce
      show ?thesis
      proof (cases e)
        case None
        with 1(2) [OF r [symmetric] refl False arg refl] r False arg
        show ?thesis by (subst parse_loop.simps) simp
      next
        case (Some x)
        with r False arg handle_error_no_panic show ?thesis by (subst parse_loop.simps) simp
      qed
    qed
  qed (use one handle_error_no_panic in \<open>subst parse_loop.simps, simp\<close>)+
qed

text \<open>The first round on each kind of argument.\<close>

definition positional :: "string \<Rightarrow> bool" where
  "positional a \<longleftrightarrow> a = ''-'' \<or> a = [] \<or> hd a \<noteq> CHR ''-''"

lemma parseOneGnu_positional:
  assumes "procFlag f = []" "procArgs f = a # rest" "positional a" "allowIntersperse f"
  shows "parseOneGnu f = (f\<lparr>f_args := f_args f @ [a], procArgs := rest\<rparr>, FlagName [] False)"
  using assms by (simp add: parseOneGnu_def positional_def)

lemma parseOneGnu_dashes:
  assumes "procFlag f = []" "procArgs f = ''--'' # rest"
  shows "parseOneGnu f = (f\<lparr>f_args := f_args f @ rest, procArgs := []\<rparr>, Finished)"
  using assms by (simp add: parseOneGnu_def)

lemma parseOneGnu_long_plain:
  assumes "procFlag f = []" "procArgs f = (''--'' @ name) # rest" "name \<noteq> []" "CHR ''='' \<notin> set name"
  shows "parseOneGnu f = (f\<lparr>procArgs := rest\<rparr>, FlagName name True)"
  using assms by (simp add: parseOneGnu_def)

lemma parseOneGnu_long_equals:
  assumes "procFlag f = []" "procArgs f = (''--'' @ name @ ''='' @ v) # rest" "name \<noteq> []" "CHR ''='' \<notin> set name"
  shows "parseOneGnu f = (f\<lparr>procArgs := rest, procFlag := CHR ''='' # v\<rparr>, FlagName name True)"
proof -
  have "takeWhile (\<lambda>c. c \<noteq> CHR ''='') (name @ CHR ''='' # v) = name"
    "dropWhile (\<lambda>c. c \<noteq> CHR ''='') (name @ CHR ''='' # v) = CHR ''='' # v"
    using assms(4) by (induction name) auto
  with assms show ?thesis by (simp add: parseOneGnu_def Let_def)
qed

definition ascii :: "char \<Rightarrow> bool" where
  "ascii c \<longleftrightarrow> (of_char c :: nat) < 0x80"

lemma rune_len_ascii: "ascii c \<Longrightarrow> rune_len (c # s) = 1"
  by (simp add: rune_len_def byte_between_def ascii_def)

lemma parseOneGnu_short:
  assumes "procFlag f = []" "procArgs f = (CHR ''-'' # c # v) # rest" "c \<noteq> CHR ''-''" "ascii c"
  shows "parseOneGnu f = (f\<lparr>procFlag := v, procArgs := rest\<rparr>, FlagName [c] False)"
  using assms by (simp add: parseOneGnu_def Let_def rune_len_ascii)

lemma parse_loop_positional:
  assumes "\<forall>a \<in> set xs. positional a" "procFlag f = []" "procArgs f = xs @ rest" "allowIntersperse f"
  shows "parse_loop f = parse_loop (f\<lparr>f_args := f_args f @ xs, procArgs := rest\<rparr>)"
  using assms
proof (induction xs arbitrary: f)
  case Nil
  then show ?case by (cases f) simp
next
  case (Cons a xs)
  let ?g = "f\<lparr>f_args := f_args f @ [a], procArgs := xs @ rest\<rparr>"
  have "parse_loop f = parse_loop ?g"
    by (subst parse_loop.simps) (use Cons.prems parseOneGnu_positional [of f a "xs @ rest"] in simp)
  also have "\<dots> = parse_loop (?g\<lparr>f_args := f_args ?g @ xs, procArgs := rest\<rparr>)"
    by (rule Cons.IH) (use Cons.prems in simp_all)
  finally show ?case by simp
qed

section \<open>The properties\<close>

text \<open>
  C39. Parsing a command line never runs into the panic of \<^verbatim>\<open>parseGnuFlagArg\<close>, whatever the flags
  and the arguments: the loop ends, and the rest of a long flag always begins with its equals sign.
\<close>

theorem gnu_Parse_no_panic: "gnu_Parse f intersperse arguments \<noteq> RuntimePanic"
  by (simp add: gnu_Parse_def parse_loop_no_panic)

text \<open>
  C20. The spellings of a flag with a value are equivalent: \<^verbatim>\<open>--name=value\<close> gives the same result, the
  errors included, as \<^verbatim>\<open>--name value\<close>, and for a one-letter flag so does \<^verbatim>\<open>-nvalue\<close>, unless the value
  is empty.
\<close>

theorem gnu_Parse_spellings:
  assumes "map_of (formal f) name = Some flag" "\<not> value_is_bool flag" "name \<noteq> []" "CHR ''='' \<notin> set name"
  shows "gnu_Parse f intersperse ((''--'' @ name @ ''='' @ v) # rest) = gnu_Parse f intersperse ((''--'' @ name) # v # rest)
    \<and> (name = [c] \<and> c \<noteq> CHR ''-'' \<and> ascii c \<and> v \<noteq> []
       \<longrightarrow> gnu_Parse f intersperse ((CHR ''-'' # c # v) # rest) = gnu_Parse f intersperse ((''--'' @ name) # v # rest))"
proof -
  define g where "g xs = f\<lparr>procArgs := xs, procFlag := [], f_args := [], allowIntersperse := intersperse\<rparr>" for xs
  have arg: "parseGnuFlagArg (g (v # rest)) name True = parseGnuFlagArg (g rest\<lparr>procFlag := CHR ''='' # v\<rparr>) name True"
    "v \<noteq> [] \<Longrightarrow> parseGnuFlagArg (g rest\<lparr>procFlag := v\<rparr>) name False = parseGnuFlagArg (g (v # rest)) name True"
    using assms(1,2)
    by (cases f, simp add: parseGnuFlagArg_def flag_argument_def g_def set_flag_def)+
  have plain: "parseOneGnu (g ((''--'' @ name) # v # rest)) = (g (v # rest), FlagName name True)"
    using parseOneGnu_long_plain [of "g ((''--'' @ name) # v # rest)" name "v # rest"] assms(3,4) by (simp add: g_def)
  have equals: "parseOneGnu (g ((''--'' @ name @ ''='' @ v) # rest)) = (g rest\<lparr>procFlag := CHR ''='' # v\<rparr>, FlagName name True)"
    using parseOneGnu_long_equals [of "g ((''--'' @ name @ ''='' @ v) # rest)" name v rest] assms(3,4) by (simp add: g_def)
  have short: "parseOneGnu (g ((CHR ''-'' # c # v) # rest)) = (g rest\<lparr>procFlag := v\<rparr>, FlagName [c] False)"
    if "c \<noteq> CHR ''-''" "ascii c"
    using parseOneGnu_short [of "g ((CHR ''-'' # c # v) # rest)" c v rest] that by (simp add: g_def)
  have "parse_loop (g ((''--'' @ name @ ''='' @ v) # rest)) = parse_loop (g ((''--'' @ name) # v # rest))"
    using assms(3)
    by (simp only: parse_loop.simps [of "g (_ # _)"] plain equals arg(1) prod.case one_flag.case if_False)
  moreover have "parse_loop (g ((CHR ''-'' # c # v) # rest)) = parse_loop (g ((''--'' @ name) # v # rest))"
    if "name = [c]" "c \<noteq> CHR ''-''" "ascii c" "v \<noteq> []"
    using arg(2) [OF that(4)] that(1) assms(3)
    by (simp only: parse_loop.simps [of "g (_ # _)"] plain [unfolded that(1)] short [OF that(2,3)] prod.case one_flag.case if_False)
  ultimately show ?thesis
    unfolding gnu_Parse_def g_def by blast
qed

theorem gnu_Parse_spellings_witness:
  "gnu_Parse ((NewFlagSet ContinueOnError)\<lparr>formal := [(''n'', StringValue [])]\<rparr>) True [''-nx''] =
   gnu_Parse ((NewFlagSet ContinueOnError)\<lparr>formal := [(''n'', StringValue [])]\<rparr>) True [''--n'', ''x'']"
  using gnu_Parse_spellings [of "(NewFlagSet ContinueOnError)\<lparr>formal := [(''n'', StringValue [])]\<rparr>" "''n''" "StringValue []"
      True "''x''" "[]" "CHR ''n''"]
  by (simp add: ascii_def)

text \<open>
  What follows \<^verbatim>\<open>--\<close> is kept as it is, and so are the positional arguments before the flags when
  they may be interspersed; otherwise the first positional argument ends the parsing, and
  \<^verbatim>\<open>--\<close> is kept with the rest.
\<close>

theorem gnu_Parse_positional:
  assumes "\<forall>a \<in> set xs. positional a"
  shows "gnu_Parse f intersperse (xs @ ''--'' # rest) =
    ParseOk (f\<lparr>procArgs := [], procFlag := [], allowIntersperse := intersperse,
      f_args := (if intersperse \<or> xs = [] then xs @ rest else xs @ ''--'' # rest)\<rparr>)"
proof (cases "intersperse \<or> xs = []")
  case True
  define g where "g = f\<lparr>procArgs := xs @ ''--'' # rest, procFlag := [], f_args := [], allowIntersperse := intersperse\<rparr>"
  have "parse_loop g = parse_loop (g\<lparr>f_args := xs, procArgs := ''--'' # rest\<rparr>)"
  proof (cases "xs = []")
    case False
    then have "parse_loop g = parse_loop (g\<lparr>f_args := f_args g @ xs, procArgs := ''--'' # rest\<rparr>)"
      using True assms by (intro parse_loop_positional) (simp_all add: g_def)
    then show ?thesis by (simp add: g_def)
  qed (cases f, simp add: g_def)
  also have "\<dots> = ParseOk (g\<lparr>f_args := xs @ rest, procArgs := []\<rparr>)"
    by (subst parse_loop.simps, subst parseOneGnu_dashes) (simp_all add: g_def)
  finally show ?thesis
    using True by (cases f) (simp add: gnu_Parse_def g_def)
next
  case False
  then obtain a ys where xs: "xs = a # ys" by (cases xs) auto
  with False assms have p: "positional a" by simp
  show ?thesis
    unfolding gnu_Parse_def
    by (subst parse_loop.simps) (use False xs p in \<open>cases f, simp add: parseOneGnu_def positional_def\<close>)
qed

theorem gnu_Parse_positional_witness:
  "gnu_Parse (NewFlagSet ContinueOnError) True [''start'', ''--'', ''-x''] =
    ParseOk ((NewFlagSet ContinueOnError)\<lparr>allowIntersperse := True, f_args := [''start'', ''-x'']\<rparr>)"
  using gnu_Parse_positional [of "[''start'']" "NewFlagSet ContinueOnError" True "[''-x'']"]
  by (simp add: positional_def NewFlagSet_def)

text \<open>
  When a group of one-letter flags is the last argument, only its first letter counts if that is
  a boolean flag: the others are dropped, even when they are not defined, because the end of the
  arguments is tested before the rest of the group.
\<close>

theorem gnu_Parse_drops_group:
  assumes "map_of (formal f) [c] = Some (BoolValue b)" "c \<noteq> CHR ''-''" "ascii c" "\<not> HasPrefix v ''=''"
  shows "gnu_Parse f intersperse [CHR ''-'' # c # v] =
    ParseOk (set_flag (f\<lparr>procArgs := [], procFlag := v, f_args := [], allowIntersperse := intersperse\<rparr>) [c] (BoolValue True))"
proof -
  define g where "g xs w = f\<lparr>procArgs := xs, procFlag := w, f_args := [], allowIntersperse := intersperse\<rparr>" for xs w
  have one: "parseOneGnu (g [CHR ''-'' # c # v] []) = (g [] v, FlagName [c] False)"
    using parseOneGnu_short [of "g [CHR ''-'' # c # v] []" c v "[]"] assms(2,3) by (cases f) (simp add: g_def)
  have arg: "parseGnuFlagArg (g [] v) [c] False = Some (set_flag (g [] v) [c] (BoolValue True), None)"
    using assms(1,4) by (simp add: parseGnuFlagArg_def g_def ParseBool_def)
  have last: "parse_loop (set_flag (g [] v) [c] (BoolValue True)) = ParseOk (set_flag (g [] v) [c] (BoolValue True))"
    by (subst parse_loop.simps) (simp add: parseOneGnu_def set_flag_def g_def)
  show ?thesis
    unfolding gnu_Parse_def g_def [symmetric] by (subst parse_loop.simps) (simp add: one arg last)
qed

theorem gnu_Parse_drops_group_witness:
  "gnu_Parse ((NewFlagSet ContinueOnError)\<lparr>formal := [(''a'', BoolValue False), (''b'', BoolValue False)]\<rparr>) True [''-abz''] =
    ParseOk (set_flag ((NewFlagSet ContinueOnError)\<lparr>formal := [(''a'', BoolValue False), (''b'', BoolValue False)],
      procFlag := ''bz'', allowIntersperse := True\<rparr>) ''a'' (BoolValue True))"
  using gnu_Parse_drops_group [of "(NewFlagSet ContinueOnError)\<lparr>formal := [(''a'', BoolValue False), (''b'', BoolValue False)]\<rparr>"
      "CHR ''a''" False "''bz''" True]
  by (simp add: ascii_def HasPrefix_def NewFlagSet_def)

end
