(* ===== verification/Cmd_Parser.thy ===== *)
theory Cmd_Parser
  imports Gnuflag Shared_Util
begin

text \<open>
  The commands' parser and their questions: \<^verbatim>\<open>shared/cmd/parser.go\<close> and \<^verbatim>\<open>shared/cmd/context.go\<close>.

  The args object is the list of its fields, each with the name in its flag tag (empty without one)
  and its kind.  A context holds what is left of the input, the files its two output
  streams write to, and what has been written so far (format strings without their arguments).
  The loops that ask until the answer is valid may run forever: they are partial functions into an option.
\<close>

section \<open>The parser\<close>

datatype field_kind = KBool | KString | KInt | KInt64 | KOther

fun default_flag :: "field_kind \<Rightarrow> flag_value option" where
  "default_flag KBool = Some (BoolValue False)"
| "default_flag KString = Some (StringValue [])"
| "default_flag KInt = Some (IntValue (-1))"
| "default_flag KInt64 = Some (Int64Value (-1))"
| "default_flag KOther = None"

text \<open>A flag name that two fields share panics (\<open>None\<close>).\<close>

fun define_flags :: "(string \<times> field_kind) list \<Rightarrow> flag_set \<Rightarrow> flag_set option" where
  "define_flags [] f = Some f"
| "define_flags ((name, kind) # fs) f =
     (if name = [] then define_flags fs f
      else (case default_flag kind of
          None \<Rightarrow> define_flags fs f
        | Some v \<Rightarrow> (case flag_Var f v name of None \<Rightarrow> None | Some f1 \<Rightarrow> define_flags fs f1)))"

definition parseFlags :: "bool \<Rightarrow> string list \<Rightarrow> (string \<times> field_kind) list \<Rightarrow> parse_outcome option" where
  "parseFlags exitOnError line fs =
     (if line = [] then None
      else (case define_flags fs (NewFlagSet (if exitOnError then ExitOnError else ContinueOnError)) of
          None \<Rightarrow> None
        | Some flags \<Rightarrow> Some (gnu_Parse flags True (tl line))))"

text \<open>The loop over the tokens, with the index of the token; the result is the subcommand, its parameters and the extra arguments.\<close>

fun rest_loop :: "nat \<Rightarrow> string list \<Rightarrow> string \<Rightarrow> string list \<Rightarrow> string \<times> string list \<times> string list" where
  "rest_loop i [] sub params = (sub, params, [])"
| "rest_loop i (token # tokens) sub params =
     (if token = ''--'' then (sub, params, tokens)
      else if HasPrefix token ''-'' then (sub, params, [])
      else if i = 0 then rest_loop (i + 1) tokens token params
      else rest_loop (i + 1) tokens sub (params @ [token]))"

definition parseRest :: "string list \<Rightarrow> string \<times> string list \<times> string list" where
  "parseRest line = (if 1 < length line then rest_loop 0 (tl line) [] [] else ([], [], []))"

record parsed_args =
  arg_flags :: "(string, flag_value) gomap"
  arg_subcommand :: string
  arg_params :: "string list"
  arg_extra :: "string list"

datatype parser_outcome = Parsed parsed_args | ParserError flag_error | ParserExit | ParserPanic

definition Parser_Parse :: "bool \<Rightarrow> string list \<Rightarrow> (string \<times> field_kind) list \<Rightarrow> parser_outcome" where
  "Parser_Parse exitOnError line fs = (case parseFlags exitOnError line fs of
     None \<Rightarrow> ParserPanic
   | Some (ParseOk f) \<Rightarrow> (case parseRest line of (sub, params, extra) \<Rightarrow>
       Parsed \<lparr>arg_flags = formal f, arg_subcommand = sub, arg_params = params, arg_extra = extra\<rparr>)
   | Some (ParseError e f) \<Rightarrow> ParserError e
   | Some (ParseExit f) \<Rightarrow> ParserExit
   | Some (ParsePanic e f) \<Rightarrow> ParserPanic
   | Some RuntimePanic \<Rightarrow> ParserPanic)"

section \<open>The context\<close>

datatype out_file = Stdout | Stderr

record cmd_context =
  c_stdin :: string
  c_stdout :: out_file
  c_stderr :: out_file
  c_written :: "(out_file \<times> string) list"

definition NewContext :: "string \<Rightarrow> out_file \<Rightarrow> out_file \<Rightarrow> cmd_context" where
  "NewContext input out err = \<lparr>c_stdin = input, c_stdout = out, c_stderr = err, c_written = []\<rparr>"

definition DefaultContext :: "string \<Rightarrow> cmd_context" where
  "DefaultContext stdin = NewContext stdin Stderr Stdout"

definition ctx_Output :: "cmd_context \<Rightarrow> string \<Rightarrow> cmd_context" where
  "ctx_Output c s = c\<lparr>c_written := c_written c @ [(c_stdout c, s)]\<rparr>"

definition ctx_Error :: "cmd_context \<Rightarrow> string \<Rightarrow> cmd_context" where
  "ctx_Error c s = c\<lparr>c_written := c_written c @ [(c_stderr c, s)]\<rparr>"

definition newline :: char where
  "newline = CHR 0x0A"

text \<open>One line without its newline; at the end of the input what is left, which may be nothing.\<close>

definition readAnswer :: "cmd_context \<Rightarrow> string \<Rightarrow> string \<times> cmd_context" where
  "readAnswer c defaultAnswer =
     (let answer = takeWhile (\<lambda>x. x \<noteq> newline) (c_stdin c);
          rest = drop 1 (dropWhile (\<lambda>x. x \<noteq> newline) (c_stdin c))
      in (if answer = [] then defaultAnswer else answer, c\<lparr>c_stdin := rest\<rparr>))"

definition askQuestion :: "cmd_context \<Rightarrow> string \<Rightarrow> string \<Rightarrow> string \<times> cmd_context" where
  "askQuestion c question defaultAnswer = readAnswer (ctx_Output c question) defaultAnswer"

definition invalid_message :: string where
  "invalid_message = ''Invalid input, try again.'' @ [newline, newline]"

text \<open>
  The loop the questions share: \<open>check\<close> gives the result of an answer, or the message for an
  invalid one.
\<close>

partial_function (option) ask_loop ::
  "(string \<Rightarrow> string + 'a) \<Rightarrow> cmd_context \<Rightarrow> string \<Rightarrow> string \<Rightarrow> ('a \<times> cmd_context) option" where
  "ask_loop check c question defaultAnswer =
     (let (answer, c1) = askQuestion c question defaultAnswer
      in (case check answer of
            Inr result \<Rightarrow> Some (result, c1)
          | Inl message \<Rightarrow> ask_loop check (ctx_Error c1 message) question defaultAnswer))"

definition check_bool :: "string \<Rightarrow> string + bool" where
  "check_bool answer =
     (if StringInSlice (ToLower answer) [''yes'', ''y''] then Inr True
      else if StringInSlice (ToLower answer) [''no'', ''n''] then Inr False
      else Inl invalid_message)"

definition check_choice :: "string list \<Rightarrow> string \<Rightarrow> string + string" where
  "check_choice choices answer = (if StringInSlice answer choices then Inr answer else Inl invalid_message)"

definition check_int :: "int \<Rightarrow> int \<Rightarrow> string \<Rightarrow> string + int" where
  "check_int lo hi answer = (case ParseInt answer 10 64 of
     (result, None) \<Rightarrow> if (lo = -1 \<or> lo \<le> result) \<and> (hi = -1 \<or> result \<le> hi) then Inr result else Inl invalid_message
   | (result, Some e) \<Rightarrow> Inl invalid_message)"

definition check_string :: "(string \<Rightarrow> string option) option \<Rightarrow> string \<Rightarrow> string + string" where
  "check_string validate answer =
     (case (case validate of None \<Rightarrow> None | Some v \<Rightarrow> v answer) of
        Some e \<Rightarrow> Inl (''Invalid input: '' @ e @ [newline, newline])
      | None \<Rightarrow> if answer \<noteq> [] then Inr answer else Inl invalid_message)"

definition AskBool :: "cmd_context \<Rightarrow> string \<Rightarrow> string \<Rightarrow> (bool \<times> cmd_context) option" where
  "AskBool = ask_loop check_bool"

definition AskChoice :: "string list \<Rightarrow> cmd_context \<Rightarrow> string \<Rightarrow> string \<Rightarrow> (string \<times> cmd_context) option" where
  "AskChoice choices = ask_loop (check_choice choices)"

definition AskInt :: "int \<Rightarrow> int \<Rightarrow> cmd_context \<Rightarrow> string \<Rightarrow> string \<Rightarrow> (int \<times> cmd_context) option" where
  "AskInt lo hi = ask_loop (check_int lo hi)"

definition AskString ::
  "(string \<Rightarrow> string option) option \<Rightarrow> cmd_context \<Rightarrow> string \<Rightarrow> string \<Rightarrow> (string \<times> cmd_context) option" where
  "AskString validate = ask_loop (check_string validate)"

text \<open>Passwords are read twice with a reader of the caller's, which has a state of its own.\<close>

partial_function (option) AskPassword ::
  "('r \<Rightarrow> string \<times> 'r) \<Rightarrow> 'r \<Rightarrow> cmd_context \<Rightarrow> string \<Rightarrow> (string \<times> 'r \<times> cmd_context) option" where
  "AskPassword reader r c question =
     (let c1 = ctx_Output c question; (pwd1, r1) = reader r; c2 = ctx_Output c1 [newline];
          inFirst = TrimSuffix pwd1 [newline];
          c3 = ctx_Output c2 ''Again: ''; (pwd2, r2) = reader r1; c4 = ctx_Output c3 [newline];
          inSecond = TrimSuffix pwd2 [newline]
      in (if inFirst = inSecond then Some (inFirst, r2, c4)
          else AskPassword reader r2 (ctx_Error c4 invalid_message) question))"

section \<open>The lines of the input\<close>

fun input_lines :: "string \<Rightarrow> string list" where
  "input_lines [] = []"
| "input_lines (x # xs) =
     (if x = newline then [] # input_lines xs
      else (case input_lines xs of [] \<Rightarrow> [[x]] | l # ls \<Rightarrow> (x # l) # ls))"

definition answers_of :: "string \<Rightarrow> string \<Rightarrow> string list" where
  "answers_of defaultAnswer text = map (\<lambda>l. if l = [] then defaultAnswer else l) (input_lines text) @ [defaultAnswer]"

fun first_valid :: "(string \<Rightarrow> string + 'a) \<Rightarrow> string list \<Rightarrow> 'a option" where
  "first_valid check [] = None"
| "first_valid check (a # as) = (case check a of Inr r \<Rightarrow> Some r | Inl m \<Rightarrow> first_valid check as)"

lemma input_lines_step:
  "s \<noteq> [] \<Longrightarrow> input_lines s =
    takeWhile (\<lambda>x. x \<noteq> newline) s # input_lines (drop 1 (dropWhile (\<lambda>x. x \<noteq> newline) s))"
proof (induction s)
  case (Cons x xs)
  show ?case
  proof (cases "x = newline \<or> xs = []")
    case False
    with Cons.IH show ?thesis by (simp split: list.split)
  qed auto
qed simp

lemma askQuestion_result:
  "askQuestion c q d =
    ((if takeWhile (\<lambda>x. x \<noteq> newline) (c_stdin c) = [] then d else takeWhile (\<lambda>x. x \<noteq> newline) (c_stdin c)),
     (ctx_Output c q)\<lparr>c_stdin := drop 1 (dropWhile (\<lambda>x. x \<noteq> newline) (c_stdin c))\<rparr>)"
  by (simp add: askQuestion_def readAnswer_def ctx_Output_def Let_def)

lemma ctx_Error_stdin [simp]: "c_stdin (ctx_Error c m) = c_stdin c"
  by (simp add: ctx_Error_def)

text \<open>At the end of the input the answer is the default, for ever.\<close>

lemma ask_loop_end:
  assumes "ask_loop check c q d = Some r" "c_stdin c = []"
  shows "\<exists>v. check d = Inr v"
proof -
  have "c_stdin c = [] \<longrightarrow> (\<exists>v. check d = Inr v)"
  proof (rule ask_loop.raw_induct [where P = "\<lambda>check c q d r. c_stdin c = [] \<longrightarrow> (\<exists>v. check d = Inr v)", OF _ assms(1)])
    fix f and check :: "string \<Rightarrow> string + 'a" and c :: cmd_context and q d and r :: "'a \<times> cmd_context"
    assume IH: "\<And>check c q d r. f check c q d = Some r \<Longrightarrow> c_stdin c = [] \<longrightarrow> (\<exists>v. check d = Inr v)"
      and r: "(let (answer, c1) = askQuestion c q d
        in (case check answer of Inl message \<Rightarrow> f check (ctx_Error c1 message) q d | Inr result \<Rightarrow> Some (result, c1))) = Some r"
    show "c_stdin c = [] \<longrightarrow> (\<exists>v. check d = Inr v)"
    proof
      assume "c_stdin c = []"
      with r IH [of check "ctx_Error (ctx_Output c q\<lparr>c_stdin := []\<rparr>) m" q d r for m] show "\<exists>v. check d = Inr v"
        by (simp add: askQuestion_result split: sum.splits)
    qed
  qed
  with assms(2) show ?thesis by simp
qed

lemma ask_loop_first:
  "map_option fst (ask_loop check c q d) = first_valid check (answers_of d (c_stdin c))"
proof (induction "length (c_stdin c)" arbitrary: c rule: less_induct)
  case less
  show ?case
  proof (cases "c_stdin c = []")
    case True
    show ?thesis
    proof (cases "check d")
      case (Inl m)
      with True ask_loop_end [of check c q d] have "ask_loop check c q d = None"
        by (cases "ask_loop check c q d") auto
      with True Inl show ?thesis by (simp add: answers_of_def)
    next
      case (Inr v)
      with True show ?thesis
        by (subst ask_loop.simps) (simp add: askQuestion_result answers_of_def)
    qed
  next
    case False
    let ?rest = "drop 1 (dropWhile (\<lambda>x. x \<noteq> newline) (c_stdin c))"
    have "length (dropWhile (\<lambda>x. x \<noteq> newline) (c_stdin c)) \<le> length (c_stdin c)" by (rule length_dropWhile_le)
    with False have "length ?rest < length (c_stdin c)" by (cases "c_stdin c") auto
    with less [of "ctx_Error (ctx_Output c q\<lparr>c_stdin := ?rest\<rparr>) m" for m]
    have IH: "map_option fst (ask_loop check (ctx_Error (ctx_Output c q\<lparr>c_stdin := ?rest\<rparr>) m) q d)
        = first_valid check (answers_of d ?rest)" for m
      by simp
    show ?thesis
      by (subst ask_loop.simps)
        (use IH in \<open>simp add: askQuestion_result answers_of_def input_lines_step [OF False] split: sum.split\<close>)
  qed
qed

section \<open>The rest of the line\<close>

lemma rest_loop_params:
  "0 < i \<Longrightarrow> rest_loop i tokens sub params =
    (let pre = takeWhile (\<lambda>t. \<not> HasPrefix t ''-'') tokens; post = dropWhile (\<lambda>t. \<not> HasPrefix t ''-'') tokens
     in (sub, params @ pre, if post \<noteq> [] \<and> hd post = ''--'' then tl post else []))"
proof (induction i tokens sub params rule: rest_loop.induct)
  case (2 i token tokens sub params)
  show ?case
  proof (cases "HasPrefix token ''-''")
    case True
    then show ?thesis by simp
  next
    case False
    then have "token \<noteq> ''--''" by (auto simp: HasPrefix_def)
    with 2 False show ?thesis by (simp add: Let_def)
  qed
qed simp

lemma parseRest_split:
  "parseRest line =
    (let pre = takeWhile (\<lambda>t. \<not> HasPrefix t ''-'') (tl line); post = dropWhile (\<lambda>t. \<not> HasPrefix t ''-'') (tl line)
     in (if pre = [] then [] else hd pre, tl pre, if post \<noteq> [] \<and> hd post = ''--'' then tl post else []))"
proof (cases "tl line")
  case Nil
  then have "\<not> 1 < length line" by (cases line) auto
  with Nil show ?thesis by (simp add: parseRest_def)
next
  case (Cons token tokens)
  then have "1 < length line" by (cases line) auto
  have "token \<noteq> ''--''" if "\<not> HasPrefix token ''-''" using that by (auto simp: HasPrefix_def)
  with \<open>1 < length line\<close> Cons show ?thesis
    by (simp add: parseRest_def rest_loop_params Let_def HasPrefix_def)
qed

section \<open>The properties\<close>

text \<open>
  The parser of the rest of the line against its description: the tokens before the first one
  with a dash are the subcommand and its parameters, and there are extra arguments only when that
  first one is \<^verbatim>\<open>--\<close>.
\<close>

theorem parseRest_reference:
  "parseRest line =
    (let pre = takeWhile (\<lambda>t. \<not> HasPrefix t ''-'') (tl line); post = dropWhile (\<lambda>t. \<not> HasPrefix t ''-'') (tl line)
     in (if pre = [] then [] else hd pre, tl pre, if post \<noteq> [] \<and> hd post = ''--'' then tl post else []))"
  by (rule parseRest_split)

text \<open>
  The documented order of a command line, \<^verbatim>\<open><cmd> [subcmd [params]] [flags] [-- [extra]]\<close>, loses its
  extra arguments as soon as it has a flag: whatever follows the first flag, \<^verbatim>\<open>Extra\<close> is empty.
\<close>

theorem parseRest_loses_extra:
  assumes "HasPrefix flag ''-''" "flag \<noteq> ''--''" "\<forall>t \<in> set (sub # params). \<not> HasPrefix t ''-''"
  shows "parseRest (cmd # sub # params @ flag # rest @ ''--'' # extra) = (sub, params, [])"
proof -
  have "takeWhile (\<lambda>t. \<not> HasPrefix t ''-'') (params @ flag # xs) = params"
    "dropWhile (\<lambda>t. \<not> HasPrefix t ''-'') (params @ flag # xs) = flag # xs" for xs
    using assms(1,3) by (auto simp: takeWhile_append2 dropWhile_append2)
  note split = this [of "rest @ ''--'' # extra"]
  have "\<not> HasPrefix sub ''-''" using assms(3) by simp
  then show ?thesis
    using assms(2) unfolding parseRest_split by (simp add: split Let_def del: takeWhile_append dropWhile_append)
qed

theorem parseRest_loses_extra_witness:
  "parseRest [''lxd'', ''forkexec'', ''c1'', ''--debug'', ''--'', ''ls''] = (''forkexec'', [''c1''], [])"
  using parseRest_loses_extra [of "''--debug''" "''forkexec''" "[''c1'']" "''lxd''" "[]" "[''ls'']"]
  by (simp add: HasPrefix_def)

text \<open>
  A question returns exactly when one of the lines of the input, read with the default for an empty
  one, or at last the default itself is valid; the result is the first valid one.  So with a default that is
  not valid and an input that has ended a question is asked for ever.
\<close>

theorem questions_return:
  "map_option fst (AskBool c q d) = first_valid check_bool (answers_of d (c_stdin c))
   \<and> map_option fst (AskChoice choices c q d) = first_valid (check_choice choices) (answers_of d (c_stdin c))
   \<and> map_option fst (AskInt lo hi c q d) = first_valid (check_int lo hi) (answers_of d (c_stdin c))
   \<and> map_option fst (AskString validate c q d) = first_valid (check_string validate) (answers_of d (c_stdin c))"
  by (simp add: AskBool_def AskChoice_def AskInt_def AskString_def ask_loop_first)

text \<open>
  The default context swaps its two output streams: the usage message, which is meant for standard
  output, goes to standard error, and the message about an invalid answer to standard output.
\<close>

theorem DefaultContext_swapped:
  "c_written (ctx_Output (DefaultContext s) usage) = [(Stderr, usage)]
   \<and> c_written (ctx_Error (DefaultContext s) invalid_message) = [(Stdout, invalid_message)]"
  by (simp add: DefaultContext_def NewContext_def ctx_Output_def ctx_Error_def)

end
