(* ===== verification/Db_Schema.thy ===== *)
theory Db_Schema
  imports Go_Strings
begin

text \<open>
  The schema of the database and its updates: \<^verbatim>\<open>lxd/db/schema\<close>, \<^verbatim>\<open>lxd/db/query\<close>,
  the driver of the updates in \<^verbatim>\<open>lxd/db/update.go\<close> and the retries of \<^verbatim>\<open>lxd/db/db.go\<close>.

  A database is its schema table (no table, or the version column of its rows) and its other
  tables, which only the updates touch and whose type is a parameter.  A transaction holds the database on disk, the one it
  works on, and the faults still to come: each statement takes the next one and
  fails when it is true, so a statement about all fault lists covers every place where
  SQLite may fail.  The updates and hooks are parameters, as they are of \<^verbatim>\<open>schema.New\<close>.
\<close>

section \<open>Transactions\<close>

datatype schema_error =
    SqlFault
  | NoTable
  | UniqueViolation int
  | NoTransaction
  | NestedTransaction
  | UpdateError string
  | FailedHook int schema_error
  | FailedUpdate int schema_error
  | FailedInsert int
  | FailedFetch schema_error
  | FailedCheckTable schema_error
  | FailedCreateTable schema_error
  | MissingUpdates int int
  | TooRecent int nat
  | NoVersions
  | UpdateLevel int nat
  | SliceOutOfRange int
  | FailedBegin
  | FailedRollback schema_error

record 'd database =
  db_versions :: "int list option"
  db_content :: 'd

record 'd tx =
  stored :: "'d database"
  working :: "'d database"
  active :: bool
  faults :: "bool list"
  backup :: "'d database option"

type_synonym ('d, 'a) sql = "'d tx \<Rightarrow> (schema_error + 'a) \<times> 'd tx"

definition returnT :: "'a \<Rightarrow> ('d, 'a) sql" where
  "returnT x t = (Inr x, t)"

definition failT :: "schema_error \<Rightarrow> ('d, 'a) sql" where
  "failT e t = (Inl e, t)"

definition bindT :: "('d, 'a) sql \<Rightarrow> ('a \<Rightarrow> ('d, 'b) sql) \<Rightarrow> ('d, 'b) sql" where
  "bindT m k t = (case m t of (Inl e, t1) \<Rightarrow> (Inl e, t1) | (Inr x, t1) \<Rightarrow> k x t1)"

definition wrapT :: "(schema_error \<Rightarrow> schema_error) \<Rightarrow> ('d, 'a) sql \<Rightarrow> ('d, 'a) sql" where
  "wrapT w m t = (case m t of (Inl e, t1) \<Rightarrow> (Inl (w e), t1) | (Inr x, t1) \<Rightarrow> (Inr x, t1))"

definition fault :: "('d, unit) sql" where
  "fault t = (if faults t \<noteq> [] \<and> hd (faults t) then Inl SqlFault else Inr (), t\<lparr>faults := tl (faults t)\<rparr>)"

text \<open>A statement on the working database; outside a transaction it is stored at once.\<close>

definition put_working :: "'d database \<Rightarrow> 'd tx \<Rightarrow> 'd tx" where
  "put_working d t = (if active t then t\<lparr>working := d\<rparr> else t\<lparr>working := d, stored := d\<rparr>)"

definition statement :: "('d database \<Rightarrow> (schema_error + 'a) \<times> 'd database) \<Rightarrow> ('d, 'a) sql" where
  "statement f = bindT fault (\<lambda>_ t. case f (working t) of (r, d) \<Rightarrow> (r, put_working d t))"

text \<open>The statements \<^verbatim>\<open>COMMIT\<close> and \<^verbatim>\<open>BEGIN\<close>, which the hook of the updates executes itself.\<close>

definition exec_COMMIT :: "('d, unit) sql" where
  "exec_COMMIT = bindT fault (\<lambda>_ t.
     if active t then (Inr (), t\<lparr>stored := working t, active := False\<rparr>) else (Inl NoTransaction, t))"

definition exec_BEGIN :: "('d, unit) sql" where
  "exec_BEGIN = bindT fault (\<lambda>_ t.
     if active t then (Inl NestedTransaction, t) else (Inr (), t\<lparr>working := stored t, active := True\<rparr>))"

text \<open>\<^verbatim>\<open>query.Transaction\<close>: a failed rollback leaves nothing stored either.\<close>

definition rollback :: "schema_error \<Rightarrow> ('d, 'a) sql" where
  "rollback reason t = (case fault t of
     (Inl e, t1) \<Rightarrow> (Inl (FailedRollback reason), t1\<lparr>working := stored t1, active := False\<rparr>)
   | (Inr _, t1) \<Rightarrow>
       (Inl (if active t1 then reason else FailedRollback reason), t1\<lparr>working := stored t1, active := False\<rparr>))"

definition Transaction :: "('d, 'a) sql \<Rightarrow> ('d, 'a) sql" where
  "Transaction f t = (case exec_BEGIN t of
     (Inl e, t1) \<Rightarrow> (Inl FailedBegin, t1)
   | (Inr _, t1) \<Rightarrow> (case f t1 of
       (Inl e, t2) \<Rightarrow> rollback e t2
     | (Inr x, t2) \<Rightarrow> (case exec_COMMIT t2 of
         (Inl e, t3) \<Rightarrow> (Inl e, t3\<lparr>working := stored t3, active := False\<rparr>)
       | (Inr _, t3) \<Rightarrow> (Inr x, t3))))"

section \<open>The schema table\<close>

definition doesSchemaTableExist :: "('d, bool) sql" where
  "doesSchemaTableExist = statement (\<lambda>d. (Inr (db_versions d \<noteq> None), d))"

definition createSchemaTable :: "('d, unit) sql" where
  "createSchemaTable = statement (\<lambda>d. (Inr (), d\<lparr>db_versions := Some []\<rparr>))"

definition insertSchemaVersion :: "int \<Rightarrow> ('d, unit) sql" where
  "insertSchemaVersion new = statement (\<lambda>d. case db_versions d of
     None \<Rightarrow> (Inl NoTable, d)
   | Some vs \<Rightarrow> if new \<in> set vs then (Inl (UniqueViolation new), d) else (Inr (), d\<lparr>db_versions := Some (vs @ [new])\<rparr>))"

definition selectSchemaVersions :: "('d, int list) sql" where
  "selectSchemaVersions = statement (\<lambda>d. case db_versions d of
     None \<Rightarrow> (Inl NoTable, d) | Some vs \<Rightarrow> (Inr (sort vs), d))"

definition ensureSchemaTableExists :: "('d, unit) sql" where
  "ensureSchemaTableExists =
     bindT (wrapT FailedCheckTable doesSchemaTableExist) (\<lambda>exists.
       if exists then returnT () else wrapT FailedCreateTable createSchemaTable)"

fun checkSchemaVersionsHaveNoHoles :: "int list \<Rightarrow> schema_error option" where
  "checkSchemaVersionsHaveNoHoles (v # w # vs) =
     (if w \<noteq> v + 1 then Some (MissingUpdates v w) else checkSchemaVersionsHaveNoHoles (w # vs))"
| "checkSchemaVersionsHaveNoHoles _ = None"

section \<open>Updates\<close>

type_synonym 'd update = "'d \<Rightarrow> schema_error option \<times> 'd"
type_synonym 'd hook = "int \<Rightarrow> ('d, unit) sql"

record 'd schema =
  sch_updates :: "'d update list"
  sch_hook :: "'d hook option"

definition schema_New :: "'d update list \<Rightarrow> 'd schema" where
  "schema_New us = \<lparr>sch_updates = us, sch_hook = None\<rparr>"

definition schema_Empty :: "'d schema" where
  "schema_Empty = schema_New []"

definition schema_Add :: "'d schema \<Rightarrow> 'd update \<Rightarrow> 'd schema" where
  "schema_Add s u = s\<lparr>sch_updates := sch_updates s @ [u]\<rparr>"

definition schema_Hook :: "'d schema \<Rightarrow> 'd hook \<Rightarrow> 'd schema" where
  "schema_Hook s h = s\<lparr>sch_hook := Some h\<rparr>"

text \<open>The loop over the sorted versions: a gap panics (\<open>None\<close>).\<close>

fun collect_updates :: "(int, 'd update) gomap \<Rightarrow> nat \<Rightarrow> int list \<Rightarrow> 'd update list option" where
  "collect_updates m i [] = Some []"
| "collect_updates m i (version # versions) =
     (if version \<noteq> int i + 1 then None
      else (case (map_of m version, collect_updates m (i + 1) versions) of
          (Some u, Some us) \<Rightarrow> Some (u # us) | _ \<Rightarrow> None))"

definition NewFromMap :: "(int, 'd update) gomap \<Rightarrow> 'd schema option" where
  "NewFromMap m = map_option schema_New (collect_updates m 0 (sort (keys_of m)))"

definition run_update :: "'d update \<Rightarrow> ('d, unit) sql" where
  "run_update u = statement (\<lambda>d. case u (db_content d) of
     (None, x) \<Rightarrow> (Inr (), d\<lparr>db_content := x\<rparr>) | (Some e, x) \<Rightarrow> (Inl e, d\<lparr>db_content := x\<rparr>))"

fun apply_updates :: "'d update list \<Rightarrow> 'd hook option \<Rightarrow> int \<Rightarrow> ('d, unit) sql" where
  "apply_updates [] hook current = returnT ()"
| "apply_updates (u # us) hook current =
     bindT (case hook of None \<Rightarrow> returnT () | Some h \<Rightarrow> wrapT (FailedHook current) (h current)) (\<lambda>_.
     bindT (wrapT (FailedUpdate current) (run_update u)) (\<lambda>_.
     bindT (wrapT (\<lambda>_. FailedInsert (current + 1)) (insertSchemaVersion (current + 1))) (\<lambda>_.
     apply_updates us hook (current + 1))))"

text \<open>The versions, after the repair of the missing version 31.\<close>

definition fetch_versions :: "('d, int list) sql" where
  "fetch_versions =
     bindT (wrapT FailedFetch selectSchemaVersions) (\<lambda>versions.
       if 30 \<in> set versions \<and> 32 \<in> set versions \<and> 31 \<notin> set versions then
         bindT (wrapT (\<lambda>_. FailedInsert 31) (insertSchemaVersion 31)) (\<lambda>_. wrapT FailedFetch selectSchemaVersions)
       else returnT versions)"

definition ensureUpdatesAreApplied :: "'d update list \<Rightarrow> 'd hook option \<Rightarrow> ('d, unit) sql" where
  "ensureUpdatesAreApplied updates hook =
     bindT fetch_versions (\<lambda>versions.
       case (if versions = [] then None else checkSchemaVersionsHaveNoHoles versions) of
         Some e \<Rightarrow> failT e
       | None \<Rightarrow>
           let current = (if versions = [] then 0 else last versions) in
           if int (length updates) < current then failT (TooRecent current (length updates))
           else if updates = [] then returnT ()
           else if current < 0 then failT (SliceOutOfRange current)
           else apply_updates (drop (nat current) updates) hook current)"

definition ensure_body :: "'d schema \<Rightarrow> ('d, unit) sql" where
  "ensure_body s =
     bindT ensureSchemaTableExists (\<lambda>_. ensureUpdatesAreApplied (sch_updates s) (sch_hook s))"

definition Ensure :: "'d schema \<Rightarrow> ('d, unit) sql" where
  "Ensure s = Transaction (ensure_body s)"

definition checkAllUpdatesAreApplied :: "'d update list \<Rightarrow> ('d, unit) sql" where
  "checkAllUpdatesAreApplied updates =
     bindT (wrapT FailedFetch selectSchemaVersions) (\<lambda>versions.
       if versions = [] then failT NoVersions
       else (case checkSchemaVersionsHaveNoHoles versions of
           Some e \<Rightarrow> failT e
         | None \<Rightarrow> if last versions \<noteq> int (length updates) then failT (UpdateLevel (last versions) (length updates))
             else returnT ()))"

section \<open>The updates of the daemon\<close>

text \<open>
  A legacy patch uses another connection.  One that needs the database runs between a
  \<^verbatim>\<open>COMMIT\<close> and a \<^verbatim>\<open>BEGIN\<close>; inside the transaction the database is locked for it.
\<close>

record 'd legacy_patch =
  NeedsDB :: bool
  lp_hook :: "'d database \<Rightarrow> schema_error option \<times> 'd database"

definition other_connection :: "('d database \<Rightarrow> schema_error option \<times> 'd database) \<Rightarrow> ('d, unit) sql" where
  "other_connection f t = (case f (stored t) of (e, d) \<Rightarrow>
     (case e of None \<Rightarrow> Inr () | Some x \<Rightarrow> Inl x, if active t then t else t\<lparr>stored := d, working := d\<rparr>))"

definition run_legacy :: "'d legacy_patch \<Rightarrow> ('d, unit) sql" where
  "run_legacy p =
     bindT (if NeedsDB p then exec_COMMIT else returnT ()) (\<lambda>_.
     bindT (other_connection (lp_hook p)) (\<lambda>_.
     if NeedsDB p then exec_BEGIN else returnT ()))"

definition make_backup :: "bool \<Rightarrow> ('d, unit) sql" where
  "make_backup doBackup t =
     (if doBackup \<and> backup t = None then bindT fault (\<lambda>_ t1. (Inr (), t1\<lparr>backup := Some (stored t1)\<rparr>)) t
      else (Inr (), t))"

definition update_hook :: "bool \<Rightarrow> (int, 'd legacy_patch) gomap \<Rightarrow> 'd hook" where
  "update_hook doBackup legacyPatches version =
     bindT (make_backup doBackup) (\<lambda>_.
       case map_of legacyPatches version of Some p \<Rightarrow> run_legacy p | None \<Rightarrow> returnT ())"

text \<open>\<^verbatim>\<open>UpdatesApplyAll\<close>; the panic of \<^verbatim>\<open>NewFromMap\<close> is \<open>None\<close>.\<close>

definition UpdatesApplyAll ::
  "(int, 'd update) gomap \<Rightarrow> bool \<Rightarrow> (int, 'd legacy_patch) gomap \<Rightarrow> 'd tx
   \<Rightarrow> ((schema_error + unit) \<times> 'd tx) option" where
  "UpdatesApplyAll updates doBackup legacyPatches t = (case NewFromMap updates of
     None \<Rightarrow> None
   | Some s \<Rightarrow> Some (Ensure (schema_Hook s (update_hook doBackup legacyPatches)) (t\<lparr>backup := None\<rparr>)))"

text \<open>
  The hooks are built by a loop of \<^verbatim>\<open>initializeDbObject\<close>.  Each closure captures the loop variable
  itself; when the hooks run the loop is over and the variable holds the patch of its last round.
\<close>

datatype legacy_name = FromV10 | FromV11 | FromV15 | FromV29 | FromV30

definition legacyPatches :: "(int \<times> legacy_name) list" where
  "legacyPatches = [(11, FromV10), (12, FromV11), (16, FromV15), (30, FromV29), (31, FromV30)]"

definition legacyPatchesNeedingDB :: "int list" where
  "legacyPatchesNeedingDB = [11, 12, 16]"

definition legacy_map ::
  "(legacy_name \<Rightarrow> 'd database \<Rightarrow> schema_error option \<times> 'd database) \<Rightarrow> (int \<times> legacy_name) list
   \<Rightarrow> (int, 'd legacy_patch) gomap" where
  "legacy_map run rounds =
     (let variable = snd (last rounds)
      in map (\<lambda>(i, _). (i, \<lparr>NeedsDB = i \<in> set legacyPatchesNeedingDB, lp_hook = run variable\<rparr>)) rounds)"

section \<open>Patches\<close>

text \<open>
  The patches of \<^verbatim>\<open>lxd/patches.go\<close> come after the schema updates, without a transaction: what a patch does
  stays even when marking it as applied fails (\<open>mark\<close> tells whether it does); \<open>readable\<close> tells whether the query for the
  applied patches succeeds.
\<close>

record 'd patched =
  p_applied :: "string list"
  p_content :: 'd

type_synonym 'd patch = "string \<times> ('d \<Rightarrow> schema_error option \<times> 'd)"

definition patch_apply :: "(string \<Rightarrow> bool) \<Rightarrow> 'd patch \<Rightarrow> 'd patched \<Rightarrow> schema_error option \<times> 'd patched" where
  "patch_apply mark p s = (case snd p (p_content s) of
     (Some e, x) \<Rightarrow> (Some e, s\<lparr>p_content := x\<rparr>)
   | (None, x) \<Rightarrow>
       (if mark (fst p) \<and> fst p \<notin> set (p_applied s)
        then (None, s\<lparr>p_content := x, p_applied := p_applied s @ [fst p]\<rparr>)
        else (Some SqlFault, s\<lparr>p_content := x\<rparr>)))"

fun patches_loop ::
  "(string \<Rightarrow> bool) \<Rightarrow> string list \<Rightarrow> 'd patch list \<Rightarrow> 'd patched \<Rightarrow> schema_error option \<times> 'd patched" where
  "patches_loop mark appliedPatches [] s = (None, s)"
| "patches_loop mark appliedPatches (p # ps) s =
     (if fst p \<in> set appliedPatches then patches_loop mark appliedPatches ps s
      else (case patch_apply mark p s of
          (Some e, s1) \<Rightarrow> (Some e, s1)
        | (None, s1) \<Rightarrow> patches_loop mark appliedPatches ps s1))"

definition patchesApplyAll ::
  "bool \<Rightarrow> (string \<Rightarrow> bool) \<Rightarrow> 'd patch list \<Rightarrow> 'd patched \<Rightarrow> schema_error option \<times> 'd patched" where
  "patchesApplyAll readable mark patches s =
     (if readable then patches_loop mark (p_applied s) patches s else (Some SqlFault, s))"

section \<open>Retries\<close>

datatype 'a db_result = DbOk 'a | DbLocked | DbError

text \<open>
  The loop of \<^verbatim>\<open>Begin\<close>, \<^verbatim>\<open>TxCommit\<close>, \<^verbatim>\<open>dbQuery\<close>, \<^verbatim>\<open>QueryScan\<close> and \<^verbatim>\<open>Exec\<close>: as long as the database is locked,
  try again, a thousand times at most; \<open>attempt i\<close> is the outcome of try \<open>i\<close>.
\<close>

fun retry_loop :: "(nat \<Rightarrow> 'a db_result) \<Rightarrow> nat \<Rightarrow> nat \<Rightarrow> 'a db_result" where
  "retry_loop attempt i 0 = DbLocked"
| "retry_loop attempt i (Suc n) = (case attempt i of DbLocked \<Rightarrow> retry_loop attempt (i + 1) n | r \<Rightarrow> r)"

definition db_retry :: "(nat \<Rightarrow> 'a db_result) \<Rightarrow> 'a db_result" where
  "db_retry attempt = retry_loop attempt 0 1000"

section \<open>The monad\<close>

lemma returnT_Inr [simp]: "returnT x t = (Inr y, t1) \<longleftrightarrow> x = y \<and> t = t1"
  by (simp add: returnT_def)

lemma failT_Inr [simp]: "failT e t \<noteq> (Inr y, t1)"
  by (simp add: failT_def)

lemma bindT_Inr: "bindT m k t = (Inr y, t2) \<longleftrightarrow> (\<exists>x t1. m t = (Inr x, t1) \<and> k x t1 = (Inr y, t2))"
  by (auto simp: bindT_def split: prod.split sum.split)

lemma wrapT_Inr [simp]: "wrapT w m t = (Inr x, t1) \<longleftrightarrow> m t = (Inr x, t1)"
  by (auto simp: wrapT_def split: prod.split sum.split)

lemma bindT_ok: "m t = (Inr x, t1) \<Longrightarrow> bindT m k t = k x t1"
  by (simp add: bindT_def)

lemma statement_Inr:
  "statement f t = (Inr x, t1) \<Longrightarrow>
    (\<exists>d. f (working t) = (Inr x, d) \<and> t1 = put_working d (t\<lparr>faults := tl (faults t)\<rparr>))"
  by (auto simp: statement_def bindT_Inr fault_def split: if_splits prod.splits)

lemma statement_ok:
  "faults t = [] \<Longrightarrow> f (working t) = (r, d) \<Longrightarrow> statement f t = (r, put_working d t)"
  by (cases t) (simp add: statement_def bindT_def fault_def)

lemma put_working_simps [simp]:
  "active (put_working d t) = active t" "working (put_working d t) = d" "faults (put_working d t) = faults t"
  "backup (put_working d t) = backup t"
  by (simp_all add: put_working_def)

definition keeps :: "('d tx \<Rightarrow> bool) \<Rightarrow> ('d, 'a) sql \<Rightarrow> bool" where
  "keeps P m \<longleftrightarrow> (\<forall>t. P t \<longrightarrow> P (snd (m t)))"

lemma keeps_returnT [intro]: "keeps P (returnT x)"
  by (simp add: keeps_def returnT_def)

lemma keeps_failT [intro]: "keeps P (failT x)"
  by (simp add: keeps_def failT_def)

lemma keeps_bindT: "keeps P m \<Longrightarrow> (\<And>x. keeps P (k x)) \<Longrightarrow> keeps P (bindT m k)"
  unfolding keeps_def bindT_def by (auto split: prod.split sum.split)

lemma keeps_wrapT [intro]: "keeps P m \<Longrightarrow> keeps P (wrapT w m)"
  unfolding keeps_def wrapT_def by (auto split: prod.split sum.split)

section \<open>Invariants of a run of updates\<close>

text \<open>
  What holds of the transaction through a run of updates: \<open>P\<close> between the steps, \<open>Q\<close>
  when a hook has succeeded.  Only under \<open>Q\<close> may an update change the content.
\<close>

locale update_run =
  fixes P Q :: "'d tx \<Rightarrow> bool" and hook :: "'d hook option"
  assumes Q_P: "Q t \<Longrightarrow> P t"
    and P_faults: "P t \<Longrightarrow> P (t\<lparr>faults := fs\<rparr>)"
    and Q_faults: "Q t \<Longrightarrow> Q (t\<lparr>faults := fs\<rparr>)"
    and P_table: "P t \<Longrightarrow> db_content d = db_content (working t) \<Longrightarrow> P (put_working d t)"
    and Q_content: "Q t \<Longrightarrow> Q (put_working d t)"
    and no_hook: "hook = None \<Longrightarrow> P t \<Longrightarrow> Q t"
    and hook_P: "hook = Some h \<Longrightarrow> P t \<Longrightarrow> P (snd (h v t))"
    and hook_Q: "hook = Some h \<Longrightarrow> P t \<Longrightarrow> h v t = (Inr (), t1) \<Longrightarrow> Q t1"
begin

lemma P_fault: "keeps P fault"
  by (simp add: keeps_def fault_def P_faults)

lemma P_statement: "(\<And>d. db_content (snd (f d)) = db_content d) \<Longrightarrow> keeps P (statement f)"
  unfolding statement_def
  by (rule keeps_bindT [OF P_fault]) (auto simp: keeps_def split: prod.split intro!: P_table, metis snd_conv)

lemma P_insert: "keeps P (insertSchemaVersion v)"
  unfolding insertSchemaVersion_def by (rule P_statement) (simp split: option.split)

lemma P_select: "keeps P selectSchemaVersions"
  unfolding selectSchemaVersions_def by (rule P_statement) (simp split: option.split)

lemma P_fetch: "keeps P fetch_versions"
  unfolding fetch_versions_def
  by (auto intro!: keeps_bindT keeps_wrapT P_insert P_select)

lemma P_ensure_table: "keeps P ensureSchemaTableExists"
  unfolding ensureSchemaTableExists_def doesSchemaTableExist_def createSchemaTable_def
  by (auto intro!: keeps_bindT keeps_wrapT P_statement)

lemma Q_update: "Q t \<Longrightarrow> Q (snd (run_update u t))"
  by (auto simp: run_update_def statement_def bindT_def fault_def Q_faults split: prod.split option.split sum.split
      intro!: Q_content)

lemma P_apply_updates: "P t \<Longrightarrow> P (snd (apply_updates us hook v t))"
proof (induction us arbitrary: v t)
  case Nil
  then show ?case by (simp add: returnT_def)
next
  case (Cons u us)
  let ?h = "case hook of None \<Rightarrow> returnT () | Some h \<Rightarrow> wrapT (FailedHook v) (h v)"
  obtain r t1 where h: "?h t = (r, t1)" by force
  have P1: "P t1"
    using h Cons.prems hook_P by (auto simp: returnT_def wrapT_def split: option.splits prod.splits sum.splits) (metis snd_conv)+
  show ?case
  proof (cases r)
    case (Inl e)
    with h P1 show ?thesis by (simp add: bindT_def)
  next
    case (Inr x)
    have "Q t1"
      using h Inr Cons.prems no_hook hook_Q by (auto simp: returnT_def wrapT_def split: option.splits prod.splits sum.splits)
    then have Q2: "Q (snd (run_update u t1))" by (rule Q_update)
    have "keeps P (bindT (wrapT (\<lambda>_. FailedInsert (v + 1)) (insertSchemaVersion (v + 1))) (\<lambda>_. apply_updates us hook (v + 1)))"
      by (rule keeps_bindT) (auto simp: keeps_def Cons.IH intro!: keeps_wrapT [unfolded keeps_def, rule_format] P_insert [unfolded keeps_def, rule_format])
    with Q_P [OF Q2] h Inr show ?thesis
      by (auto simp: bindT_def wrapT_def keeps_def Q_P split: prod.split sum.split)
  qed
qed

lemma P_ensure_body: "keeps P (ensure_body \<lparr>sch_updates = us, sch_hook = hook\<rparr>)"
proof -
  have "keeps P (apply_updates vs hook v)" for vs v
    by (simp add: keeps_def P_apply_updates)
  then show ?thesis
    unfolding ensure_body_def ensureUpdatesAreApplied_def Let_def
    by (auto intro!: keeps_bindT P_ensure_table P_fetch split: option.split)
qed

end

text \<open>Without a hook a run stores nothing before the final commit.\<close>

interpretation plain: update_run "\<lambda>t. active t \<and> stored t = d" "\<lambda>t. active t \<and> stored t = d" None for d
  by unfold_locales (auto simp: put_working_def)

text \<open>
  Neither does one with the daemon's hook while it runs no patch that needs the database: \<open>inner_hook\<close> is the hook
  without those.  Such a hook leaves the working database alone, too.
\<close>

definition inner_hook :: "bool \<Rightarrow> (int, 'd legacy_patch) gomap \<Rightarrow> 'd hook" where
  "inner_hook doBackup legacy version =
     bindT (make_backup doBackup) (\<lambda>_.
       case map_of legacy version of Some p \<Rightarrow> if NeedsDB p then returnT () else run_legacy p | None \<Rightarrow> returnT ())"

definition silent :: "'d hook option \<Rightarrow> bool" where
  "silent hook \<longleftrightarrow> (\<forall>h v t. hook = Some h \<longrightarrow> active t \<longrightarrow>
     active (snd (h v t)) \<and> stored (snd (h v t)) = stored t \<and> working (snd (h v t)) = working t)"

lemma silent_None: "silent None"
  by (simp add: silent_def)

lemma silent_inner: "silent (Some (inner_hook b legacy))"
proof -
  have backup: "active (snd (make_backup b t)) = active t \<and> stored (snd (make_backup b t)) = stored t
      \<and> working (snd (make_backup b t)) = working t" for t :: "'a tx"
    by (simp add: make_backup_def bindT_def fault_def)
  have patch: "snd ((case map_of legacy v of Some p \<Rightarrow> if NeedsDB p then returnT () else run_legacy p | None \<Rightarrow> returnT ()) t) = t"
    if "active t" for v t
    using that by (simp add: run_legacy_def other_connection_def bindT_def returnT_def split: option.split prod.split)
  show ?thesis
    unfolding silent_def inner_hook_def
  proof (intro allI impI)
    fix h v and t :: "'a tx"
    assume h: "Some (\<lambda>v. bindT (make_backup b) (\<lambda>_. case map_of legacy v of
        Some p \<Rightarrow> if NeedsDB p then returnT () else run_legacy p | None \<Rightarrow> returnT ())) = Some h" and t: "active t"
    obtain r t1 where m: "make_backup b t = (r, t1)" by force
    with backup [of t] t have t1: "active t1" "stored t1 = stored t" "working t1 = working t" by simp_all
    then show "active (snd (h v t)) \<and> stored (snd (h v t)) = stored t \<and> working (snd (h v t)) = working t"
      using m patch [OF t1(1), of v] h by (cases r) (auto simp: bindT_def)
  qed
qed

lemma silentD: "silent (Some h) \<Longrightarrow> active t \<Longrightarrow> h v t = (r, t1) \<Longrightarrow> active t1 \<and> stored t1 = stored t \<and> working t1 = working t"
  by (metis silent_def snd_conv)

interpretation inner: update_run "\<lambda>t. active t \<and> stored t = d" "\<lambda>t. active t \<and> stored t = d" "Some (inner_hook b legacy)"
  for d b legacy
proof unfold_locales
  fix h v and t :: "'a tx"
  assume "Some (inner_hook b legacy) = Some h" "active t \<and> stored t = d"
  then show "active (snd (h v t)) \<and> stored (snd (h v t)) = d" using silent_inner [of b legacy] by (auto simp: silent_def)
next
  fix h v and t t1 :: "'a tx"
  assume "Some (inner_hook b legacy) = Some h" "active t \<and> stored t = d" "h v t = (Inr (), t1)"
  then show "active t1 \<and> stored t1 = d" using silentD [OF silent_inner, of t b legacy v] by auto
qed (auto simp: put_working_def)

text \<open>
  With the backup of the daemon's hook: either a backup of the database \<open>d\<close> has been made, or
  no update has run yet and \<open>d\<close> is still on disk.
\<close>

definition backed_up :: "'d database \<Rightarrow> 'd tx \<Rightarrow> bool" where
  "backed_up d t \<longleftrightarrow> backup t = Some d \<or> backup t = None \<and> active t \<and> stored t = d \<and> db_content (working t) = db_content d"

lemma make_backup_Inr: "backed_up d t \<Longrightarrow> make_backup True t = (Inr (), t1) \<Longrightarrow> backup t1 = Some d"
  by (auto simp: make_backup_def backed_up_def bindT_Inr fault_def split: if_splits)

lemma make_backup_keeps: "keeps (backed_up d) (make_backup True)"
  by (auto simp: keeps_def make_backup_def backed_up_def bindT_def fault_def)

lemma keeps_exec: "keeps (\<lambda>t. backup t = b) exec_COMMIT" "keeps (\<lambda>t. backup t = b) exec_BEGIN"
  by (auto simp: keeps_def exec_COMMIT_def exec_BEGIN_def bindT_def fault_def)

lemma keeps_legacy: "keeps (\<lambda>t. backup t = b) (case map_of legacy v of Some p \<Rightarrow> run_legacy p | None \<Rightarrow> returnT ())"
proof -
  have "keeps (\<lambda>t. backup t = b) (other_connection f)" for f
    by (auto simp: keeps_def other_connection_def split: prod.split)
  then show ?thesis
    by (auto simp: run_legacy_def intro!: keeps_bindT keeps_exec split: option.split)
qed

lemma update_hook_backup:
  assumes "backed_up d t"
  shows "backed_up d (snd (update_hook True legacy v t))"
    and "update_hook True legacy v t = (Inr (), t1) \<Longrightarrow> backup t1 = Some d"
proof -
  obtain r t2 where m: "make_backup True t = (r, t2)" by force
  have k: "backed_up d t2" using make_backup_keeps [of d] assms m by (metis keeps_def snd_conv)
  let ?k = "case map_of legacy v of Some p \<Rightarrow> run_legacy p | None \<Rightarrow> returnT ()"
  have leg: "backup (snd (?k t2)) = Some d" if "r = Inr ()"
    using keeps_legacy [of "Some d" legacy v] make_backup_Inr [OF assms] m that by (auto simp: keeps_def)
  show "backed_up d (snd (update_hook True legacy v t))"
  proof (cases r)
    case (Inl e)
    with m k show ?thesis by (simp add: update_hook_def bindT_def)
  next
    case (Inr x)
    with m leg show ?thesis by (simp add: update_hook_def bindT_def backed_up_def)
  qed
  assume "update_hook True legacy v t = (Inr (), t1)"
  then show "backup t1 = Some d"
    using m leg by (auto simp: update_hook_def bindT_def split: sum.splits)
qed

interpretation backed: update_run "backed_up d" "\<lambda>t. backup t = Some d" "Some (update_hook True legacy)" for d legacy
proof unfold_locales
  fix h t v
  assume "Some (update_hook True legacy) = Some h" "backed_up d t"
  then show "backed_up d (snd (h v t))" by (auto intro: update_hook_backup(1))
next
  fix h t v t1
  assume "Some (update_hook True legacy) = Some h" "backed_up d t" "h v t = (Inr (), t1)"
  then show "backup t1 = Some d" by (auto dest: update_hook_backup(2))
qed (auto simp: backed_up_def put_working_def)

section \<open>Transactions as a whole\<close>

lemma Transaction_error:
  assumes "\<not> active t" "keeps (\<lambda>t'. active t' \<and> stored t' = stored t) f"
    and "Transaction f t = (Inl e, t1)"
  shows "stored t1 = stored t \<and> \<not> active t1"
proof -
  obtain r t2 where b: "exec_BEGIN t = (r, t2)" by force
  show ?thesis
  proof (cases r)
    case (Inl x)
    with b assms show ?thesis
      by (auto simp: Transaction_def exec_BEGIN_def bindT_def fault_def split: if_splits)
  next
    case (Inr u)
    then have t2: "active t2" "stored t2 = stored t"
      using b assms(1) by (auto simp: exec_BEGIN_def bindT_def fault_def split: if_splits)
    obtain r3 t3 where f: "f t2 = (r3, t3)" by force
    have t3: "active t3" "stored t3 = stored t"
      using assms(2) [unfolded keeps_def, rule_format, of t2] t2 f by simp_all
    show ?thesis
    proof (cases r3)
      case (Inl y)
      with assms(3) b \<open>r = Inr u\<close> f t3 show ?thesis
        by (auto simp: Transaction_def rollback_def fault_def split: if_splits)
    next
      case (Inr y)
      with assms(3) b \<open>r = Inr u\<close> f t3 show ?thesis
        by (auto simp: Transaction_def exec_COMMIT_def bindT_def fault_def split: if_splits)
    qed
  qed
qed

lemma Transaction_cong:
  assumes "\<not> active t" "f (t\<lparr>faults := tl (faults t), working := stored t, active := True\<rparr>)
    = g (t\<lparr>faults := tl (faults t), working := stored t, active := True\<rparr>)"
  shows "Transaction f t = Transaction g t"
  using assms by (simp add: Transaction_def exec_BEGIN_def bindT_def fault_def split: prod.split sum.split)

lemma Transaction_success:
  assumes "\<not> active t" "Transaction f t = (Inr x, t1)"
  shows "\<exists>t3. f (t\<lparr>faults := tl (faults t), working := stored t, active := True\<rparr>) = (Inr x, t3)
    \<and> stored t1 = working t3 \<and> \<not> active t1"
  using assms
  by (auto simp: Transaction_def rollback_def exec_BEGIN_def exec_COMMIT_def bindT_def fault_def
      split: if_splits prod.splits sum.splits)

lemma Transaction_completes:
  assumes "\<not> active t" "faults t = []"
    and "f (t\<lparr>faults := [], working := stored t, active := True\<rparr>) = (Inr x, t3)" "faults t3 = []" "active t3"
  shows "fst (Transaction f t) = Inr x"
  using assms by (simp add: Transaction_def exec_BEGIN_def exec_COMMIT_def bindT_def fault_def)

section \<open>Levels\<close>

text \<open>
  The level of a database: the highest of its versions when they have no holes, and 0 when there are
  none.  The repaired versions are those that \<^verbatim>\<open>ensureUpdatesAreApplied\<close> goes by.
\<close>

definition version_level :: "int list \<Rightarrow> nat option" where
  "version_level vs =
     (if vs = [] then Some 0
      else if checkSchemaVersionsHaveNoHoles (sort vs) = None \<and> 0 \<le> last (sort vs) then Some (nat (last (sort vs)))
      else None)"

definition db_level :: "'d database \<Rightarrow> nat option" where
  "db_level d = (case db_versions d of None \<Rightarrow> Some 0 | Some vs \<Rightarrow> version_level vs)"

fun run_all :: "'d update list \<Rightarrow> 'd \<Rightarrow> 'd option" where
  "run_all [] x = Some x"
| "run_all (u # us) x = (case u x of (None, y) \<Rightarrow> run_all us y | (Some e, y) \<Rightarrow> None)"

lemma no_holes_append:
  "checkSchemaVersionsHaveNoHoles (vs @ [v]) = None \<longleftrightarrow>
    checkSchemaVersionsHaveNoHoles vs = None \<and> (vs = [] \<or> v = last vs + 1)"
  by (induction vs rule: checkSchemaVersionsHaveNoHoles.induct) auto

lemma no_holes_dense:
  "checkSchemaVersionsHaveNoHoles (v # vs) = None \<Longrightarrow> v \<le> i \<Longrightarrow> i \<le> last (v # vs) \<Longrightarrow> i \<in> set (v # vs)"
proof (induction vs arbitrary: v)
  case (Cons w vs)
  then have w: "w = v + 1" "checkSchemaVersionsHaveNoHoles (w # vs) = None" by (simp_all split: if_splits)
  with Cons.IH [of w] Cons.prems show ?case by (cases "i = v") auto
qed simp

lemma sorted_le_last: "sorted xs \<Longrightarrow> x \<in> set xs \<Longrightarrow> (x :: int) \<le> last xs"
  by (induction xs) auto

lemma sort_snoc_last:
  assumes "vs \<noteq> []"
  shows "sort (vs @ [last (sort vs) + 1]) = sort vs @ [last (sort vs) + 1 :: int]"
proof -
  have "\<forall>v \<in> set vs. v \<le> last (sort vs)"
    using sorted_le_last [of "sort vs"] by simp
  then have "sorted (sort vs @ [last (sort vs) + 1])" by (auto simp: sorted_append intro: order_trans)
  moreover have "mset (sort vs @ [last (sort vs) + 1]) = mset (vs @ [last (sort vs) + 1])" by simp
  ultimately show ?thesis by (metis properties_for_sort)
qed

lemma level_insert:
  assumes "version_level vs = Some n"
  shows "version_level (vs @ [int n + 1]) = Some (n + 1)" "int n + 1 \<notin> set vs"
proof -
  have "version_level (vs @ [int n + 1]) = Some (n + 1) \<and> int n + 1 \<notin> set vs"
  proof (cases "vs = []")
    case True
    with assms show ?thesis by (simp add: version_level_def)
  next
    case False
    with assms have n: "checkSchemaVersionsHaveNoHoles (sort vs) = None" "int n = last (sort vs)"
      by (auto simp: version_level_def split: if_splits)
    have ne: "sort vs \<noteq> []" using False by (metis set_empty set_sort)
    have s: "sort (vs @ [int n + 1]) = sort vs @ [int n + 1]"
      using sort_snoc_last [OF False] n(2) by simp
    then have "sorted (sort vs @ [int n + 1])" by (metis sorted_sort)
    have "int n + 1 \<notin> set vs"
    proof
      assume "int n + 1 \<in> set vs"
      then have "int n + 1 \<in> set (sort vs)" by simp
      then have "int n + 1 \<le> last (sort vs)"
        by (rule sorted_le_last [OF sorted_sort])
      with n(2) show False by simp
    qed
    moreover have "version_level (vs @ [int n + 1]) = Some (n + 1)"
      unfolding version_level_def using s n ne by (simp add: no_holes_append)
    ultimately show ?thesis by blast
  qed
  then show "version_level (vs @ [int n + 1]) = Some (n + 1)" "int n + 1 \<notin> set vs" by blast+
qed

section \<open>A run against its specification\<close>

lemma run_update_Inr:
  "run_update u t = (Inr (), t1) \<Longrightarrow>
    \<exists>x. u (db_content (working t)) = (None, x) \<and> working t1 = (working t)\<lparr>db_content := x\<rparr>"
  unfolding run_update_def by (auto dest!: statement_Inr split: prod.splits option.splits)

lemma insert_Inr:
  "insertSchemaVersion v t = (Inr (), t1) \<Longrightarrow> db_versions (working t) = Some vs \<Longrightarrow>
    working t1 = (working t)\<lparr>db_versions := Some (vs @ [v])\<rparr>"
  unfolding insertSchemaVersion_def by (auto dest!: statement_Inr split: option.splits if_splits)

lemma statement_active: "active (snd (statement f t)) = active t"
  by (auto simp: statement_def bindT_def fault_def put_working_def split: prod.split sum.split)

lemma statement_activeD: "statement f t = (r, t1) \<Longrightarrow> active t1 = active t"
  using statement_active [of f t] by simp

lemma apply_updates_Inr:
  assumes "apply_updates us hook (int n) t = (Inr (), t1)" "db_versions (working t) = Some vs" "version_level vs = Some n"
    and "silent hook" "active t"
  shows "run_all us (db_content (working t)) = Some (db_content (working t1)) \<and> db_level (working t1) = Some (n + length us)"
  using assms
proof (induction us arbitrary: n t vs)
  case Nil
  then show ?case by (simp add: db_level_def)
next
  case (Cons u us)
  obtain t0 t2 t3 where run: "(case hook of None \<Rightarrow> returnT () | Some h \<Rightarrow> wrapT (FailedHook (int n)) (h (int n))) t = (Inr (), t0)"
    "run_update u t0 = (Inr (), t2)" "insertSchemaVersion (int n + 1) t2 = (Inr (), t3)"
    "apply_updates us hook (int (n + 1)) t3 = (Inr (), t1)"
    using Cons.prems(1) by (auto simp: bindT_Inr add.commute)
  have t0: "working t0 = working t" "active t0"
  proof -
    have "working t0 = working t \<and> active t0"
    proof (cases hook)
      case None
      then show ?thesis using run(1) Cons.prems(5) by simp
    next
      case (Some h)
      then have "h (int n) t = (Inr (), t0)" using run(1) by simp
      moreover have "silent (Some h)" using Cons.prems(4) Some by simp
      ultimately show ?thesis using silentD [of h t "int n" "Inr ()" t0] Cons.prems(5) by simp
    qed
    then show "working t0 = working t" "active t0" by simp_all
  qed
  obtain x where x: "u (db_content (working t)) = (None, x)" "working t2 = (working t)\<lparr>db_content := x\<rparr>"
    using run_update_Inr [OF run(2), unfolded t0(1)] by blast
  have w3: "working t3 = (working t2)\<lparr>db_versions := Some (vs @ [int n + 1])\<rparr>"
  proof (rule insert_Inr [OF run(3)])
    show "db_versions (working t2) = Some vs" unfolding x(2) using Cons.prems(2) by simp
  qed
  have "active t2" using statement_activeD [OF run(2) [unfolded run_update_def]] t0(2) by simp
  then have "active t3" using statement_activeD [OF run(3) [unfolded insertSchemaVersion_def]] by simp
  from Cons.IH [OF run(4) _ level_insert(1) [OF Cons.prems(3)] Cons.prems(4) this] w3 x show ?case by simp
qed

lemma apply_updates_cong:
  assumes "\<And>v. n \<le> v \<Longrightarrow> h v = h' v" shows "n \<le> v \<Longrightarrow> apply_updates us (Some h) v = apply_updates us (Some h') v"
  using assms by (induction us arbitrary: v) simp_all

lemma apply_updates_completes:
  assumes "run_all us (db_content (working t)) \<noteq> None" "faults t = []" "active t"
    and "db_versions (working t) = Some vs" "version_level vs = Some n"
  shows "\<exists>t1. apply_updates us None (int n) t = (Inr (), t1) \<and> faults t1 = [] \<and> active t1"
  using assms
proof (induction us arbitrary: n t vs)
  case Nil
  then show ?case by simp
next
  case (Cons u us)
  obtain x where x: "u (db_content (working t)) = (None, x)" "run_all us x \<noteq> None"
    using Cons.prems(1) by (auto split: prod.splits option.splits)
  let ?t2 = "put_working ((working t)\<lparr>db_content := x\<rparr>) t"
  let ?t3 = "put_working ((working ?t2)\<lparr>db_versions := Some (vs @ [int n + 1])\<rparr>) ?t2"
  have "run_update u t = (Inr (), ?t2)"
    unfolding run_update_def by (rule statement_ok) (use Cons.prems x in simp_all)
  moreover have "insertSchemaVersion (int n + 1) ?t2 = (Inr (), ?t3)"
    unfolding insertSchemaVersion_def
    by (rule statement_ok) (use Cons.prems level_insert(2) [OF Cons.prems(5)] in simp_all)
  moreover obtain t1 where "apply_updates us None (int (n + 1)) ?t3 = (Inr (), t1)" "faults t1 = []" "active t1"
    using Cons.IH [of ?t3 "vs @ [int n + 1]" "n + 1"] Cons.prems x(2) level_insert(1) [OF Cons.prems(5)] by auto
  ultimately show ?case by (simp add: bindT_def wrapT_def returnT_def add.commute)
qed

text \<open>The versions a run starts from, on a database with a level.\<close>

lemma version_level_no_repair:
  assumes "version_level vs = Some n"
  shows "\<not> (30 \<in> set vs \<and> 32 \<in> set vs \<and> 31 \<notin> set vs)"
proof
  assume a: "30 \<in> set vs \<and> 32 \<in> set vs \<and> 31 \<notin> set vs"
  then have "checkSchemaVersionsHaveNoHoles (sort vs) = None"
    using assms by (auto simp: version_level_def split: if_splits)
  moreover obtain w ws where ws: "sort vs = w # ws" using a by (cases "sort vs") (metis empty_iff list.set(1) set_sort)
  moreover have mem: "30 \<in> set (w # ws)" "32 \<in> set (w # ws)" using a by (metis ws set_sort)+
  moreover have "w \<le> 30" using mem(1) sorted_sort [of vs] unfolding ws by auto
  moreover have "32 \<le> last (w # ws)" using sorted_le_last [OF sorted_sort, of 32 vs] mem(2) unfolding ws by blast
  ultimately have "31 \<in> set (sort vs)" using no_holes_dense [of w ws 31] by auto
  with a show False by simp
qed

definition with_table :: "'d database \<Rightarrow> 'd database" where
  "with_table d = d\<lparr>db_versions := Some (case db_versions d of None \<Rightarrow> [] | Some vs \<Rightarrow> vs)\<rparr>"

lemma ensure_table_Inr:
  "ensureSchemaTableExists t = (Inr (), t1) \<Longrightarrow> working t1 = with_table (working t)"
  unfolding ensureSchemaTableExists_def doesSchemaTableExist_def createSchemaTable_def
  by (auto simp: bindT_Inr with_table_def dest!: statement_Inr split: if_splits)

lemma fetch_Inr:
  assumes "fetch_versions t = (Inr ws, t1)" "db_versions (working t) = Some vs" "version_level vs = Some n"
  shows "ws = sort vs \<and> working t1 = working t"
proof -
  obtain us t2 where sel: "selectSchemaVersions t = (Inr us, t2)"
    and r: "(if 30 \<in> set us \<and> 32 \<in> set us \<and> 31 \<notin> set us then
         bindT (wrapT (\<lambda>_. FailedInsert 31) (insertSchemaVersion 31)) (\<lambda>_. wrapT FailedFetch selectSchemaVersions)
       else returnT us) t2 = (Inr ws, t1)"
    using assms(1) unfolding fetch_versions_def by (auto simp: bindT_Inr)
  have us: "us = sort vs" "working t2 = working t"
    using sel assms(2) unfolding selectSchemaVersions_def by (auto dest!: statement_Inr)
  with r version_level_no_repair [OF assms(3)] show ?thesis by (auto split: if_splits)
qed

text \<open>The first steps of a run do not end the transaction.\<close>

lemma keeps_active: "keeps (\<lambda>t. active t = b) fault" "keeps (\<lambda>t. active t = b) (statement f)"
  by (simp_all add: keeps_def statement_active fault_def)

lemma ensure_parts_active:
  assumes "ensureSchemaTableExists t = (r, t1)" "fetch_versions t1 = (r', t2)" shows "active t2 = active t"
proof -
  have "keeps (\<lambda>t'. active t' = active t) ensureSchemaTableExists" "keeps (\<lambda>t'. active t' = active t) fetch_versions"
    unfolding ensureSchemaTableExists_def doesSchemaTableExist_def createSchemaTable_def fetch_versions_def
      selectSchemaVersions_def insertSchemaVersion_def
    by (auto intro!: keeps_bindT keeps_wrapT keeps_active)
  then show ?thesis using assms unfolding keeps_def by (metis snd_conv)
qed

text \<open>A run on a database of level \<open>n\<close>, up to the updates.\<close>

definition updates_from :: "'d update list \<Rightarrow> 'd hook option \<Rightarrow> nat \<Rightarrow> ('d, unit) sql" where
  "updates_from us hook n =
     (if length us < n then failT (TooRecent (int n) (length us))
      else if us = [] then returnT () else apply_updates (drop n us) hook (int n))"

lemma ensure_body_cases:
  assumes "db_level (working t) = Some n"
  obtains (stops) e t1 where "\<And>hook. ensure_body \<lparr>sch_updates = us, sch_hook = hook\<rparr> t = (Inl e, t1)"
    | (runs) t3 vs where "\<And>hook. ensure_body \<lparr>sch_updates = us, sch_hook = hook\<rparr> t = updates_from us hook n t3"
        "db_versions (working t3) = Some vs" "version_level vs = Some n" "db_content (working t3) = db_content (working t)"
        "active t3 = active t"
proof -
  obtain r1 t1 where table: "ensureSchemaTableExists t = (r1, t1)" by force
  show ?thesis
  proof (cases r1)
    case (Inl e)
    with table show ?thesis by (intro stops) (simp add: ensure_body_def bindT_def)
  next
    case (Inr u)
    then have tab: "ensureSchemaTableExists t = (Inr (), t1)" using table by simp
    obtain vs where vs: "db_versions (working t1) = Some vs" "version_level vs = Some n" "db_content (working t1) = db_content (working t)"
      using ensure_table_Inr [OF tab] assms
      by (cases "db_versions (working t)") (auto simp: with_table_def db_level_def version_level_def)
    obtain r2 t3 where fetch: "fetch_versions t1 = (r2, t3)" by force
    have act: "active t3 = active t"
      using table fetch by (rule ensure_parts_active)
    show ?thesis
    proof (cases r2)
      case (Inl e)
      with tab fetch show ?thesis by (intro stops) (simp add: ensure_body_def ensureUpdatesAreApplied_def bindT_def)
    next
      case (Inr ws)
      then have f: "fetch_versions t1 = (Inr ws, t3)" using fetch by simp
      have w: "ws = sort vs" "working t3 = working t1" using fetch_Inr [OF f vs(1,2)] by blast+
      have cur: "(if ws = [] then 0 else last ws) = int n" "ws \<noteq> [] \<Longrightarrow> checkSchemaVersionsHaveNoHoles ws = None"
        using vs(2) w(1) by (auto simp: version_level_def split: if_splits) (metis set_empty set_sort)+
      have "ensure_body \<lparr>sch_updates = us, sch_hook = hook\<rparr> t = updates_from us hook n t3" for hook
        using tab f cur by (cases "ws = []") (simp_all add: ensure_body_def ensureUpdatesAreApplied_def bindT_def updates_from_def Let_def)
      then show ?thesis by (rule runs) (use w(2) vs act in simp_all)
    qed
  qed
qed

lemma ensure_body_Inr:
  assumes "ensure_body \<lparr>sch_updates = us, sch_hook = hook\<rparr> t = (Inr (), t1)" "db_level (working t) = Some n"
    and "silent hook" "active t"
  shows "n \<le> length us \<and> run_all (drop n us) (db_content (working t)) = Some (db_content (working t1))
    \<and> db_level (working t1) = Some (length us)"
  using assms(2)
proof (cases rule: ensure_body_cases [where us = us])
  case (stops e t2)
  then show ?thesis using assms(1) by simp
next
  case (runs t3 vs)
  then have run: "updates_from us hook n t3 = (Inr (), t1)" and act: "active t3" using assms(1,4) by simp_all
  show ?thesis
  proof (cases "us = []")
    case True
    with run runs show ?thesis by (auto simp: updates_from_def db_level_def split: if_splits)
  next
    case False
    then have "n \<le> length us" "apply_updates (drop n us) hook (int n) t3 = (Inr (), t1)"
      using run by (auto simp: updates_from_def split: if_splits)
    then show ?thesis using apply_updates_Inr [OF _ runs(2,3) assms(3) act] runs(4) by simp
  qed
qed

text \<open>Above the versions of the patches that need the database the daemon's hook is its inner one.\<close>

lemma inner_hook_runs:
  assumes "db_level (working t) = Some n" "\<forall>v p. int n \<le> v \<longrightarrow> map_of legacy v = Some p \<longrightarrow> \<not> NeedsDB p"
  shows "ensure_body \<lparr>sch_updates = us, sch_hook = Some (update_hook b legacy)\<rparr> t
    = ensure_body \<lparr>sch_updates = us, sch_hook = Some (inner_hook b legacy)\<rparr> t"
  using assms(1)
proof (cases rule: ensure_body_cases [where us = us])
  case (runs t3 vs)
  have "update_hook b legacy v = inner_hook b legacy v" if "int n \<le> v" for v
    using assms(2) that by (auto simp: update_hook_def inner_hook_def split: option.split)
  then have "apply_updates us' (Some (update_hook b legacy)) (int n) = apply_updates us' (Some (inner_hook b legacy)) (int n)" for us'
    by (rule apply_updates_cong [of "int n"]) simp_all
  then show ?thesis using runs(1) by (simp add: updates_from_def)
qed simp

lemma ensure_body_completes:
  assumes "run_all (drop n us) (db_content (working t)) \<noteq> None" "faults t = []" "active t"
    and "db_level (working t) = Some n" "n \<le> length us"
  shows "\<exists>t1. ensure_body (schema_New us) t = (Inr (), t1) \<and> faults t1 = [] \<and> active t1"
proof -
  let ?t2 = "put_working (with_table (working t)) t"
  obtain vs where vs: "db_versions (with_table (working t)) = Some vs" "version_level vs = Some n"
    using assms(4) by (cases "db_versions (working t)") (auto simp: with_table_def db_level_def version_level_def)
  have exist: "doesSchemaTableExist t = (Inr (db_versions (working t) \<noteq> None), put_working (working t) t)"
    unfolding doesSchemaTableExist_def by (rule statement_ok) (simp_all add: assms)
  have table: "ensureSchemaTableExists t = (Inr (), ?t2)"
  proof (cases "db_versions (working t)")
    case None
    have "createSchemaTable (put_working (working t) t) = (Inr (), put_working (with_table (working t)) (put_working (working t) t))"
      unfolding createSchemaTable_def by (rule statement_ok) (simp_all add: assms None with_table_def)
    with exist None assms(3) show ?thesis
      by (simp add: ensureSchemaTableExists_def bindT_def wrapT_def put_working_def)
  next
    case (Some us)
    then have "with_table (working t) = working t" by (cases "working t") (simp add: with_table_def)
    with exist assms(3) Some show ?thesis
      by (simp add: ensureSchemaTableExists_def bindT_def wrapT_def returnT_def)
  qed
  have sel: "selectSchemaVersions ?t2 = (Inr (sort vs), put_working (working ?t2) ?t2)"
    unfolding selectSchemaVersions_def by (rule statement_ok) (simp_all add: assms vs)
  have fetch: "fetch_versions ?t2 = (Inr (sort vs), put_working (working ?t2) ?t2)"
    using sel version_level_no_repair [OF vs(2)] by (auto simp: fetch_versions_def bindT_def wrapT_def returnT_def)
  let ?t3 = "put_working (working ?t2) ?t2"
  have cur: "(if sort vs = [] then 0 else last (sort vs)) = int n" "sort vs \<noteq> [] \<Longrightarrow> checkSchemaVersionsHaveNoHoles (sort vs) = None"
    using vs(2) by (auto simp: version_level_def split: if_splits) (metis set_empty set_sort)+
  obtain t1 where "apply_updates (drop n us) None (int n) ?t3 = (Inr (), t1)" "faults t1 = []" "active t1"
    using apply_updates_completes [of "drop n us" ?t3 vs n] assms vs by (auto simp: with_table_def)
  then show ?thesis
    using table fetch cur assms(2,3,5)
    by (cases "sort vs = []"; cases "us = []")
      (auto simp: ensure_body_def schema_New_def ensureUpdatesAreApplied_def bindT_def Let_def returnT_def)
qed

section \<open>Evaluation\<close>

definition fresh_tx :: "'d database \<Rightarrow> 'd tx" where
  "fresh_tx d = \<lparr>stored = d, working = d, active = False, faults = [], backup = None\<rparr>"

lemmas tx_defs = returnT_def failT_def bindT_def wrapT_def fault_def put_working_def statement_def exec_COMMIT_def
  exec_BEGIN_def rollback_def Transaction_def doesSchemaTableExist_def createSchemaTable_def insertSchemaVersion_def
  selectSchemaVersions_def ensureSchemaTableExists_def schema_New_def run_update_def fetch_versions_def
  ensureUpdatesAreApplied_def ensure_body_def Ensure_def fresh_tx_def Let_def

section \<open>The properties\<close>

text \<open>
  C2. \<^verbatim>\<open>Ensure\<close> refines its specification, wherever SQLite fails: after an error the database on disk is unchanged;
  after a success every update above its level, and no other, has been applied once and in order, and its level is the number
  of updates.  This holds of a schema without a hook, and of the one of the daemon on a database that is past the legacy patches
  that need the database; the hook commits before those, and an error after that leaves the updates so far
  (\<open>Ensure_commits_midway\<close>).
\<close>

theorem Ensure_refines:
  assumes "\<not> active t" "db_level (stored t) = Some n"
    and "hook = None \<or> hook = Some (update_hook doBackup legacy) \<and> (\<forall>v p. int n \<le> v \<longrightarrow> map_of legacy v = Some p \<longrightarrow> \<not> NeedsDB p)"
  shows "case Ensure \<lparr>sch_updates = us, sch_hook = hook\<rparr> t of
      (Inl e, t1) \<Rightarrow> stored t1 = stored t
    | (Inr u, t1) \<Rightarrow> n \<le> length us \<and> run_all (drop n us) (db_content (stored t)) = Some (db_content (stored t1))
        \<and> db_level (stored t1) = Some (length us)"
proof -
  let ?inner = "map_option (\<lambda>_. inner_hook doBackup legacy) hook"
  let ?t = "t\<lparr>faults := tl (faults t), working := stored t, active := True\<rparr>"
  have silent: "silent ?inner" by (cases hook) (simp_all add: silent_None silent_inner)
  have "ensure_body \<lparr>sch_updates = us, sch_hook = hook\<rparr> ?t = ensure_body \<lparr>sch_updates = us, sch_hook = ?inner\<rparr> ?t"
    using assms(2,3) inner_hook_runs [of ?t n legacy us doBackup] by auto
  then have e: "Ensure \<lparr>sch_updates = us, sch_hook = hook\<rparr> t = Transaction (ensure_body \<lparr>sch_updates = us, sch_hook = ?inner\<rparr>) t"
    using assms(1) unfolding Ensure_def by (rule Transaction_cong [rotated])
  have k: "keeps (\<lambda>t'. active t' \<and> stored t' = stored t) (ensure_body \<lparr>sch_updates = us, sch_hook = ?inner\<rparr>)"
    using plain.P_ensure_body inner.P_ensure_body by (cases hook) simp_all
  obtain r t1 where run: "Transaction (ensure_body \<lparr>sch_updates = us, sch_hook = ?inner\<rparr>) t = (r, t1)" by force
  show ?thesis
  proof (cases r)
    case (Inl x)
    with e run Transaction_error [OF assms(1) k] show ?thesis by simp
  next
    case (Inr x)
    with run Transaction_success [OF assms(1)] obtain t3
      where t3: "ensure_body \<lparr>sch_updates = us, sch_hook = ?inner\<rparr> ?t = (Inr (), t3)" "stored t1 = working t3" by fastforce
    from ensure_body_Inr [OF t3(1) _ silent, of n] assms(2) t3(2) e run Inr show ?thesis by simp
  qed
qed

theorem Ensure_refines_witness:
  "stored (snd (Ensure \<lparr>sch_updates = [\<lambda>x. (None, x + 1), \<lambda>x. (Some (UpdateError []), x + 5)],
       sch_hook = Some (update_hook True [(1, \<lparr>NeedsDB = False, lp_hook = \<lambda>d. (None, d)\<rparr>)])\<rparr>
      (fresh_tx \<lparr>db_versions = None, db_content = 7 :: int\<rparr>))) = \<lparr>db_versions = None, db_content = 7\<rparr>"
proof -
  let ?us = "[\<lambda>x. (None, x + 1), \<lambda>x. (Some (UpdateError []), x + 5)]"
  let ?legacy = "[(1, \<lparr>NeedsDB = False, lp_hook = \<lambda>d. (None, d)\<rparr>)]"
  let ?s = "\<lparr>sch_updates = ?us, sch_hook = Some (update_hook True ?legacy)\<rparr>"
  let ?t = "fresh_tx \<lparr>db_versions = None, db_content = 7 :: int\<rparr>"
  have "fst (Ensure ?s ?t) = Inl (FailedUpdate 1 (UpdateError []))"
    by (simp add: tx_defs update_hook_def make_backup_def run_legacy_def other_connection_def)
  with Ensure_refines [of ?t 0 "Some (update_hook True ?legacy)" True ?legacy ?us] show ?thesis
    by (cases "Ensure ?s ?t") (simp add: fresh_tx_def db_level_def)
qed

text \<open>
  C25. Without faults \<^verbatim>\<open>Ensure\<close> succeeds on every database whose level is not above the number of updates and
  on which the missing updates succeed.
\<close>

theorem Ensure_completes:
  assumes "\<not> active t" "faults t = []" "db_level (stored t) = Some n" "n \<le> length us"
    and "run_all (drop n us) (db_content (stored t)) \<noteq> None"
  shows "fst (Ensure (schema_New us) t) = Inr ()"
proof -
  let ?t = "t\<lparr>faults := [], working := stored t, active := True\<rparr>"
  obtain t1 where "ensure_body (schema_New us) ?t = (Inr (), t1)" "faults t1 = []" "active t1"
    using ensure_body_completes [of n us ?t] assms by auto
  then show ?thesis
    unfolding Ensure_def by (rule Transaction_completes [OF assms(1,2)])
qed

theorem Ensure_completes_witness:
  "fst (Ensure (schema_New [\<lambda>x. (None, x + 1), \<lambda>x. (None, 2 * x)])
    (fresh_tx \<lparr>db_versions = Some [1], db_content = 7 :: int\<rparr>)) = Inr ()"
  by (rule Ensure_completes [where n = 1]) (simp_all add: fresh_tx_def db_level_def version_level_def)

text \<open>
  C17. The daemon's backup: whatever fails, and even with the legacy patches that commit in the middle of
  the run, the content on disk changes only after the database as it was has been backed up.
\<close>

theorem UpdatesApplyAll_backup:
  assumes "UpdatesApplyAll updates True legacy t = Some (r, t1)" "\<not> active t"
    and "db_content (stored t1) \<noteq> db_content (stored t)"
  shows "backup t1 = Some (stored t)"
proof -
  obtain s where s: "NewFromMap updates = Some s" using assms(1) by (auto simp: UpdatesApplyAll_def split: option.splits)
  define f where "f = ensure_body (schema_Hook s (update_hook True legacy))"
  have k: "keeps (backed_up (stored t)) f"
    using backed.P_ensure_body [of "stored t" "sch_updates s" legacy] by (cases s) (simp add: f_def schema_Hook_def)
  have tr: "Transaction f (t\<lparr>backup := None\<rparr>) = (r, t1)"
    using assms(1) s by (simp add: UpdatesApplyAll_def Ensure_def f_def)
  obtain b t2 where b: "exec_BEGIN (t\<lparr>backup := None\<rparr>) = (b, t2)" by force
  show ?thesis
  proof (cases b)
    case (Inl x)
    with b tr assms(2,3) show ?thesis
      by (auto simp: Transaction_def exec_BEGIN_def bindT_def fault_def split: if_splits)
  next
    case (Inr u)
    then have "backed_up (stored t) t2"
      using b assms(2) by (auto simp: backed_up_def exec_BEGIN_def bindT_def fault_def split: if_splits)
    moreover obtain r3 t3 where f: "f t2 = (r3, t3)" by force
    ultimately have t3: "backed_up (stored t) t3" using k by (metis keeps_def snd_conv)
    show ?thesis
    proof (cases r3)
      case (Inl y)
      with tr b \<open>b = Inr u\<close> f t3 assms(3) show ?thesis
        by (auto simp: Transaction_def rollback_def fault_def backed_up_def split: if_splits)
    next
      case (Inr y)
      with tr b \<open>b = Inr u\<close> f t3 assms(3) show ?thesis
        by (auto simp: Transaction_def exec_COMMIT_def bindT_def fault_def backed_up_def split: if_splits)
    qed
  qed
qed

theorem UpdatesApplyAll_backup_witness:
  "backup (snd (the (UpdatesApplyAll [(1, \<lambda>x. (None, x + 1))] True [] (fresh_tx \<lparr>db_versions = None, db_content = 7 :: int\<rparr>)))) =
    Some \<lparr>db_versions = None, db_content = 7\<rparr>"
proof -
  let ?t = "fresh_tx \<lparr>db_versions = None, db_content = 7 :: int\<rparr>"
  obtain r t1 where r: "UpdatesApplyAll [(1, \<lambda>x. (None, x + 1))] True [] ?t = Some (r, t1)"
    by (force simp: UpdatesApplyAll_def NewFromMap_def schema_New_def)
  moreover from r have "db_content (stored t1) = 8"
    by (auto simp: UpdatesApplyAll_def NewFromMap_def schema_Hook_def update_hook_def make_backup_def tx_defs)
  ultimately show ?thesis
    using UpdatesApplyAll_backup [OF r] by (simp add: fresh_tx_def)
qed

text \<open>
  The closures of the legacy patches all run the patch of the last round of the loop over a Go map: what the other
  four patches do has no influence on the update.
\<close>

theorem legacy_patches_ignored:
  assumes "run (snd (last rounds)) = run' (snd (last rounds))"
  shows "UpdatesApplyAll updates doBackup (legacy_map run rounds) t = UpdatesApplyAll updates doBackup (legacy_map run' rounds) t"
  using assms by (simp add: legacy_map_def Let_def)

theorem legacy_patches_ignored_witness:
  "UpdatesApplyAll updates True (legacy_map (\<lambda>p d. (None, d)) legacyPatches) t =
   UpdatesApplyAll updates True (legacy_map (\<lambda>p d. (if p = FromV30 then None else Some (UpdateError []), d)) legacyPatches) t"
  by (rule legacy_patches_ignored) (simp add: legacyPatches_def)

text \<open>
  A legacy patch that needs the database breaks the promise that an error leaves the database unchanged: the updates
  before it have been committed, and stay when a later update fails.
\<close>

theorem Ensure_commits_midway:
  assumes "u x = (None, y)" "u' y = (Some e, z)" "\<And>d. lp_hook p d = (None, d)" "NeedsDB p"
  shows "UpdatesApplyAll [(1, u), (2, u')] False [(1, p)] (fresh_tx \<lparr>db_versions = None, db_content = x\<rparr>) =
    Some (Inl (FailedUpdate 1 e),
      (fresh_tx \<lparr>db_versions = Some [1], db_content = y\<rparr>))"
  using assms
  by (simp add: UpdatesApplyAll_def NewFromMap_def schema_Hook_def update_hook_def make_backup_def run_legacy_def
      other_connection_def tx_defs)

theorem Ensure_commits_midway_witness:
  "snd (the (UpdatesApplyAll [(1, \<lambda>x. (None, x + 1)), (2, \<lambda>x. (Some (UpdateError []), x))] False
      [(1, \<lparr>NeedsDB = True, lp_hook = \<lambda>d. (None, d)\<rparr>)] (fresh_tx \<lparr>db_versions = None, db_content = 7 :: int\<rparr>))) =
    fresh_tx \<lparr>db_versions = Some [1], db_content = 8\<rparr>"
  by (subst Ensure_commits_midway [where y = 8 and z = 8 and e = "UpdateError []"]) simp_all

text \<open>What the loop over the patches leaves: \<open>k\<close> patches done and marked, and after an error the effect of the next one.\<close>

definition patched_by :: "'d patch list \<Rightarrow> 'd patched \<Rightarrow> schema_error option \<Rightarrow> 'd patched \<Rightarrow> nat \<Rightarrow> 'd \<Rightarrow> bool" where
  "patched_by pending s e s1 k x \<longleftrightarrow>
     p_applied s1 = p_applied s @ map fst (take k pending) \<and> run_all (map snd (take k pending)) (p_content s) = Some x \<and>
     (if e = None then k = length pending \<and> p_content s1 = x
      else k < length pending \<and> p_content s1 = snd (snd (pending ! k) x))"

lemma patched_by_step:
  assumes "patch_apply mark p s = (None, s2)" "patched_by ps s2 e s1 k x"
  shows "patched_by (p # ps) s e s1 (Suc k) x"
  using assms by (auto simp: patched_by_def patch_apply_def split: prod.splits option.splits if_splits)

lemma patched_by_stop:
  assumes "patch_apply mark p s = (Some e, s1)"
  shows "patched_by (p # ps) s (Some e) s1 0 (p_content s)"
  using assms by (auto simp: patched_by_def patch_apply_def split: prod.splits option.splits if_splits)

lemma patches_loop_patched:
  assumes "patches_loop mark done patches s = (e, s1)"
  shows "\<exists>k x. patched_by (filter (\<lambda>p. fst p \<notin> set done) patches) s e s1 k x"
  using assms
proof (induction patches arbitrary: s)
  case Nil
  then show ?case by (auto simp: patched_by_def)
next
  case (Cons p ps)
  obtain r s2 where ap: "patch_apply mark p s = (r, s2)" by force
  show ?case
  proof (cases "fst p \<in> set done")
    case False
    with Cons.prems ap Cons.IH [of s2] patched_by_step [of mark p s s2] patched_by_stop [of mark p s _ s2]
    show ?thesis by (cases r) (simp_all, blast+)
  qed (use Cons in simp)
qed

text \<open>
  C34. The patches run in their order.  A run that can read which patches are marked runs and marks the first ones of those that are
  not, in their order and on the content that the one before has left; all of them when it succeeds.  After an error the patch that
  failed, or that could not be marked, has run but is not marked.  A patch that is marked never runs again.
\<close>

theorem patchesApplyAll_progress:
  assumes "patchesApplyAll readable mark patches s = (e, s1)"
  shows "if \<not> readable then e = Some SqlFault \<and> s1 = s
    else let pending = filter (\<lambda>p. fst p \<notin> set (p_applied s)) patches in
      \<exists>k x. p_applied s1 = p_applied s @ map fst (take k pending)
        \<and> run_all (map snd (take k pending)) (p_content s) = Some x
        \<and> (if e = None then k = length pending \<and> p_content s1 = x
           else k < length pending \<and> p_content s1 = snd (snd (pending ! k) x))"
proof (cases readable)
  case True
  then have "patches_loop mark (p_applied s) patches s = (e, s1)" using assms by (simp add: patchesApplyAll_def)
  from patches_loop_patched [OF this, unfolded patched_by_def] True show ?thesis by (simp only: Let_def not_True_eq_False if_False)
qed (use assms in \<open>simp add: patchesApplyAll_def\<close>)

theorem patchesApplyAll_progress_witness:
  "patchesApplyAll True (\<lambda>_. True) [(''a'', \<lambda>x. (None, x + 1)), (''b'', \<lambda>x. (None, x + 2))]
     \<lparr>p_applied = [''a''], p_content = 5 :: int\<rparr> = (None, \<lparr>p_applied = [''a'', ''b''], p_content = 7\<rparr>)"
proof -
  let ?ps = "[(''a'', \<lambda>x. (None, x + 1)), (''b'', \<lambda>x. (None, x + 2))]"
  let ?s = "\<lparr>p_applied = [''a''], p_content = 5 :: int\<rparr>"
  obtain e s1 where r: "patchesApplyAll True (\<lambda>_. True) ?ps ?s = (e, s1)" by force
  then have e: "e = None" by (auto simp: patchesApplyAll_def patch_apply_def)
  from patchesApplyAll_progress [OF r] e have "p_applied s1 = [''a'', ''b'']" "p_content s1 = 7" by auto
  with r e show ?thesis by simp
qed

section \<open>Further facts\<close>

text \<open>The keys of an update map are the versions 1 to n, or building the schema panics.\<close>

lemma collect_updates_Some:
  "collect_updates m i vs = Some us \<Longrightarrow>
    vs = map int [i + 1..<i + 1 + length us] \<and> (\<forall>j < length us. map_of m (int (i + 1 + j)) = Some (us ! j))"
proof (induction m i vs arbitrary: us rule: collect_updates.induct)
  case (2 m i version versions)
  then obtain u vs where us: "version = int i + 1" "map_of m version = Some u" "collect_updates m (i + 1) versions = Some vs"
    "us = u # vs"
    by (auto split: if_splits option.splits)
  from 2(1) [OF _ us(3)] us(1) have IH: "versions = map int [i + 1 + 1..<i + 1 + 1 + length vs]"
    "\<forall>j < length vs. map_of m (int (i + 1 + 1 + j)) = Some (vs ! j)" by auto
  have "[i + 1..<i + 1 + length us] = (i + 1) # [i + 1 + 1..<i + 1 + 1 + length vs]"
    using us(4) by (simp add: upt_rec)
  moreover have "map_of m (int (i + 1 + j)) = Some (us ! j)" if "j < length us" for j
    using that us IH(2) by (cases j) (auto simp: add.commute)
  ultimately show ?case using us(1) IH(1) by simp
qed auto

lemma NewFromMap_versions:
  assumes "NewFromMap m = Some s"
  shows "set (keys_of m) = {1..int (length (sch_updates s))}"
    and "j < length (sch_updates s) \<Longrightarrow> map_of m (int j + 1) = Some (sch_updates s ! j)"
proof -
  obtain us where us: "collect_updates m 0 (sort (keys_of m)) = Some us" "sch_updates s = us"
    using assms by (auto simp: NewFromMap_def schema_New_def)
  note c = collect_updates_Some [OF us(1)]
  have "set (keys_of m) = set (sort (keys_of m))" by simp
  also have "\<dots> = int ` {1..<1 + length us}" using c by (auto simp del: upt_Suc)
  also have "\<dots> = {1..int (length us)}"
    using image_int_atLeastLessThan [of 1 "1 + length us"] by auto
  finally show "set (keys_of m) = {1..int (length (sch_updates s))}" using us(2) by simp
  show "map_of m (int j + 1) = Some (sch_updates s ! j)" if "j < length (sch_updates s)"
    using c that us(2) by (simp add: add.commute)
qed

text \<open>A retried call ends after a thousand tries, with the first outcome that is not a lock.\<close>

lemma retry_loop_find:
  "retry_loop attempt i n =
    (case find (\<lambda>r. r \<noteq> DbLocked) (map attempt [i..<i + n]) of None \<Rightarrow> DbLocked | Some r \<Rightarrow> r)"
proof (induction n arbitrary: i)
  case (Suc n)
  have "[i..<i + Suc n] = i # [i + 1..<i + 1 + n]" by (simp add: upt_rec)
  with Suc [of "i + 1"] show ?case by (simp split: db_result.split)
qed simp

lemma db_retry_first:
  assumes "attempt k = r" "r \<noteq> DbLocked" "k < 1000" "\<And>i. i < k \<Longrightarrow> attempt i = DbLocked"
  shows "db_retry attempt = r"
proof -
  have "retry_loop attempt i n = r" if "i \<le> k" "k < i + n" for i n
    using that
  proof (induction n arbitrary: i)
    case (Suc n)
    then show ?case using assms(1,2,4) by (cases "i = k") (auto split: db_result.split)
  qed simp
  from this [of 0 1000] assms(3) show ?thesis by (simp add: db_retry_def)
qed

end
