(* ===== verification/Daemon_Config.thy ===== *)
theory Daemon_Config
  imports Shared_Util
begin

text \<open>
  The server configuration: \<^verbatim>\<open>lxd/daemon_config.go\<close>, the config table of
  \<^verbatim>\<open>lxd/db/config.go\<close> and the replacement of the whole configuration in
  \<^verbatim>\<open>lxd/api_1.0.go\<close>.

  The table of the keys is fixed; the state is the value each key has in memory (none, or an
  empty one, when it is not set), the rows of the table in the database and the rest of the world, a type parameter.  What
  the keys call outside these files is a record of functions on the world.
\<close>

section \<open>Keys\<close>

datatype value_type = TBool | TInt | TString

datatype config_error =
    InvalidBool string
  | InvalidInt num_error
  | InvalidChoice "string list"
  | ValidatorError string
  | SetterError string
  | DbFailed
  | InvalidType string
  | BadKey string

text \<open>
  What the keys call: each function gets the world, and the values in memory where the code looks at them.
\<close>

record 'w externals =
  UpdateHTTPsPort :: "'w \<Rightarrow> string \<Rightarrow> string option \<times> 'w"
  ProxyFromConfig :: "'w \<Rightarrow> string \<Rightarrow> string \<Rightarrow> string \<Rightarrow> 'w"
  HashPassword :: "'w \<Rightarrow> string \<Rightarrow> (string + string) \<times> 'w"
  SetupStorageDriver :: "'w \<Rightarrow> string \<Rightarrow> string \<Rightarrow> string option \<times> 'w"
  LookPath :: "'w \<Rightarrow> string \<Rightarrow> string option"
  TriggerExpiry :: "'w \<Rightarrow> 'w"
  TriggerAutoUpdate :: "'w \<Rightarrow> 'w"
  LVMThinPoolUsers :: "'w \<Rightarrow> string + string list"
  LVMThinpoolExists :: "'w \<Rightarrow> string \<Rightarrow> string \<Rightarrow> string + bool"
  LVMCheckVolumeGroup :: "'w \<Rightarrow> string \<Rightarrow> string option"
  ZFSValidatePoolName :: "'w \<Rightarrow> string \<Rightarrow> string \<Rightarrow> string option"
  DbWriteFails :: "'w \<Rightarrow> bool"

datatype validator = NoValidator | ValidateCompression | ValidateThinPool | ValidateVolumeGroup | ValidateZFSPool
datatype setter = NoSetter | SetAddress | SetProxy | SetPassword | SetStorage
datatype trigger = NoTrigger | OnExpiry | OnAutoUpdateInterval

record config_key =
  valueType :: value_type
  defaultValue :: string
  validValues :: "string list option"
  hiddenValue :: bool
  validator :: validator
  setter :: setter
  trigger :: trigger

definition plain_key :: "value_type \<Rightarrow> config_key" where
  "plain_key t = \<lparr>valueType = t, defaultValue = [], validValues = None, hiddenValue = False,
     validator = NoValidator, setter = NoSetter, trigger = NoTrigger\<rparr>"

definition daemonConfig :: "(string, config_key) gomap" where
  "daemonConfig = [
     (''core.https_address'', (plain_key TString)\<lparr>setter := SetAddress\<rparr>),
     (''core.https_allowed_headers'', plain_key TString),
     (''core.https_allowed_methods'', plain_key TString),
     (''core.https_allowed_origin'', plain_key TString),
     (''core.proxy_http'', (plain_key TString)\<lparr>setter := SetProxy\<rparr>),
     (''core.proxy_https'', (plain_key TString)\<lparr>setter := SetProxy\<rparr>),
     (''core.proxy_ignore_hosts'', (plain_key TString)\<lparr>setter := SetProxy\<rparr>),
     (''core.trust_password'', (plain_key TString)\<lparr>hiddenValue := True, setter := SetPassword\<rparr>),
     (''images.auto_update_cached'', (plain_key TBool)\<lparr>defaultValue := ''true''\<rparr>),
     (''images.auto_update_interval'', (plain_key TInt)\<lparr>defaultValue := ''6'', trigger := OnAutoUpdateInterval\<rparr>),
     (''images.compression_algorithm'', (plain_key TString)\<lparr>defaultValue := ''gzip'', validator := ValidateCompression\<rparr>),
     (''images.remote_cache_expiry'', (plain_key TInt)\<lparr>defaultValue := ''10'', trigger := OnExpiry\<rparr>),
     (''storage.lvm_fstype'', (plain_key TString)\<lparr>defaultValue := ''ext4'', validValues := Some [''ext4'', ''xfs'']\<rparr>),
     (''storage.lvm_thinpool_name'', (plain_key TString)\<lparr>defaultValue := ''LXDPool'', validator := ValidateThinPool\<rparr>),
     (''storage.lvm_vg_name'', (plain_key TString)\<lparr>validator := ValidateVolumeGroup, setter := SetStorage\<rparr>),
     (''storage.lvm_volume_size'', (plain_key TString)\<lparr>defaultValue := ''10GiB''\<rparr>),
     (''storage.zfs_pool_name'', (plain_key TString)\<lparr>validator := ValidateZFSPool, setter := SetStorage\<rparr>)]"

section \<open>State and operations\<close>

record 'w config_state =
  cache :: "(string, string) gomap"
  db_rows :: "(string, string) gomap"
  world :: 'w

text \<open>\<^verbatim>\<open>Get\<close>; a key outside the table has an empty default here.\<close>

definition key_default :: "string \<Rightarrow> string" where
  "key_default k = (case map_of daemonConfig k of None \<Rightarrow> [] | Some c \<Rightarrow> defaultValue c)"

definition cfg_Get :: "(string, string) gomap \<Rightarrow> string \<Rightarrow> string" where
  "cfg_Get m k = (if mget m k = [] then key_default k else mget m k)"

definition cfg_GetBool :: "(string, string) gomap \<Rightarrow> string \<Rightarrow> bool" where
  "cfg_GetBool m k = IsTrue (cfg_Get m k)"

definition cfg_GetInt64 :: "(string, string) gomap \<Rightarrow> string \<Rightarrow> int" where
  "cfg_GetInt64 m k = fst (ParseInt (cfg_Get m k) 10 64)"

definition ValidateThinPoolName :: "'w externals \<Rightarrow> 'w config_state \<Rightarrow> string \<Rightarrow> string option" where
  "ValidateThinPoolName x s value = (case LVMThinPoolUsers x (world s) of
     Inl e \<Rightarrow> Some (''Error checking if a pool is already in use: '' @ e)
   | Inr users \<Rightarrow>
       if users \<noteq> [] then Some ''Can not change LVM config. Images or containers are still using LVs''
       else let vgname = cfg_Get (cache s) ''storage.lvm_vg_name'' in
         if value = [] then None
         else if vgname = [] then Some ''Can not set lvm_thinpool_name without lvm_vg_name set.''
         else (case LVMThinpoolExists x (world s) vgname value of
             Inl e \<Rightarrow> Some (''Error checking for thin pool: '' @ e)
           | Inr poolExists \<Rightarrow> if poolExists then None else Some ''Pool does not exist in Volume Group''))"

definition ValidateVolumeGroupName :: "'w externals \<Rightarrow> 'w config_state \<Rightarrow> string \<Rightarrow> string option" where
  "ValidateVolumeGroupName x s value = (case LVMThinPoolUsers x (world s) of
     Inl e \<Rightarrow> Some (''Error checking if a pool is already in use: '' @ e)
   | Inr users \<Rightarrow>
       if users \<noteq> [] then Some ''Can not change LVM config. Images or containers are still using LVs''
       else if value \<noteq> [] then LVMCheckVolumeGroup x (world s) value
       else None)"

definition run_validator :: "'w externals \<Rightarrow> validator \<Rightarrow> 'w config_state \<Rightarrow> string \<Rightarrow> string option" where
  "run_validator x v s value = (case v of
     NoValidator \<Rightarrow> None
   | ValidateCompression \<Rightarrow> if value = ''none'' then None else LookPath x (world s) value
   | ValidateThinPool \<Rightarrow> ValidateThinPoolName x s value
   | ValidateVolumeGroup \<Rightarrow> ValidateVolumeGroupName x s value
   | ValidateZFSPool \<Rightarrow> ZFSValidatePoolName x (world s) (cfg_Get (cache s) ''storage.zfs_pool_name'') value)"

definition bool_words :: "string list" where
  "bool_words = [''true'', ''false'', ''1'', ''0'', ''yes'', ''no'', ''on'', ''off'']"

text \<open>The checks on the type of a value, before the validator.\<close>

definition type_error :: "config_key \<Rightarrow> string \<Rightarrow> config_error option" where
  "type_error c value =
     (if valueType c = TBool \<and> \<not> StringInSlice (ToLower value) bool_words then Some (InvalidBool value)
      else case (if valueType c = TInt then snd (ParseInt value 10 64) else None) of
        Some e \<Rightarrow> Some (InvalidInt e)
      | None \<Rightarrow> (case validValues c of
            Some vs \<Rightarrow> if StringInSlice value vs then None else Some (InvalidChoice vs)
          | None \<Rightarrow> None))"

definition cfg_Validate :: "'w externals \<Rightarrow> config_key \<Rightarrow> 'w config_state \<Rightarrow> string \<Rightarrow> config_error option" where
  "cfg_Validate x c s value =
     (if value = [] then map_option ValidatorError (run_validator x (validator c) s (defaultValue c))
      else case type_error c value of
        Some e \<Rightarrow> Some e
      | None \<Rightarrow> map_option ValidatorError (run_validator x (validator c) s value))"

definition run_setter ::
  "'w externals \<Rightarrow> setter \<Rightarrow> 'w config_state \<Rightarrow> string \<Rightarrow> string \<Rightarrow> (string + string) \<times> 'w config_state" where
  "run_setter x f s key value = (case f of
     NoSetter \<Rightarrow> (Inr value, s)
   | SetAddress \<Rightarrow> (case UpdateHTTPsPort x (world s) value of
       (Some e, w) \<Rightarrow> (Inl e, s\<lparr>world := w\<rparr>) | (None, w) \<Rightarrow> (Inr value, s\<lparr>world := w\<rparr>))
   | SetProxy \<Rightarrow>
       let get = (\<lambda>k. if k = key then value else cfg_Get (cache s) k)
       in (Inr value, s\<lparr>world := ProxyFromConfig x (world s)
             (get ''core.proxy_https'') (get ''core.proxy_http'') (get ''core.proxy_ignore_hosts'')\<rparr>)
   | SetPassword \<Rightarrow>
       if value = [] then (Inr value, s)
       else (case HashPassword x (world s) value of (r, w) \<Rightarrow> (r, s\<lparr>world := w\<rparr>))
   | SetStorage \<Rightarrow>
       let oldValue = cfg_Get (cache s) key
       in (case SetupStorageDriver x (world s) key value of (e, w) \<Rightarrow>
            (case e of Some msg \<Rightarrow> Inl msg | None \<Rightarrow> Inr value,
             s\<lparr>world := w, cache := AList.update key oldValue (cache s)\<rparr>)))"

definition run_trigger :: "'w externals \<Rightarrow> trigger \<Rightarrow> 'w \<Rightarrow> 'w" where
  "run_trigger x f w = (case f of
     NoTrigger \<Rightarrow> w | OnExpiry \<Rightarrow> TriggerExpiry x w | OnAutoUpdateInterval \<Rightarrow> TriggerAutoUpdate x w)"

definition ConfigValueSet ::
  "'w externals \<Rightarrow> string \<Rightarrow> string \<Rightarrow> 'w config_state \<Rightarrow> config_error option \<times> 'w config_state" where
  "ConfigValueSet x key value s =
     (if DbWriteFails x (world s) then (Some DbFailed, s)
      else let rows = AList.delete key (db_rows s)
        in (None, s\<lparr>db_rows := (if value \<noteq> [] then AList.update key value rows else rows)\<rparr>))"

definition cfg_Set ::
  "'w externals \<Rightarrow> string \<Rightarrow> config_key \<Rightarrow> string \<Rightarrow> 'w config_state \<Rightarrow> config_error option \<times> 'w config_state" where
  "cfg_Set x name c value s =
     (if mget (cache s) name = value then (None, s)
      else case cfg_Validate x c s value of
        Some e \<Rightarrow> (Some e, s)
      | None \<Rightarrow> (case run_setter x (setter c) s name value of
          (Inl e, s1) \<Rightarrow> (Some (SetterError e), s1)
        | (Inr v, s1) \<Rightarrow>
            let s2 = s1\<lparr>cache := AList.update name v (cache s1)\<rparr> in
            (case ConfigValueSet x name v s2 of
               (Some e, s3) \<Rightarrow> (Some e, s3)
             | (None, s3) \<Rightarrow> (None, s3\<lparr>world := run_trigger x (trigger c) (world s3)\<rparr>))))"

text \<open>Loading the rows of the database: unknown keys are skipped.\<close>

definition daemonConfigInit :: "(string, string) gomap \<Rightarrow> 'w \<Rightarrow> 'w config_state" where
  "daemonConfigInit rows w =
     \<lparr>cache = filter (\<lambda>(k, v). mhas daemonConfig k) rows, db_rows = rows, world = w\<rparr>"

section \<open>Reading and replacing the configuration\<close>

datatype cfg_value = CNull | CBool bool | CString string | COther

definition daemonConfigRender :: "'w config_state \<Rightarrow> (string, cfg_value) gomap" where
  "daemonConfigRender s =
     map (\<lambda>(k, c). (k, if hiddenValue c then CBool True else CString (cfg_Get (cache s) k)))
       (filter (\<lambda>(k, c). cfg_Get (cache s) k \<noteq> defaultValue c) daemonConfig)"

definition special_keys :: "(string, string) gomap \<Rightarrow> (string, cfg_value) gomap \<Rightarrow> (string, cfg_value) gomap" where
  "special_keys oldConfig req = map (\<lambda>(k, v).
     (k, case map_of daemonConfig k of
         Some c \<Rightarrow> if hiddenValue c \<and> v = CBool True then CString (mget oldConfig k) else v
       | None \<Rightarrow> v)) req"

definition cget :: "(string, cfg_value) gomap \<Rightarrow> string \<Rightarrow> cfg_value" where
  "cget req k = (case map_of req k of None \<Rightarrow> CNull | Some v \<Rightarrow> v)"

definition changedConfig :: "(string, string) gomap \<Rightarrow> (string, cfg_value) gomap \<Rightarrow> (string, cfg_value) gomap" where
  "changedConfig oldConfig req =
     map (\<lambda>(k, v). (k, cget req k)) (filter (\<lambda>(k, v). cget req k \<noteq> CString v) oldConfig)
     @ filter (\<lambda>(k, v). \<not> mhas oldConfig k \<and> CString (mget oldConfig k) \<noteq> v) req"

text \<open>The loop over the changes, in the order of the iteration over the map.\<close>

fun put_loop ::
  "'w externals \<Rightarrow> (string, cfg_value) gomap \<Rightarrow> 'w config_state \<Rightarrow> config_error option \<times> 'w config_state" where
  "put_loop x [] s = (None, s)"
| "put_loop x ((key, valueRaw) # rest) s =
     (case (case valueRaw of CNull \<Rightarrow> Some [] | CString v \<Rightarrow> Some v | _ \<Rightarrow> None) of
        None \<Rightarrow> (Some (InvalidType key), s)
      | Some value \<Rightarrow> (case map_of daemonConfig key of
          None \<Rightarrow> (Some (BadKey key), s)
        | Some c \<Rightarrow> (case cfg_Set x key c value s of
            (Some e, s1) \<Rightarrow> (Some e, s1)
          | (None, s1) \<Rightarrow> put_loop x rest s1)))"

text \<open>\<open>order\<close> is the order in which the changes come.\<close>

definition api10Put ::
  "'w externals \<Rightarrow> ((string, cfg_value) gomap \<Rightarrow> (string, cfg_value) gomap) \<Rightarrow> (string, cfg_value) gomap \<Rightarrow>
   'w config_state \<Rightarrow> config_error option \<times> 'w config_state" where
  "api10Put x order req s =
     put_loop x (order (changedConfig (db_rows s) (special_keys (db_rows s) req))) s"

section \<open>The table of keys\<close>

lemma daemonConfig_ok: "gomap_ok daemonConfig"
  by (simp add: daemonConfig_def)

text \<open>A key with a setter has no type to violate; its default, and that of every other key, is of its type.\<close>

definition key_ok :: "config_key \<Rightarrow> bool" where
  "key_ok c \<longleftrightarrow>
     (setter c \<noteq> NoSetter \<longrightarrow> valueType c = TString \<and> validValues c = None) \<and>
     (setter c = SetStorage \<longrightarrow> defaultValue c = []) \<and>
     (defaultValue c = [] \<and> valueType c = TString \<or> type_error c (defaultValue c) = None)"

lemma ParseInt_defaults: "snd (ParseInt ''6'' 10 64) = None" "snd (ParseInt ''10'' 10 64) = None"
proof -
  have "dec_of_int 6 = ''6''" "dec_of_int 10 = ''10''" by code_simp+
  with ParseInt_dec_nonneg [of 6] ParseInt_dec_nonneg [of 10]
  show "snd (ParseInt ''6'' 10 64) = None" "snd (ParseInt ''10'' 10 64) = None" by simp_all
qed

lemma type_error_string: "valueType c = TString \<Longrightarrow> validValues c = None \<Longrightarrow> type_error c v = None"
  by (simp add: type_error_def)

lemma key_ok_string:
  "valueType c = TString \<Longrightarrow> validValues c = None \<Longrightarrow> setter c = SetStorage \<longrightarrow> defaultValue c = [] \<Longrightarrow> key_ok c"
  by (simp add: key_ok_def type_error_string)

lemma ToLower_true: "ToLower ''true'' = ''true''"
  by code_simp

lemma daemonConfig_keys: "list_all (\<lambda>(k, c). key_ok c) daemonConfig"
proof -
  have "key_ok ((plain_key TBool)\<lparr>defaultValue := ''true''\<rparr>)"
    by (simp add: plain_key_def key_ok_def type_error_def ToLower_true bool_words_def)
  moreover have "key_ok ((plain_key TInt)\<lparr>defaultValue := ''6'', trigger := OnAutoUpdateInterval\<rparr>)"
    "key_ok ((plain_key TInt)\<lparr>defaultValue := ''10'', trigger := OnExpiry\<rparr>)"
    by (simp_all add: plain_key_def key_ok_def type_error_def ParseInt_defaults)
  moreover have "key_ok ((plain_key TString)\<lparr>defaultValue := ''ext4'', validValues := Some [''ext4'', ''xfs'']\<rparr>)"
    by (simp add: plain_key_def key_ok_def type_error_def)
  moreover have "key_ok c" if "valueType c = TString" "validValues c = None" "setter c \<noteq> SetStorage \<or> defaultValue c = []" for c
    using that by (auto intro: key_ok_string)
  ultimately show ?thesis
    unfolding daemonConfig_def by (simp add: plain_key_def)
qed

lemma map_of_key_ok: "map_of daemonConfig k = Some c \<Longrightarrow> key_ok c"
  using daemonConfig_keys by (auto simp: list_all_iff dest: map_of_SomeD)

section \<open>Invariants of the state\<close>

text \<open>Every value in memory is of the type of its key.\<close>

definition cfg_typed :: "'w config_state \<Rightarrow> bool" where
  "cfg_typed s \<longleftrightarrow> (\<forall>k c. map_of daemonConfig k = Some c \<longrightarrow>
     mget (cache s) k = [] \<or> type_error c (mget (cache s) k) = None)"

text \<open>Memory and database agree on the keys of the table.\<close>

definition cfg_coherent :: "'w config_state \<Rightarrow> bool" where
  "cfg_coherent s \<longleftrightarrow> (\<forall>k. mhas daemonConfig k \<longrightarrow> mget (cache s) k = mget (db_rows s) k)"

lemma run_setter_state:
  assumes "run_setter x (setter c) s name v = (r, s1)" "map_of daemonConfig name = Some c"
  shows "(\<forall>k. mget (cache s1) k = mget (cache s) k) \<and> db_rows s1 = db_rows s"
proof (cases "setter c = SetStorage")
  case True
  then have "key_default name = []"
    using map_of_key_ok [OF assms(2)] assms(2) by (simp add: key_ok_def key_default_def)
  then have "cfg_Get (cache s) name = mget (cache s) name" by (simp add: cfg_Get_def)
  moreover obtain e w where "SetupStorageDriver x (world s) name v = (e, w)" by force
  ultimately show ?thesis
    using assms(1) True by (auto simp: run_setter_def mget_update)
next
  case False
  have "cache (snd (run_setter x f s name v)) = cache s \<and> db_rows (snd (run_setter x f s name v)) = db_rows s" if "f \<noteq> SetStorage" for f
    using that by (cases f) (simp_all add: run_setter_def Let_def split: prod.split option.split)
  with False assms(1) show ?thesis by (metis snd_conv)
qed

lemma run_setter_value:
  "run_setter x NoSetter s name v = (Inr w, s1) \<Longrightarrow> w = v"
  by (simp add: run_setter_def)

lemma ConfigValueSet_cache: "cache (snd (ConfigValueSet x k v s)) = cache s"
  by (simp add: ConfigValueSet_def Let_def)

lemma ConfigValueSet_rows:
  "ConfigValueSet x k v s = (None, s1) \<Longrightarrow> mget (db_rows s1) j = (if j = k then v else mget (db_rows s) j)"
  by (auto simp: ConfigValueSet_def Let_def go_map_simps split: if_splits)

text \<open>What a call of \<^verbatim>\<open>Set\<close> does to the value of each key.\<close>

lemma cfg_Set_effect:
  assumes "cfg_Set x name c value s = (e, s1)" "map_of daemonConfig name = Some c"
  shows "(\<forall>k. mget (cache s1) k = mget (cache s) k) \<and> db_rows s1 = db_rows s \<and> (e = None \<longrightarrow> mget (cache s) name = value)
    \<or> (\<exists>v. (\<forall>k. mget (cache s1) k = (if k = name then v else mget (cache s) k))
        \<and> (v = value \<or> setter c \<noteq> NoSetter) \<and> (value = [] \<or> type_error c value = None)
        \<and> (e = None \<and> (\<forall>k. mget (db_rows s1) k = (if k = name then v else mget (db_rows s) k))
           \<or> e = Some DbFailed \<and> db_rows s1 = db_rows s))"
proof (cases "mget (cache s) name = value \<or> cfg_Validate x c s value \<noteq> None")
  case True
  then have "s1 = s \<and> (e = None \<longrightarrow> mget (cache s) name = value)"
  proof (cases "mget (cache s) name = value")
    case True
    with assms(1) show ?thesis by (simp add: cfg_Set_def)
  next
    case False
    with True obtain y where "cfg_Validate x c s value = Some y" by auto
    with False assms(1) have "e = Some y" "s1 = s" by (simp_all add: cfg_Set_def)
    then show ?thesis by simp
  qed
  then show ?thesis by simp
next
  case False
  then have ty: "value = [] \<or> type_error c value = None"
    by (auto simp: cfg_Validate_def split: option.splits if_splits)
  obtain r s2 where set: "run_setter x (setter c) s name value = (r, s2)" by force
  note st = run_setter_state [OF set assms(2)]
  show ?thesis
  proof (cases r)
    case (Inl m)
    with False set assms(1) have "e = Some (SetterError m)" "s1 = s2" by (simp_all add: cfg_Set_def)
    with st show ?thesis by simp
  next
    case (Inr v)
    let ?s3 = "s2\<lparr>cache := AList.update name v (cache s2)\<rparr>"
    obtain d s4 where db: "ConfigValueSet x name v ?s3 = (d, s4)" by force
    have v: "v = value \<or> setter c \<noteq> NoSetter"
      by (metis Inr run_setter_value set)
    have c4: "cache s4 = AList.update name v (cache s2)"
      using ConfigValueSet_cache [of x name v ?s3] db by simp
    show ?thesis
    proof (cases d)
      case (Some m)
      then have "m = DbFailed" "db_rows s4 = db_rows s2" using db by (auto simp: ConfigValueSet_def Let_def split: if_splits)
      with False set Inr db Some assms(1) c4 st v ty show ?thesis
        by (intro disjI2 exI [of _ v]) (auto simp: cfg_Set_def Let_def go_map_simps)
    next
      case None
      with False set Inr db assms(1) c4 st v ty ConfigValueSet_rows [of x name v ?s3 s4] show ?thesis
        by (intro disjI2 exI [of _ v]) (auto simp: cfg_Set_def Let_def go_map_simps)
    qed
  qed
qed

lemma cfg_Set_typed:
  assumes "cfg_typed s" "map_of daemonConfig name = Some c"
  shows "cfg_typed (snd (cfg_Set x name c value s))"
proof -
  obtain e s1 where set: "cfg_Set x name c value s = (e, s1)" by force
  have ty: "type_error c v = None" if "setter c \<noteq> NoSetter" for v
    using map_of_key_ok [OF assms(2)] that type_error_string by (auto simp: key_ok_def)
  have "mget (cache s1) k = [] \<or> type_error ck (mget (cache s1) k) = None" if k: "map_of daemonConfig k = Some ck" for k ck
  proof -
    have old: "mget (cache s) k = [] \<or> type_error ck (mget (cache s) k) = None"
      using assms(1) k by (simp add: cfg_typed_def)
    from cfg_Set_effect [OF set assms(2)] consider "mget (cache s1) k = mget (cache s) k"
      | v where "k = name" "mget (cache s1) k = v" "v = value \<or> setter c \<noteq> NoSetter" "value = [] \<or> type_error c value = None"
      by (metis (no_types))
    then show ?thesis
    proof cases
      case 1
      with old show ?thesis by simp
    next
      case 2
      with k assms(2) ty show ?thesis by auto
    qed
  qed
  with set show ?thesis by (simp add: cfg_typed_def)
qed

lemma cfg_Set_coherent:
  assumes "cfg_coherent s" "map_of daemonConfig name = Some c" "cfg_Set x name c value s = (e, s1)" "e \<noteq> Some DbFailed"
  shows "cfg_coherent s1"
  using cfg_Set_effect [OF assms(3,2)] assms(1,4) by (auto simp: cfg_coherent_def)

lemma put_loop_invariant:
  assumes "P s" "put_loop x changes s = (e, s1)" "e \<noteq> Some bad"
    and "\<And>s name c v e s1. P s \<Longrightarrow> map_of daemonConfig name = Some c \<Longrightarrow> cfg_Set x name c v s = (e, s1) \<Longrightarrow> e \<noteq> Some bad \<Longrightarrow> P s1"
  shows "P s1"
  using assms(1,2,3)
proof (induction changes arbitrary: s)
  case Nil
  then show ?case by simp
next
  case (Cons change rest)
  obtain key raw where ch: "change = (key, raw)" by force
  let ?v = "case raw of CNull \<Rightarrow> Some [] | CString v \<Rightarrow> Some v | _ \<Rightarrow> None"
  show ?case
  proof (cases "?v = None \<or> map_of daemonConfig key = None")
    case True
    then have "s1 = s" using Cons.prems ch by (auto split: option.splits cfg_value.splits)
    with Cons.prems(1) show ?thesis by simp
  next
    case False
    then obtain v c where v: "?v = Some v" "map_of daemonConfig key = Some c"
      by (cases "?v"; cases "map_of daemonConfig key") auto
    obtain e1 s2 where set: "cfg_Set x key c v s = (e1, s2)" by force
    show ?thesis
    proof (cases e1)
      case (Some y)
      with Cons.prems ch v set assms(4) [OF Cons.prems(1) v(2) set] show ?thesis by simp
    next
      case None
      with Cons.IH [of s2] Cons.prems ch v set assms(4) [OF Cons.prems(1) v(2) set] show ?thesis by simp
    qed
  qed
qed

lemma typed_values:
  assumes "cfg_typed s" "map_of daemonConfig k = Some c"
  shows "valueType c = TInt \<Longrightarrow> ParseInt (cfg_Get (cache s) k) 10 64 = (cfg_GetInt64 (cache s) k, None)"
    and "valueType c = TBool \<Longrightarrow> StringInSlice (ToLower (cfg_Get (cache s) k)) bool_words"
    and "validValues c = Some vs \<Longrightarrow> valueType c = TString \<Longrightarrow> defaultValue c \<noteq> [] \<Longrightarrow> StringInSlice (cfg_Get (cache s) k) vs"
proof -
  have key: "key_default k = defaultValue c" using assms(2) by (simp add: key_default_def)
  have ok: "type_error c (cfg_Get (cache s) k) = None" if "valueType c \<noteq> TString \<or> defaultValue c \<noteq> []"
    using assms that map_of_key_ok [OF assms(2)] key by (auto simp: cfg_typed_def cfg_Get_def key_ok_def)
  show "valueType c = TInt \<Longrightarrow> ParseInt (cfg_Get (cache s) k) 10 64 = (cfg_GetInt64 (cache s) k, None)"
    using ok by (cases "ParseInt (cfg_Get (cache s) k) 10 64") (auto simp: type_error_def cfg_GetInt64_def split: option.splits)
  show "valueType c = TBool \<Longrightarrow> StringInSlice (ToLower (cfg_Get (cache s) k)) bool_words"
    using ok by (auto simp: type_error_def split: if_splits)
  show "validValues c = Some vs \<Longrightarrow> valueType c = TString \<Longrightarrow> defaultValue c \<noteq> [] \<Longrightarrow> StringInSlice (cfg_Get (cache s) k) vs"
    using ok by (auto simp: type_error_def split: if_splits)
qed

section \<open>The properties\<close>

text \<open>
  C9. Type safety of the configuration: whatever clients put, in whatever order the changes are applied, each integer key keeps a
  value that parses, each boolean key one of the boolean words, and a key with valid values one of them.
\<close>

theorem config_stays_typed:
  assumes "cfg_typed s" "api10Put x order req s = (e, s1)" "map_of daemonConfig k = Some c"
  shows "(valueType c = TInt \<longrightarrow> ParseInt (cfg_Get (cache s1) k) 10 64 = (cfg_GetInt64 (cache s1) k, None))
    \<and> (valueType c = TBool \<longrightarrow> ToLower (cfg_Get (cache s1) k) \<in> set bool_words)
    \<and> (k = ''storage.lvm_fstype'' \<longrightarrow> cfg_Get (cache s1) k \<in> {''ext4'', ''xfs''})"
proof -
  have step: "cfg_typed s2" if "cfg_typed s" "map_of daemonConfig name = Some c" "cfg_Set x name c v s = (e2, s2)"
    for s :: "'a config_state" and s2 name c v e2
    using cfg_Set_typed [OF that(1,2), of x v] that(3) by simp
  obtain bad where "e \<noteq> Some bad" by (metis config_error.distinct(1) option.inject)
  then have "cfg_typed s1"
    by (rule put_loop_invariant [where P = cfg_typed, OF assms(1) assms(2) [unfolded api10Put_def]]) (rule step)
  note typed = typed_values [OF this assms(3)]
  have "valueType c = TString \<and> defaultValue c \<noteq> [] \<and> validValues c = Some [''ext4'', ''xfs'']" if "k = ''storage.lvm_fstype''"
    using assms(3) that by (simp add: daemonConfig_def plain_key_def) (auto)
  with typed show ?thesis by auto
qed

text \<open>
  C23. After every replacement of the configuration, complete or stopped by an error, a restart reads back from the
  database the configuration in memory, unless writing to the database has failed.
\<close>

theorem config_survives_restart:
  assumes "cfg_coherent s" "api10Put x order req s = (e, s1)" "e \<noteq> Some DbFailed" "mhas daemonConfig k"
  shows "cfg_Get (cache (daemonConfigInit (db_rows s1) w)) k = cfg_Get (cache s1) k"
proof -
  have "cfg_coherent s1"
    by (rule put_loop_invariant [where P = cfg_coherent, OF assms(1) assms(2) [unfolded api10Put_def] assms(3)]) (rule cfg_Set_coherent)
  moreover have "mget (filter (\<lambda>(k, v). mhas daemonConfig k) rows) k = mget rows k" for rows :: "(string, string) gomap"
    using assms(4) by (induction rows) auto
  ultimately show ?thesis using assms(4) by (simp add: daemonConfigInit_def cfg_Get_def cfg_coherent_def)
qed

text \<open>
  The configuration in memory is changed before the database: when writing fails the client gets an error, but the new value
  is in effect until the daemon restarts.
\<close>

theorem failed_write_stays_in_effect:
  assumes "DbWriteFails x (world s)" "mget (cache s) ''core.https_allowed_origin'' \<noteq> v" "v \<noteq> []" "db_rows s = []"
  shows "api10Put x (\<lambda>changes. changes) [(''core.https_allowed_origin'', CString v)] s =
    (Some DbFailed, s\<lparr>cache := AList.update ''core.https_allowed_origin'' v (cache s)\<rparr>)"
proof -
  have "map_of daemonConfig ''core.https_allowed_origin'' = Some (plain_key TString)"
    by (simp add: daemonConfig_def plain_key_def)
  with assms show ?thesis
    by (simp add: api10Put_def changedConfig_def special_keys_def mhas_def cfg_Set_def cfg_Validate_def plain_key_def type_error_def
        run_validator_def run_setter_def Let_def ConfigValueSet_def)
qed

section \<open>Witnesses\<close>

definition quiet :: "bool externals" where
  "quiet = \<lparr>UpdateHTTPsPort = (\<lambda>w a. (None, w)), ProxyFromConfig = (\<lambda>w a b c. w), HashPassword = (\<lambda>w p. (Inr p, w)),
     SetupStorageDriver = (\<lambda>w k v. (None, w)), LookPath = (\<lambda>w p. None), TriggerExpiry = (\<lambda>w. w), TriggerAutoUpdate = (\<lambda>w. w),
     LVMThinPoolUsers = (\<lambda>w. Inr []), LVMThinpoolExists = (\<lambda>w v p. Inr True), LVMCheckVolumeGroup = (\<lambda>w v. None),
     ZFSValidatePoolName = (\<lambda>w old v. None), DbWriteFails = (\<lambda>w. w)\<rparr>"

lemma quiet_empty: "cfg_typed (daemonConfigInit [] w)" "cfg_coherent (daemonConfigInit [] w)"
  by (simp_all add: cfg_typed_def cfg_coherent_def daemonConfigInit_def)

theorem failed_write_stays_in_effect_witness:
  "fst (api10Put quiet (\<lambda>changes. changes) [(''core.https_allowed_origin'', CString ''x'')] (daemonConfigInit [] True)) = Some DbFailed"
  by (subst failed_write_stays_in_effect) (simp_all add: quiet_def daemonConfigInit_def)

theorem config_stays_typed_witness:
  "ToLower (cfg_Get (cache (snd (api10Put quiet rev [(''images.auto_update_cached'', CString ''maybe'')] (daemonConfigInit [] False)))) ''images.auto_update_cached'') \<in> set bool_words"
proof -
  obtain e s1 where r: "api10Put quiet rev [(''images.auto_update_cached'', CString ''maybe'')] (daemonConfigInit [] False) = (e, s1)" by force
  have "map_of daemonConfig ''images.auto_update_cached'' = Some ((plain_key TBool)\<lparr>defaultValue := ''true''\<rparr>)"
    by (simp add: daemonConfig_def plain_key_def)
  from config_stays_typed [OF quiet_empty(1) r this] r show ?thesis by (simp add: plain_key_def)
qed

theorem config_survives_restart_witness:
  "cfg_Get (cache (daemonConfigInit
      (db_rows (snd (api10Put quiet rev [(''core.https_allowed_origin'', CString ''x'')] (daemonConfigInit [] False)))) False))
    ''core.https_allowed_origin'' = ''x''"
proof -
  let ?r = "api10Put quiet rev [(''core.https_allowed_origin'', CString ''x'')] (daemonConfigInit [] False)"
  have key: "map_of daemonConfig ''core.https_allowed_origin'' = Some (plain_key TString)"
    by (simp add: daemonConfig_def plain_key_def)
  have "fst ?r = None" "cfg_Get (cache (snd ?r)) ''core.https_allowed_origin'' = ''x''"
    by (simp_all add: api10Put_def changedConfig_def special_keys_def mhas_def cfg_Set_def cfg_Validate_def plain_key_def
        type_error_def run_validator_def run_setter_def Let_def ConfigValueSet_def quiet_def daemonConfigInit_def key cfg_Get_def)
  moreover obtain e s1 where "?r = (e, s1)" by force
  ultimately show ?thesis
    using config_survives_restart [OF quiet_empty(2), of quiet rev "[(''core.https_allowed_origin'', CString ''x'')]" False e s1
        "''core.https_allowed_origin''" False] key
    by (simp add: mhas_def)
qed

end
