(* ===== verification/Container_Lock.thy ===== *)
theory Container_Lock
  imports Lxd_Prelude
begin

text \<open>
  The operation lock of a container (\<^verbatim>\<open>lxcContainerOperation\<close> in \<^verbatim>\<open>lxd/container_lxc.go\<close>), as a
  system of goroutines on one container.

  An operation is named by its position in the list of all that were created, which stands for its pointer.  The
  map of running operations has one entry for the container, or none.  A step is what a goroutine does up to its next
  access to shared state: \<^verbatim>\<open>createOperation\<close> looks at the map in one step and writes it in
  another, because \<^verbatim>\<open>getOperation\<close> releases the lock.
\<close>

section \<open>State\<close>

record lock_op =
  lo_action :: string
  lo_reusable :: bool
  lo_err :: "string option"
  lo_closed :: bool
  lo_watched :: bool

text \<open>
  What a goroutine is about to do: \<open>Creating\<close> a lock (action, reusable, reuse), having
  \<open>Looked\<close> at the map, \<open>Resetting\<close> the timer of a reused operation, \<open>Holding\<close>
  an operation to be finished with a result, \<open>Arriving\<close> at \<^verbatim>\<open>waitOperation\<close> or \<open>Waiting\<close> for
  an operation; then it is over.
\<close>

datatype goroutine =
    Creating string bool bool "string option"
  | Looked string bool bool "nat option" "string option"
  | Resetting nat "string option"
  | Holding nat "string option"
  | Arriving
  | Waiting nat
  | Refused string
  | Finished
  | Waited "string option"

record lock_sys =
  running :: "nat option"
  ops :: "lock_op list"
  gos :: "goroutine list"
  paniced :: bool

definition new_op :: "string \<Rightarrow> bool \<Rightarrow> lock_op" where
  "new_op action reusable =
     \<lparr>lo_action = action, lo_reusable = reusable, lo_err = None, lo_closed = False, lo_watched = True\<rparr>"

section \<open>Operations\<close>

text \<open>\<^verbatim>\<open>Done\<close>, all under the lock; closing a closed channel panics.\<close>

definition op_Done :: "nat \<Rightarrow> string option \<Rightarrow> lock_sys \<Rightarrow> lock_sys" where
  "op_Done i err s =
     (if running s \<noteq> Some i then s
      else s\<lparr>ops := (ops s)[i := (ops s ! i)\<lparr>lo_err := err, lo_closed := True\<rparr>], running := None,
             paniced := paniced s \<or> lo_closed (ops s ! i)\<rparr>)"

definition getOperation :: "string \<Rightarrow> lock_sys \<Rightarrow> nat option" where
  "getOperation action s = (case running s of
     None \<Rightarrow> None
   | Some i \<Rightarrow> if action \<noteq> [] \<and> lo_action (ops s ! i) \<noteq> action then None else Some i)"

definition timed_out :: string where
  "timed_out = ''Container operation timed out after 30 seconds''"

text \<open>The next step of a goroutine, \<open>None\<close> when it is blocked or over.\<close>

fun go_step :: "goroutine \<Rightarrow> lock_sys \<Rightarrow> (goroutine \<times> lock_sys) option" where
  "go_step (Creating action reusable reuse result) s =
     Some (Looked action reusable reuse (getOperation [] s) result, s)"
| "go_step (Looked action reusable reuse None result) s =
     Some (Holding (length (ops s)) result, s\<lparr>ops := ops s @ [new_op action reusable], running := Some (length (ops s))\<rparr>)"
| "go_step (Looked action reusable reuse (Some i) result) s =
     Some (if reuse \<and> lo_reusable (ops s ! i) then Resetting i result else Refused (lo_action (ops s ! i)), s)"
| "go_step (Resetting i result) s = (if lo_watched (ops s ! i) then Some (Holding i result, s) else None)"
| "go_step (Holding i result) s = Some (Finished, op_Done i result s)"
| "go_step Arriving s =
     (case getOperation [] s of None \<Rightarrow> Some (Waited None, s) | Some i \<Rightarrow> Some (Waiting i, s))"
| "go_step (Waiting i) s = (if lo_closed (ops s ! i) then Some (Waited (lo_err (ops s ! i)), s) else None)"
| "go_step (Refused action) s = None"
| "go_step Finished s = None"
| "go_step (Waited err) s = None"

text \<open>The goroutine of \<^verbatim>\<open>Create\<close> ends the operation when 30 seconds pass without a reset.\<close>

definition timer_step :: "nat \<Rightarrow> lock_sys \<Rightarrow> lock_sys" where
  "timer_step i s =
     op_Done i (Some timed_out) (s\<lparr>ops := (ops s)[i := (ops s ! i)\<lparr>lo_watched := False\<rparr>]\<rparr>)"

inductive lock_step :: "lock_sys \<Rightarrow> lock_sys \<Rightarrow> bool" where
  start: "g \<in> {Creating a r u res, Arriving} \<Longrightarrow> lock_step s (s\<lparr>gos := gos s @ [g]\<rparr>)"
| go: "j < length (gos s) \<Longrightarrow> go_step (gos s ! j) s = Some (g, s1) \<Longrightarrow> lock_step s (s1\<lparr>gos := (gos s)[j := g]\<rparr>)"
| timer: "i < length (ops s) \<Longrightarrow> lo_watched (ops s ! i) \<Longrightarrow> lock_step s (timer_step i s)"

inductive_cases lock_stepE: "lock_step s s1"

definition lock_init :: lock_sys where
  "lock_init = \<lparr>running = None, ops = [], gos = [], paniced = False\<rparr>"

definition lock_reachable :: "lock_sys \<Rightarrow> bool" where
  "lock_reachable s \<longleftrightarrow> lock_step\<^sup>*\<^sup>* lock_init s"

section \<open>The invariant\<close>

text \<open>
  The operation in the map is the last one created, is open and watched by its timer; every other operation is closed or has been
  overwritten, and the goroutines know only operations that exist.
\<close>

definition known :: "nat \<Rightarrow> goroutine \<Rightarrow> bool" where
  "known n g \<longleftrightarrow> (case g of Looked a r u (Some i) res \<Rightarrow> i < n | Resetting i res \<Rightarrow> i < n | Holding i res \<Rightarrow> i < n
     | Waiting i \<Rightarrow> i < n | _ \<Rightarrow> True)"

definition lock_ok :: "lock_sys \<Rightarrow> bool" where
  "lock_ok s \<longleftrightarrow> \<not> paniced s \<and> (\<forall>g \<in> set (gos s). known (length (ops s)) g)
     \<and> (\<forall>i. running s = Some i \<longrightarrow> Suc i = length (ops s) \<and> \<not> lo_closed (ops s ! i) \<and> lo_watched (ops s ! i))"

lemma known_simps [simp]:
  "known n (Creating a r u res)" "known n (Looked a r u None res)" "known n (Looked a r u (Some i) res) \<longleftrightarrow> i < n"
  "known n (Resetting i res) \<longleftrightarrow> i < n" "known n (Holding i res) \<longleftrightarrow> i < n" "known n Arriving" "known n (Waiting i) \<longleftrightarrow> i < n"
  "known n (Refused a)" "known n Finished" "known n (Waited e)"
  by (simp_all add: known_def)

lemma known_mono: "known n g \<Longrightarrow> n \<le> m \<Longrightarrow> known m g"
  by (auto simp: known_def split: goroutine.splits option.splits)

lemma op_Done_gos [simp]: "gos (op_Done i e s) = gos s"
  by (simp add: op_Done_def)

lemma op_Done_length [simp]: "length (ops (op_Done i e s)) = length (ops s)"
  by (simp add: op_Done_def)

lemma op_Done_ok: "lock_ok s \<Longrightarrow> lock_ok (op_Done i e s)"
  by (auto simp: lock_ok_def op_Done_def)

lemma getOperation_known: "lock_ok s \<Longrightarrow> getOperation a s = Some i \<Longrightarrow> i < length (ops s)"
  by (auto simp: getOperation_def lock_ok_def split: option.splits if_splits)

lemma go_step_ok:
  assumes "lock_ok s" "known (length (ops s)) g" "go_step g s = Some (g1, s1)"
  shows "lock_ok s1 \<and> gos s1 = gos s \<and> known (length (ops s1)) g1 \<and> length (ops s) \<le> length (ops s1)"
  using assms
proof (cases "(g, s)" rule: go_step.cases)
  case (2 action reusable reuse result)
  have "known (Suc (length (ops s))) h" if "h \<in> set (gos s)" for h
    using that assms(1) known_mono [of "length (ops s)" h "Suc (length (ops s))"] by (simp add: lock_ok_def)
  with 2 assms show ?thesis by (auto simp: lock_ok_def new_op_def nth_append)
next
  case (1 action reusable reuse result)
  with assms getOperation_known [OF assms(1), of "[]"] show ?thesis by (cases "getOperation [] s") auto
next
  case (5 i result)
  with assms op_Done_ok show ?thesis by auto
qed (use assms(1) getOperation_known [OF assms(1), of "[]"] in \<open>auto split: option.splits if_splits\<close>)

lemma lock_step_ok:
  assumes "lock_step s s1" "lock_ok s"
  shows "lock_ok s1"
  using assms(1)
proof cases
  case (start g a r u res)
  with assms(2) show ?thesis by (auto simp: lock_ok_def)
next
  case (go j g s2)
  have "known (length (ops s)) (gos s ! j)" using assms(2) go(2) by (simp add: lock_ok_def)
  from go_step_ok [OF assms(2) this go(3)] go(1) show ?thesis
    by (auto simp: lock_ok_def dest!: set_update_subset_insert [THEN subsetD])
next
  case (timer i)
  show ?thesis
  proof (cases "running s = Some i")
    case True
    with assms(2) timer show ?thesis by (auto simp: lock_ok_def timer_step_def op_Done_def)
  next
    case False
    with assms(2) timer show ?thesis by (auto simp: lock_ok_def timer_step_def op_Done_def nth_list_update)
  qed
qed

lemma lock_reachable_ok: "lock_reachable s \<Longrightarrow> lock_ok s"
  unfolding lock_reachable_def
proof (induction rule: rtranclp_induct)
  case base
  show ?case by (simp add: lock_ok_def lock_init_def)
qed (rule lock_step_ok)

section \<open>Overwritten operations\<close>

lemma unwatch_closed [simp]:
  "lo_closed ((ops s)[k := (ops s ! k)\<lparr>lo_watched := w\<rparr>] ! i) = lo_closed (ops s ! i)"
  by (cases "k = i"; cases "i < length (ops s)") (simp_all add: list_update_beyond)

text \<open>An open operation that is not in the map stays so.\<close>

definition orphan :: "nat \<Rightarrow> lock_sys \<Rightarrow> bool" where
  "orphan i s \<longleftrightarrow> i < length (ops s) \<and> \<not> lo_closed (ops s ! i) \<and> running s \<noteq> Some i"

lemma orphan_Done: "orphan i s \<Longrightarrow> orphan i (op_Done k e s)"
  by (auto simp: orphan_def op_Done_def nth_list_update)

lemma orphan_go_step: "orphan i s \<Longrightarrow> go_step g s = Some (g1, s1) \<Longrightarrow> orphan i s1 \<and> gos s1 = gos s"
proof (cases "(g, s)" rule: go_step.cases)
  case (5 k result)
  moreover assume "orphan i s" "go_step g s = Some (g1, s1)"
  ultimately show ?thesis using orphan_Done [of i s k result] by auto
qed (auto simp: orphan_def nth_append split: option.splits if_splits)

lemma orphan_step:
  assumes "orphan i s" "lock_step s s1"
  shows "orphan i s1 \<and> (j < length (gos s) \<and> gos s ! j = Waiting i \<longrightarrow> j < length (gos s1) \<and> gos s1 ! j = Waiting i)"
  using assms(2)
proof cases
  case (start g a r u res)
  with assms(1) show ?thesis by (auto simp: orphan_def nth_append)
next
  case (go k g s2)
  have "go_step (Waiting i) s = None" using assms(1) by (simp add: orphan_def)
  with go orphan_go_step [OF assms(1) go(3)] show ?thesis by (auto simp: orphan_def nth_list_update)
next
  case (timer k)
  have "orphan i (s\<lparr>ops := (ops s)[k := (ops s ! k)\<lparr>lo_watched := False\<rparr>]\<rparr>)"
    using assms(1) by (simp add: orphan_def)
  with timer orphan_Done show ?thesis by (simp add: timer_step_def)
qed

section \<open>Looks that are up to date\<close>

definition up_to_date :: "lock_sys \<Rightarrow> bool" where
  "up_to_date s \<longleftrightarrow> list_all (\<lambda>g. case g of Looked a r u None res \<Rightarrow> running s = None | _ \<Rightarrow> True) (gos s)"

definition serial_step :: "lock_sys \<Rightarrow> lock_sys \<Rightarrow> bool" where
  "serial_step s s1 \<longleftrightarrow> lock_step s s1 \<and> up_to_date s1"

definition exclusive :: "lock_sys \<Rightarrow> bool" where
  "exclusive s \<longleftrightarrow> (\<forall>i < length (ops s). \<not> lo_closed (ops s ! i) \<longrightarrow> running s = Some i)"

lemma exclusive_Done:
  assumes "exclusive s"
  shows "exclusive (op_Done k e s)"
proof (cases "running s = Some k")
  case True
  have "lo_closed ((ops s)[k := (ops s ! k)\<lparr>lo_err := e, lo_closed := True\<rparr>] ! j)" if "j < length (ops s)" for j
    using assms True that by (cases "j = k") (auto simp: exclusive_def)
  with True show ?thesis by (simp add: exclusive_def op_Done_def)
next
  case False
  with assms show ?thesis by (simp add: op_Done_def)
qed

lemma exclusive_go_step:
  assumes "lock_ok s" "exclusive s" "g \<in> set (gos s)" "up_to_date s" "go_step g s = Some (g1, s1)"
  shows "exclusive s1"
  using assms
proof (cases "(g, s)" rule: go_step.cases)
  case (2 action reusable reuse result)
  with assms have "running s = None" by (auto simp: up_to_date_def list_all_iff)
  with 2 assms show ?thesis by (auto simp: exclusive_def nth_append less_Suc_eq)
next
  case (5 k result)
  with assms exclusive_Done show ?thesis by auto
qed (auto split: option.splits if_splits)

lemma exclusive_gos [simp]: "exclusive (s\<lparr>gos := xs\<rparr>) = exclusive s"
  by (simp add: exclusive_def)

lemma exclusive_step:
  assumes "lock_step s s1" "lock_ok s" "exclusive s" "up_to_date s"
  shows "exclusive s1"
  using assms(1)
proof cases
  case (start g a r u res)
  with assms(3) show ?thesis by simp
next
  case (go j g s2)
  with exclusive_go_step [OF assms(2,3) _ assms(4) go(3)] show ?thesis by simp
next
  case (timer i)
  have "exclusive (s\<lparr>ops := (ops s)[i := (ops s ! i)\<lparr>lo_watched := False\<rparr>]\<rparr>)"
    using assms(3) by (simp add: exclusive_def)
  with timer exclusive_Done show ?thesis by (simp add: timer_step_def)
qed

lemma serial_run: "serial_step\<^sup>*\<^sup>* lock_init s \<Longrightarrow> lock_ok s \<and> exclusive s \<and> up_to_date s"
proof (induction rule: rtranclp_induct)
  case base
  show ?case by (simp add: lock_ok_def exclusive_def up_to_date_def lock_init_def)
next
  case (step s s1)
  then show ?case using lock_step_ok [of s s1] exclusive_step [of s s1] by (auto simp: serial_step_def)
qed

section \<open>The properties\<close>

text \<open>
  C21. In every reachable state the lock has not panicked by closing a channel twice, and the operation in the map, if there is
  one, is open and can be ended by its timer: no container stays locked for ever.
\<close>

theorem lock_safe:
  assumes "lock_reachable s"
  shows "\<not> paniced s \<and> (\<forall>i. running s = Some i \<longrightarrow>
    \<not> lo_closed (ops s ! i) \<and> lock_step s (timer_step i s) \<and> running (timer_step i s) = None)"
proof -
  note ok = lock_reachable_ok [OF assms]
  moreover have "lock_step s (timer_step i s)" "running (timer_step i s) = None" if "running s = Some i" for i
    using ok that lock_step.timer [of i s] by (auto simp: lock_ok_def timer_step_def op_Done_def)
  ultimately show ?thesis by (auto simp: lock_ok_def)
qed

text \<open>
  C22. If every goroutine that has found no operation acts before another operation is put into the map, there is never more than one
  open operation: the lock is exclusive.
\<close>

theorem lock_exclusive_when_serial:
  assumes "serial_step\<^sup>*\<^sup>* lock_init s" "i < length (ops s)" "k < length (ops s)"
    and "\<not> lo_closed (ops s ! i)" "\<not> lo_closed (ops s ! k)"
  shows "i = k"
proof -
  have "exclusive s" using serial_run [OF assms(1)] by blast
  with assms(2-5) have "running s = Some i" "running s = Some k" unfolding exclusive_def by blast+
  then show ?thesis by simp
qed

text \<open>
  An operation that another one has overwritten in the map is never ended, neither by its owner nor by its timer: who waits for it
  waits for ever.
\<close>

theorem overwritten_waits_for_ever:
  assumes "lock_step\<^sup>*\<^sup>* s s1" "i < length (ops s)" "\<not> lo_closed (ops s ! i)" "running s \<noteq> Some i"
    and "j < length (gos s)" "gos s ! j = Waiting i"
  shows "gos s1 ! j = Waiting i \<and> go_step (gos s1 ! j) s1 = None"
proof -
  have "orphan i s1 \<and> j < length (gos s1) \<and> gos s1 ! j = Waiting i"
    using assms(1)
  proof (induction rule: rtranclp_induct)
    case base
    then show ?case using assms(2-6) by (simp add: orphan_def)
  next
    case (step t u)
    then show ?case using orphan_step [of i t u j] by blast
  qed
  then show ?thesis by (simp add: orphan_def)
qed

text \<open>Runs that a scheduler may choose: who starts, and which goroutine or timer makes the next step.\<close>

datatype move = Start goroutine | Go nat | Timer nat

fun run_move :: "lock_sys \<Rightarrow> move \<Rightarrow> lock_sys option" where
  "run_move s (Start (Creating a r u res)) = Some (s\<lparr>gos := gos s @ [Creating a r u res]\<rparr>)"
| "run_move s (Start Arriving) = Some (s\<lparr>gos := gos s @ [Arriving]\<rparr>)"
| "run_move s (Start _) = None"
| "run_move s (Go j) = (if j < length (gos s) then
     (case go_step (gos s ! j) s of None \<Rightarrow> None | Some (g, s1) \<Rightarrow> Some (s1\<lparr>gos := (gos s)[j := g]\<rparr>)) else None)"
| "run_move s (Timer i) = (if i < length (ops s) \<and> lo_watched (ops s ! i) then Some (timer_step i s) else None)"

fun run_moves :: "lock_sys \<Rightarrow> move list \<Rightarrow> lock_sys option" where
  "run_moves s [] = Some s"
| "run_moves s (m # ms) = (case run_move s m of None \<Rightarrow> None | Some s1 \<Rightarrow> run_moves s1 ms)"

lemma run_move_step: "run_move s m = Some s1 \<Longrightarrow> lock_step s s1"
  by (cases "(s, m)" rule: run_move.cases)
    (auto intro: lock_step.intros split: if_splits option.splits)

lemma run_moves_reachable: "run_moves s ms = Some s1 \<Longrightarrow> lock_step\<^sup>*\<^sup>* s s1"
  by (induction ms arbitrary: s)
    (auto split: option.splits dest!: run_move_step intro: converse_rtranclp_into_rtranclp)

lemma run_moves_init: "run_moves lock_init ms = Some s \<Longrightarrow> lock_reachable s"
  by (simp add: lock_reachable_def run_moves_reachable)

theorem lock_safe_witness:
  "\<exists>s. run_moves lock_init [Start (Creating ''stop'' False False None), Go 0, Go 0] = Some s
    \<and> running s = Some 0 \<and> running (timer_step 0 s) = None"
proof -
  obtain s where s: "run_moves lock_init [Start (Creating ''stop'' False False None), Go 0, Go 0] = Some s" "running s = Some 0"
    by (simp add: lock_init_def getOperation_def)
  with lock_safe [OF run_moves_init [OF s(1)]] show ?thesis by blast
qed

lemma serial_example:
  "serial_step\<^sup>*\<^sup>* lock_init (lock_init\<lparr>gos := [Creating ''stop'' False False None]\<rparr>)"
  using lock_step.start [of "Creating ''stop'' False False None" "''stop''" False False None lock_init]
  by (auto simp: serial_step_def up_to_date_def lock_init_def)

lemma serial_example_moves:
  "serial_step\<^sup>*\<^sup>* lock_init (the (run_moves lock_init [Start (Creating ''stop'' False False None), Go 0, Go 0]))"
proof -
  let ?s1 = "the (run_moves lock_init [Start (Creating ''stop'' False False None)])"
  let ?s2 = "the (run_moves lock_init [Start (Creating ''stop'' False False None), Go 0])"
  let ?s3 = "the (run_moves lock_init [Start (Creating ''stop'' False False None), Go 0, Go 0])"
  have "run_move lock_init (Start (Creating ''stop'' False False None)) = Some ?s1" "run_move ?s1 (Go 0) = Some ?s2" "run_move ?s2 (Go 0) = Some ?s3"
    by (simp_all add: lock_init_def getOperation_def)
  moreover have "up_to_date ?s1" "up_to_date ?s2" "up_to_date ?s3"
    by (simp_all add: lock_init_def getOperation_def up_to_date_def)
  ultimately have "serial_step lock_init ?s1" "serial_step ?s1 ?s2" "serial_step ?s2 ?s3"
    by (simp_all only: serial_step_def run_move_step simp_thms)
  then show ?thesis by (meson rtranclp.rtrancl_into_rtrancl rtranclp.rtrancl_refl)
qed

theorem lock_exclusive_when_serial_witness: "(0 :: nat) = 0 \<and> serial_step\<^sup>*\<^sup>* lock_init
    (the (run_moves lock_init [Start (Creating ''stop'' False False None), Go 0, Go 0]))"
  using lock_exclusive_when_serial [OF serial_example_moves, of 0 0] serial_example_moves
  by (simp add: lock_init_def getOperation_def new_op_def)

text \<open>
  The lock is not exclusive: two goroutines that look at the map before either has written it both get an
  operation, and the one that was overwritten has somebody waiting for it.  And resetting the timer of a reused
  operation blocks for ever when it has timed out in between.
\<close>

theorem lock_races:
  "(\<exists>s. lock_reachable s \<and> gos s = [Holding 0 None, Waiting 0, Holding 1 None] \<and> running s = Some 1
      \<and> \<not> lo_closed (ops s ! 0) \<and> \<not> lo_closed (ops s ! 1))
   \<and> (\<exists>s. lock_reachable s \<and> gos s = [Holding 0 None, Resetting 0 None] \<and> \<not> lo_watched (ops s ! 0)
      \<and> go_step (gos s ! 1) s = None)"
proof
  have "run_moves lock_init [Start (Creating ''stop'' False False None), Start Arriving, Start (Creating ''start'' False False None),
      Go 0, Go 2, Go 0, Go 1, Go 2] =
    Some \<lparr>running = Some 1, ops = [new_op ''stop'' False, new_op ''start'' False],
      gos = [Holding 0 None, Waiting 0, Holding 1 None], paniced = False\<rparr>"
    by (simp add: lock_init_def getOperation_def)
  from run_moves_init [OF this]
  show "\<exists>s. lock_reachable s \<and> gos s = [Holding 0 None, Waiting 0, Holding 1 None] \<and> running s = Some 1
      \<and> \<not> lo_closed (ops s ! 0) \<and> \<not> lo_closed (ops s ! 1)"
    by (force simp: new_op_def)
next
  have "run_moves lock_init [Start (Creating ''stop'' True False None), Go 0, Go 0, Start (Creating ''stop'' True True None),
      Go 1, Go 1, Timer 0] =
    Some \<lparr>running = None, ops = [(new_op ''stop'' True)\<lparr>lo_err := Some timed_out, lo_closed := True, lo_watched := False\<rparr>],
      gos = [Holding 0 None, Resetting 0 None], paniced = False\<rparr>"
    by (simp add: lock_init_def getOperation_def new_op_def timer_step_def op_Done_def)
  from run_moves_init [OF this]
  show "\<exists>s. lock_reachable s \<and> gos s = [Holding 0 None, Resetting 0 None] \<and> \<not> lo_watched (ops s ! 0)
      \<and> go_step (gos s ! 1) s = None"
    by (force simp: new_op_def)
qed

theorem overwritten_waits_for_ever_witness:
  "go_step (gos (\<lparr>running = None, ops = [new_op ''stop'' False], gos = [Waiting 0], paniced = False\<rparr>) ! 0)
     \<lparr>running = None, ops = [new_op ''stop'' False], gos = [Waiting 0], paniced = False\<rparr> = None"
  using overwritten_waits_for_ever [OF rtranclp.rtrancl_refl, of 0
      "\<lparr>running = None, ops = [new_op ''stop'' False], gos = [Waiting 0], paniced = False\<rparr>" 0]
  by (simp add: new_op_def)

end
