(* ===== verification/Db_Conn.thy ===== *)
theory Db_Conn
  imports Go_Strings
begin

text \<open>
  Statements on the database: the functions \<^verbatim>\<open>Begin\<close>, \<^verbatim>\<open>TxCommit\<close>, \<^verbatim>\<open>Exec\<close> and
  \<^verbatim>\<open>QueryScan\<close> of \<^verbatim>\<open>lxd/db/db.go\<close> as the rest of the package uses them, with the pattern of a
  transaction that is rolled back on the first error.

  A connection holds the data, whose type is a parameter, and the faults still to come: each statement takes the next one
  and fails when it is true (a database that stays locked for the 1000 attempts of a statement is such a fault, too).
  A statement about all fault lists covers every place where SQLite may fail.
\<close>

section \<open>Statements\<close>

datatype db_error =
    DbFault
  | UniqueFailed
  | ForeignKeyFailed
  | NotNullFailed
  | NoRows
  | NoSuchObject
  | AlreadyDefined
  | UnknownContainer
  | BadDeviceType string
  | BadDeviceTypeId int
  | ProfileUnreadable string
  | InsertFailed
  | NilStatement

record 'd conn =
  data :: 'd
  trouble :: "bool list"

type_synonym ('d, 'a) dbop = "'d conn \<Rightarrow> (db_error + 'a) \<times> 'd conn"

definition returnD :: "'a \<Rightarrow> ('d, 'a) dbop" where
  "returnD x s = (Inr x, s)"

definition failD :: "db_error \<Rightarrow> ('d, 'a) dbop" where
  "failD e s = (Inl e, s)"

definition bindD :: "('d, 'a) dbop \<Rightarrow> ('a \<Rightarrow> ('d, 'b) dbop) \<Rightarrow> ('d, 'b) dbop" where
  "bindD m k s = (case m s of (Inl e, s1) \<Rightarrow> (Inl e, s1) | (Inr x, s1) \<Rightarrow> k x s1)"

text \<open>Another error in place of the one of an operation, and an operation whose error is only looked at.\<close>

definition relabelD :: "(db_error \<Rightarrow> db_error) \<Rightarrow> ('d, 'a) dbop \<Rightarrow> ('d, 'a) dbop" where
  "relabelD w m s = (case m s of (Inl e, s1) \<Rightarrow> (Inl (w e), s1) | (Inr x, s1) \<Rightarrow> (Inr x, s1))"

definition attemptD :: "('d, 'a) dbop \<Rightarrow> ('d, db_error + 'a) dbop" where
  "attemptD m s = (case m s of (r, s1) \<Rightarrow> (Inr r, s1))"

definition faultD :: "('d, unit) dbop" where
  "faultD s = (if trouble s \<noteq> [] \<and> hd (trouble s) then Inl DbFault else Inr (), s\<lparr>trouble := tl (trouble s)\<rparr>)"

text \<open>A statement that changes the data, or fails and leaves them; a query.\<close>

definition execD :: "('d \<Rightarrow> db_error + 'd) \<Rightarrow> ('d, unit) dbop" where
  "execD f = bindD faultD (\<lambda>_ s. case f (data s) of Inl e \<Rightarrow> (Inl e, s) | Inr d \<Rightarrow> (Inr (), s\<lparr>data := d\<rparr>))"

definition queryD :: "('d \<Rightarrow> 'a) \<Rightarrow> ('d, 'a) dbop" where
  "queryD f = bindD faultD (\<lambda>_ s. (Inr (f (data s)), s))"

definition rowD :: "('d \<Rightarrow> 'a option) \<Rightarrow> ('d, 'a) dbop" where
  "rowD f = bindD (queryD f) (\<lambda>r. case r of None \<Rightarrow> failD NoRows | Some x \<Rightarrow> returnD x)"

fun eachD :: "('x \<Rightarrow> ('d, unit) dbop) \<Rightarrow> 'x list \<Rightarrow> ('d, unit) dbop" where
  "eachD f [] = returnD ()"
| "eachD f (x # xs) = bindD (f x) (\<lambda>_. eachD f xs)"

text \<open>
  A transaction as the package writes it: \<^verbatim>\<open>Begin\<close>, the statements with \<^verbatim>\<open>tx.Rollback()\<close> after
  the first error, \<^verbatim>\<open>TxCommit\<close>.  A rollback that fails and a commit that fails store nothing either.
\<close>

definition in_tx :: "('d, 'a) dbop \<Rightarrow> ('d, 'a) dbop" where
  "in_tx f s = (case faultD s of
     (Inl e, s1) \<Rightarrow> (Inl e, s1)
   | (Inr _, s1) \<Rightarrow> (case f s1 of
       (Inl e, s2) \<Rightarrow> (Inl e, (snd (faultD s2))\<lparr>data := data s\<rparr>)
     | (Inr x, s2) \<Rightarrow> (case faultD s2 of
         (Inl e, s3) \<Rightarrow> (Inl e, s3\<lparr>data := data s\<rparr>)
       | (Inr _, s3) \<Rightarrow> (Inr x, s3))))"

section \<open>Successful runs\<close>

text \<open>
  \<open>does m d x d'\<close>: a successful run of \<open>m\<close> on the data \<open>d\<close> gives \<open>x\<close> and leaves \<open>d'\<close>.
  The elimination rules take the run of a program apart.
\<close>

definition does :: "('d, 'a) dbop \<Rightarrow> 'd \<Rightarrow> 'a \<Rightarrow> 'd \<Rightarrow> bool" where
  "does m d x d' \<longleftrightarrow> (\<exists>s s'. m s = (Inr x, s') \<and> data s = d \<and> data s' = d')"

named_theorems does_elims \<open>elimination rules for successful runs\<close>

lemma doesI: "m s = (Inr x, s') \<Longrightarrow> does m (data s) x (data s')"
  by (auto simp: does_def)

lemma does_returnE [does_elims]:
  assumes "does (returnD y) d x d'" obtains "x = y" "d' = d"
  using assms by (auto simp: does_def returnD_def)

lemma does_failE [does_elims]:
  assumes "does (failD e) d x d'" obtains False
  using assms by (auto simp: does_def failD_def)

lemma does_bindE [does_elims]:
  assumes "does (bindD m k) d x d2" obtains y d1 where "does m d y d1" "does (k y) d1 x d2"
proof -
  obtain s s2 where s: "bindD m k s = (Inr x, s2)" "data s = d" "data s2 = d2" using assms by (auto simp: does_def)
  obtain r s1 where r: "m s = (r, s1)" by (cases "m s")
  with s(1) obtain y where "r = Inr y" "k y s1 = (Inr x, s2)" by (cases r) (simp_all add: bindD_def)
  with r s(2,3) that show ?thesis by (metis does_def)
qed

lemma does_relabelE [does_elims]:
  assumes "does (relabelD w m) d x d'" obtains "does m d x d'"
proof -
  obtain s s2 where s: "relabelD w m s = (Inr x, s2)" "data s = d" "data s2 = d'" using assms by (auto simp: does_def)
  obtain r where r: "m s = (r, s2)" using s(1) by (cases "m s"; cases "fst (m s)") (simp_all add: relabelD_def)
  with s(1) have "r = Inr x" by (cases r) (simp_all add: relabelD_def)
  with r s(2,3) that show ?thesis by (metis does_def)
qed

lemma does_faultE [does_elims]:
  assumes "does faultD d x d'" obtains "d' = d"
  using assms by (auto simp: does_def faultD_def)

lemma does_execE [does_elims]:
  assumes "does (execD f) d x d'" obtains "f d = Inr d'"
proof -
  obtain s s2 where s: "execD f s = (Inr x, s2)" "data s = d" "data s2 = d'" using assms by (auto simp: does_def)
  then have "f d = Inr d'" by (cases "f d") (auto simp: execD_def bindD_def faultD_def split: if_splits)
  then show ?thesis by (rule that)
qed

lemma does_queryE [does_elims]:
  assumes "does (queryD f) d x d'" obtains "x = f d" "d' = d"
  using assms unfolding queryD_def
  by (elim does_bindE does_faultE) (auto simp: does_def)

lemma does_rowE [does_elims]:
  assumes "does (rowD f) d x d'" obtains "f d = Some x" "d' = d"
  using assms unfolding rowD_def
  by (elim does_bindE does_queryE) (auto elim: does_failE does_returnE split: option.splits)

lemma does_txE [does_elims]:
  assumes "does (in_tx m) d x d'" obtains "does m d x d'"
proof -
  obtain s s' where s: "in_tx m s = (Inr x, s')" "data s = d" "data s' = d'" using assms by (auto simp: does_def)
  obtain r s1 where s1: "faultD s = (r, s1)" by (cases "faultD s")
  obtain r2 s2 where s2: "m s1 = (r2, s2)" by (cases "m s1")
  obtain r3 s3 where s3: "faultD s2 = (r3, s3)" by (cases "faultD s2")
  from s(1) s1 s2 s3 have "r2 = Inr x" "s' = s3" by (cases r; cases r2; cases r3; simp add: in_tx_def)+
  moreover have "data s1 = data s" "data s3 = data s2" using s1 s3 by (auto simp: faultD_def)
  ultimately have "does m d x d'" using s2 s(2,3) by (metis does_def)
  then show ?thesis by (rule that)
qed

lemma does_eachE:
  assumes "does (eachD f (x # xs)) d u d2" obtains d1 where "does (f x) d () d1" "does (eachD f xs) d1 () d2"
  using assms by (fastforce elim: does_bindE)

lemma does_seq:
  assumes "does (bindD m (\<lambda>_. k)) d x d2" obtains d1 where "does m d () d1" "does k d1 x d2"
proof -
  from assms obtain y d1 where "does m d y d1" "does k d1 x d2" by (rule does_bindE)
  then show ?thesis using that by (cases y) simp
qed

lemma does_after_fault: "does (bindD faultD (\<lambda>_. k)) d x d' \<Longrightarrow> does k d x d'"
  by (erule does_bindE, erule does_faultE, simp)

section \<open>What holds after every run\<close>

text \<open>\<open>keeps P m\<close>: \<open>m\<close> keeps \<open>P\<close> of the data, whether it succeeds or fails.\<close>

definition keeps :: "('d \<Rightarrow> bool) \<Rightarrow> ('d, 'a) dbop \<Rightarrow> bool" where
  "keeps P m \<longleftrightarrow> (\<forall>s. P (data s) \<longrightarrow> P (data (snd (m s))))"

named_theorems keeps_intros \<open>rules for invariants of programs\<close>

lemma keepsD: "keeps P m \<Longrightarrow> P (data s) \<Longrightarrow> m s = (r, s') \<Longrightarrow> P (data s')"
  unfolding keeps_def by (metis snd_conv)

lemma does_keeps: "keeps P m \<Longrightarrow> does m d x d' \<Longrightarrow> P d \<Longrightarrow> P d'"
  unfolding does_def using keepsD by blast

lemma keeps_return [keeps_intros]: "keeps P (returnD x)"
  by (simp add: keeps_def returnD_def)

lemma keeps_fail [keeps_intros]: "keeps P (failD e)"
  by (simp add: keeps_def failD_def)

lemma keeps_fault [keeps_intros]: "keeps P faultD"
  by (simp add: keeps_def faultD_def)

lemma keeps_bind [keeps_intros]:
  assumes "keeps P m" "\<And>x. keeps P (k x)" shows "keeps P (bindD m k)"
  unfolding keeps_def
proof (intro allI impI)
  fix s :: "'a conn" assume "P (data s)"
  moreover obtain r s1 where "m s = (r, s1)" by (cases "m s")
  ultimately show "P (data (snd (bindD m k s)))"
    using keepsD [OF assms(1), of s r s1] assms(2) by (cases r) (simp_all add: bindD_def keeps_def)
qed

lemma keeps_relabel [keeps_intros]: "keeps P m \<Longrightarrow> keeps P (relabelD w m)"
  by (auto simp: keeps_def relabelD_def split: prod.splits sum.splits)

lemma keeps_attempt [keeps_intros]: "keeps P m \<Longrightarrow> keeps P (attemptD m)"
  by (auto simp: keeps_def attemptD_def split: prod.splits)

lemma keeps_each [keeps_intros]: "(\<And>x. keeps P (f x)) \<Longrightarrow> keeps P (eachD f xs)"
  by (induction xs) (auto intro!: keeps_intros)

lemma keeps_execD: "(\<And>d d'. P d \<Longrightarrow> f d = Inr d' \<Longrightarrow> P d') \<Longrightarrow> keeps P (execD f)"
  by (simp add: keeps_def execD_def bindD_def faultD_def split: sum.splits)

lemma keeps_query [keeps_intros]: "keeps P (queryD f)"
  by (simp add: keeps_def queryD_def bindD_def faultD_def)

lemma keeps_row [keeps_intros]: "keeps P (rowD f)"
  unfolding rowD_def by (auto intro!: keeps_intros split: option.split)

lemma keeps_tx [keeps_intros]:
  assumes "keeps P m" shows "keeps P (in_tx m)"
  unfolding keeps_def
proof (intro allI impI)
  fix s :: "'a conn" assume P: "P (data s)"
  obtain r s1 where s1: "faultD s = (r, s1)" by (cases "faultD s")
  with P have P1: "P (data s1)" by (auto simp: faultD_def)
  show "P (data (snd (in_tx m s)))"
  proof (cases r)
    case Inl then show ?thesis using P1 s1 by (simp add: in_tx_def)
  next
    case (Inr u)
    obtain r2 s2 where s2: "m s1 = (r2, s2)" by (cases "m s1")
    then have "P (data s2)" using assms P1 by (metis keepsD)
    then show ?thesis using s1 s2 Inr P by (cases r2) (auto simp: in_tx_def faultD_def)
  qed
qed

text \<open>A transaction that fails leaves the data as they were.\<close>

lemma failed_tx_unchanged: "in_tx m s = (Inl e, s') \<Longrightarrow> data s' = data s"
  by (auto simp: in_tx_def faultD_def split: prod.splits sum.splits if_splits)

section \<open>Runs without faults\<close>

text \<open>A connection on which no statement fails.\<close>

definition calm :: "'d \<Rightarrow> 'd conn" where
  "calm d = \<lparr>data = d, trouble = []\<rparr>"

lemma calm_ops [simp]:
  "queryD f (calm d) = (Inr (f d), calm d)"
  "rowD g (calm d) = (case g d of None \<Rightarrow> Inl NoRows | Some x \<Rightarrow> Inr x, calm d)"
  "returnD x (calm d) = (Inr x, calm d)" "failD e (calm d) = (Inl e, calm d)"
  by (simp_all add: calm_def queryD_def rowD_def returnD_def failD_def bindD_def faultD_def split: option.split)

lemma calm_bind: "m (calm d) = (Inr x, calm d) \<Longrightarrow> bindD m k (calm d) = k x (calm d)"
  by (simp add: bindD_def)

text \<open>
  What an operation does when it succeeds does not depend on the faults: \<open>steady m\<close> says that each successful run
  of \<open>m\<close> is the one without faults.  It holds of all operations that do not look at an error.
\<close>

definition steady :: "('d, 'a) dbop \<Rightarrow> bool" where
  "steady m \<longleftrightarrow> (\<forall>s x s'. m s = (Inr x, s') \<longrightarrow> m (calm (data s)) = (Inr x, calm (data s')))"

named_theorems steady_intros \<open>rules for operations whose success does not depend on faults\<close>

lemma steady_does: "steady m \<Longrightarrow> does m d x d' \<Longrightarrow> m (calm d) = (Inr x, calm d')"
  by (auto simp: steady_def does_def)

lemma steady_return [steady_intros]: "steady (returnD x)"
  by (simp add: steady_def returnD_def)

lemma steady_fail [steady_intros]: "steady (failD e)"
  by (simp add: steady_def failD_def)

lemma steady_fault [steady_intros]: "steady faultD"
  by (simp add: steady_def faultD_def calm_def)

lemma steady_bind [steady_intros]:
  assumes "steady m" "\<And>x. steady (k x)" shows "steady (bindD m k)"
  unfolding steady_def
proof (intro allI impI)
  fix s s' :: "'a conn" and x assume "bindD m k s = (Inr x, s')"
  moreover obtain r s1 where r: "m s = (r, s1)" by (cases "m s")
  ultimately obtain y where y: "r = Inr y" "k y s1 = (Inr x, s')" by (cases r) (simp_all add: bindD_def)
  then have "m (calm (data s)) = (Inr y, calm (data s1))" "k y (calm (data s1)) = (Inr x, calm (data s'))"
    using assms r by (simp_all add: steady_def)
  then show "bindD m k (calm (data s)) = (Inr x, calm (data s'))" by (simp add: bindD_def)
qed

lemma steady_relabel [steady_intros]:
  assumes "steady m" shows "steady (relabelD w m)"
  unfolding steady_def
proof (intro allI impI)
  fix s s' :: "'a conn" and x assume "relabelD w m s = (Inr x, s')"
  moreover obtain r s1 where r: "m s = (r, s1)" by (cases "m s")
  ultimately have "r = Inr x" "s1 = s'" by (cases r; simp add: relabelD_def)+
  then show "relabelD w m (calm (data s)) = (Inr x, calm (data s'))"
    using assms r by (simp add: steady_def relabelD_def)
qed

lemma steady_exec [steady_intros]: "steady (execD f)"
  unfolding execD_def
  by (rule steady_bind [OF steady_fault]) (auto simp: steady_def calm_def split: sum.splits)

lemma steady_query [steady_intros]: "steady (queryD f)"
  unfolding queryD_def by (rule steady_bind [OF steady_fault]) (simp add: steady_def calm_def)

lemma steady_row [steady_intros]: "steady (rowD f)"
  unfolding rowD_def by (intro steady_intros) (simp add: steady_intros split: option.split)

lemma steady_each [steady_intros]: "(\<And>x. steady (f x)) \<Longrightarrow> steady (eachD f xs)"
  by (induction xs) (auto intro!: steady_intros)

end
