(* ===== verification/Container_Db.thy ===== *)
theory Container_Db
  imports Db_Conn Device_Lists
begin

text \<open>
  Containers and profiles in the database: \<^verbatim>\<open>lxd/db/containers.go\<close>, \<^verbatim>\<open>lxd/db/devices.go\<close>
  and \<^verbatim>\<open>lxd/db/profiles.go\<close>.

  The tables are lists of rows in the order of their insertion; the statements carry the constraints of
  \<^verbatim>\<open>CURRENT_SCHEMA\<close> (\<^verbatim>\<open>UNIQUE\<close>, \<^verbatim>\<open>NOT NULL\<close>, foreign keys, which
  \<^verbatim>\<open>enableForeignKeys\<close> switches on).  The tables of the configuration and the devices exist twice, with
  the same columns: of containers and of profiles.  Row ids are counted as \<^verbatim>\<open>AUTOINCREMENT\<close> does; the
  rows of the tables that nothing refers to have no id of their own here.
\<close>

section \<open>Tables\<close>

record container_row =
  cr_id :: int
  cr_name :: string
  cr_architecture :: int
  cr_type :: int
  cr_ephemeral :: int
  cr_stateful :: int
  cr_creation_date :: int

record profile_row =
  pr_id :: int
  pr_name :: string
  pr_description :: string

text \<open>The configuration and the devices of one kind of owner: the rows of
  \<^verbatim>\<open>*_config\<close>, \<^verbatim>\<open>*_devices\<close> and \<^verbatim>\<open>*_devices_config\<close>.\<close>

record owner_tables =
  config_rows :: "(int \<times> string \<times> string) list"
  device_rows :: "(int \<times> int \<times> string \<times> int) list"
  devcfg_rows :: "(int \<times> string \<times> string) list"
  next_device :: int

record lxd_db =
  containers :: "container_row list"
  profiles :: "profile_row list"
  of_containers :: owner_tables
  of_profiles :: owner_tables
  containers_profiles :: "(int \<times> int \<times> int) list"
  next_container :: int
  next_profile :: int

datatype owner = OContainer | OProfile

fun tables :: "owner \<Rightarrow> lxd_db \<Rightarrow> owner_tables" where
  "tables OContainer d = of_containers d"
| "tables OProfile d = of_profiles d"

fun set_tables :: "owner \<Rightarrow> owner_tables \<Rightarrow> lxd_db \<Rightarrow> lxd_db" where
  "set_tables OContainer t d = d\<lparr>of_containers := t\<rparr>"
| "set_tables OProfile t d = d\<lparr>of_profiles := t\<rparr>"

fun owner_ids :: "owner \<Rightarrow> lxd_db \<Rightarrow> int list" where
  "owner_ids OContainer d = map cr_id (containers d)"
| "owner_ids OProfile d = map pr_id (profiles d)"

text \<open>Deletion of the rows of owners, with the rows that refer to them.\<close>

definition drop_devices :: "(int \<Rightarrow> bool) \<Rightarrow> owner_tables \<Rightarrow> owner_tables" where
  "drop_devices gone t =
     (let dead = map fst (filter (\<lambda>(did, own, n, ty). gone own) (device_rows t))
      in t\<lparr>device_rows := filter (\<lambda>(did, own, n, ty). \<not> gone own) (device_rows t),
           devcfg_rows := filter (\<lambda>(did, k, v). did \<notin> set dead) (devcfg_rows t)\<rparr>)"

definition drop_owned :: "(int \<Rightarrow> bool) \<Rightarrow> owner_tables \<Rightarrow> owner_tables" where
  "drop_owned gone t =
     (drop_devices gone t)\<lparr>config_rows := filter (\<lambda>(own, k, v). \<not> gone own) (config_rows t)\<rparr>"

section \<open>Devices\<close>

definition dbDeviceTypeToString :: "int \<Rightarrow> db_error + string" where
  "dbDeviceTypeToString t =
     (if t = 0 then Inr ''none'' else if t = 1 then Inr ''nic'' else if t = 2 then Inr ''disk''
      else if t = 3 then Inr ''unix-char'' else if t = 4 then Inr ''unix-block'' else Inl (BadDeviceTypeId t))"

definition dbDeviceTypeToInt :: "string \<Rightarrow> db_error + int" where
  "dbDeviceTypeToInt t =
     (if t = ''none'' then Inr 0 else if t = ''nic'' then Inr 1 else if t = ''disk'' then Inr 2
      else if t = ''unix-char'' then Inr 3 else if t = ''unix-block'' then Inr 4 else Inl (BadDeviceType t))"

definition liftD :: "db_error + 'a \<Rightarrow> ('d, 'a) dbop" where
  "liftD r = (case r of Inl e \<Rightarrow> failD e | Inr x \<Rightarrow> returnD x)"

definition insert_config :: "owner \<Rightarrow> int \<Rightarrow> string \<times> string \<Rightarrow> (lxd_db, unit) dbop" where
  "insert_config w own kv = execD (\<lambda>d. let t = tables w d in
     if own \<notin> set (owner_ids w d) then Inl ForeignKeyFailed
     else if (own, fst kv) \<in> set (map (\<lambda>(o1, k, v). (o1, k)) (config_rows t)) then Inl UniqueFailed
     else Inr (set_tables w (t\<lparr>config_rows := config_rows t @ [(own, kv)]\<rparr>) d))"

text \<open>The insertion of a device, with \<^verbatim>\<open>LastInsertId\<close>.\<close>

definition insert_device :: "owner \<Rightarrow> int \<Rightarrow> string \<Rightarrow> int \<Rightarrow> (lxd_db, int) dbop" where
  "insert_device w own name t =
     bindD (execD (\<lambda>d. let tb = tables w d in
       if own \<notin> set (owner_ids w d) then Inl ForeignKeyFailed
       else if (own, name) \<in> set (map (\<lambda>(i, o1, n, ty). (o1, n)) (device_rows tb)) then Inl UniqueFailed
       else Inr (set_tables w (tb\<lparr>device_rows := device_rows tb @ [(next_device tb, own, name, t)],
                                 next_device := next_device tb + 1\<rparr>) d))) (\<lambda>_.
     relabelD (\<lambda>_. InsertFailed) (queryD (\<lambda>d. next_device (tables w d) - 1)))"

definition insert_devcfg :: "owner \<Rightarrow> int \<Rightarrow> string \<times> string \<Rightarrow> (lxd_db, unit) dbop" where
  "insert_devcfg w did kv = execD (\<lambda>d. let t = tables w d in
     if did \<notin> set (map fst (device_rows t)) then Inl ForeignKeyFailed
     else if (did, fst kv) \<in> set (map (\<lambda>(i, k, v). (i, k)) (devcfg_rows t)) then Inl UniqueFailed
     else Inr (set_tables w (t\<lparr>devcfg_rows := devcfg_rows t @ [(did, kv)]\<rparr>) d))"

definition add_device :: "owner \<Rightarrow> int \<Rightarrow> string \<times> Device \<Rightarrow> (lxd_db, unit) dbop" where
  "add_device w own kd =
     bindD (liftD (dbDeviceTypeToInt (mget (snd kd) ''type''))) (\<lambda>t.
     bindD (insert_device w own (fst kd) t) (\<lambda>did.
     eachD (insert_devcfg w did) (filter (\<lambda>(ck, cv). ck \<noteq> ''type'') (snd kd))))"

text \<open>The two faults are those of the statements' preparation.\<close>

definition DevicesAdd :: "owner \<Rightarrow> int \<Rightarrow> Devices \<Rightarrow> (lxd_db, unit) dbop" where
  "DevicesAdd w own devices =
     bindD faultD (\<lambda>_. bindD faultD (\<lambda>_. eachD (add_device w own) devices))"

definition dbDeviceConfig :: "owner \<Rightarrow> int \<Rightarrow> (lxd_db, Device) dbop" where
  "dbDeviceConfig w did =
     bindD (queryD (\<lambda>d. map snd (filter (\<lambda>(i, k, v). i = did) (devcfg_rows (tables w d))))) (\<lambda>rows.
     returnD (foldl (\<lambda>m (k, v). AList.update k v m) [] rows))"

fun read_devices :: "owner \<Rightarrow> (int \<times> string \<times> int) list \<Rightarrow> Devices \<Rightarrow> (lxd_db, Devices) dbop" where
  "read_devices w [] m = returnD m"
| "read_devices w ((did, name, t) # rows) m =
     bindD (liftD (dbDeviceTypeToString t)) (\<lambda>stype.
     bindD (dbDeviceConfig w did) (\<lambda>newdev.
     read_devices w rows (AList.update name (AList.update ''type'' stype newdev) m)))"

text \<open>The id of the owner with a name, for the \<^verbatim>\<open>JOIN\<close> of the queries.\<close>

fun owner_named :: "owner \<Rightarrow> string \<Rightarrow> lxd_db \<Rightarrow> int \<Rightarrow> bool" where
  "owner_named OContainer name d i \<longleftrightarrow> (name, i) \<in> set (map (\<lambda>r. (cr_name r, cr_id r)) (containers d))"
| "owner_named OProfile name d i \<longleftrightarrow> (name, i) \<in> set (map (\<lambda>r. (pr_name r, pr_id r)) (profiles d))"

definition Devices_of :: "owner \<Rightarrow> string \<Rightarrow> (lxd_db, Devices) dbop" where
  "Devices_of w qName =
     bindD (queryD (\<lambda>d. map (\<lambda>(did, own, n, t). (did, n, t))
       (filter (\<lambda>(did, own, n, t). owner_named w qName d own) (device_rows (tables w d))))) (\<lambda>rows.
     read_devices w rows [])"

section \<open>Containers\<close>

record ContainerArgs =
  Id :: int
  Architecture :: int
  BaseImage :: string
  Config :: strmap
  CreationDate :: int
  Ctype :: int
  ct_Devices :: Devices
  Ephemeral :: bool
  Name :: string
  Profiles :: "string list"
  Stateful :: bool

definition CTypeRegular :: int where
  "CTypeRegular = 0"

definition CTypeSnapshot :: int where
  "CTypeSnapshot = 1"

definition ContainerName :: "int \<Rightarrow> (lxd_db, string) dbop" where
  "ContainerName i = rowD (\<lambda>d. map_option cr_name (find (\<lambda>r. cr_id r = i) (containers d)))"

definition ContainerId :: "string \<Rightarrow> (lxd_db, int) dbop" where
  "ContainerId name = rowD (\<lambda>d. map_option cr_id (find (\<lambda>r. cr_name r = name) (containers d)))"

definition delete_container :: "int \<Rightarrow> lxd_db \<Rightarrow> lxd_db" where
  "delete_container i d =
     d\<lparr>containers := filter (\<lambda>r. cr_id r \<noteq> i) (containers d),
       of_containers := drop_owned (\<lambda>own. own = i) (of_containers d),
       containers_profiles := filter (\<lambda>(c, p, ord). c \<noteq> i) (containers_profiles d)\<rparr>"

definition ContainerRemove :: "string \<Rightarrow> (lxd_db, unit) dbop" where
  "ContainerRemove name = bindD (ContainerId name) (\<lambda>i. execD (\<lambda>d. Inr (delete_container i d)))"

text \<open>The four statements of \<^verbatim>\<open>ContainerConfigClear\<close>.\<close>

definition ContainerConfigClear :: "int \<Rightarrow> (lxd_db, unit) dbop" where
  "ContainerConfigClear i =
     bindD (execD (\<lambda>d. let t = of_containers d in
       Inr (d\<lparr>of_containers := t\<lparr>config_rows := filter (\<lambda>(own, k, v). own \<noteq> i) (config_rows t)\<rparr>\<rparr>))) (\<lambda>_.
     bindD (execD (\<lambda>d. Inr (d\<lparr>containers_profiles := filter (\<lambda>(c, p, ord). c \<noteq> i) (containers_profiles d)\<rparr>))) (\<lambda>_.
     bindD (execD (\<lambda>d. let t = of_containers d;
         dead = map fst (filter (\<lambda>(did, own, n, ty). own = i) (device_rows t)) in
       Inr (d\<lparr>of_containers := t\<lparr>devcfg_rows := filter (\<lambda>(did, k, v). did \<notin> set dead) (devcfg_rows t)\<rparr>\<rparr>))) (\<lambda>_.
     execD (\<lambda>d. Inr (d\<lparr>of_containers := drop_devices (\<lambda>own. own = i) (of_containers d)\<rparr>)))))"

definition ContainerConfigInsert :: "int \<Rightarrow> strmap \<Rightarrow> (lxd_db, unit) dbop" where
  "ContainerConfigInsert i config = bindD faultD (\<lambda>_. eachD (insert_config OContainer i) config)"

definition ContainerConfigGet :: "int \<Rightarrow> string \<Rightarrow> (lxd_db, string) dbop" where
  "ContainerConfigGet i key =
     rowD (\<lambda>d. map_option (\<lambda>(own, k, v). v) (find (\<lambda>(own, k, v). own = i \<and> k = key) (config_rows (of_containers d))))"

definition delete_config :: "int \<Rightarrow> string \<Rightarrow> lxd_db \<Rightarrow> db_error + lxd_db" where
  "delete_config i key d = (let t = of_containers d in
     Inr (d\<lparr>of_containers := t\<lparr>config_rows := filter (\<lambda>(own, k, v). \<not> (k = key \<and> own = i)) (config_rows t)\<rparr>\<rparr>))"

definition ContainerConfigRemove :: "int \<Rightarrow> string \<Rightarrow> (lxd_db, unit) dbop" where
  "ContainerConfigRemove i key = execD (delete_config i key)"

definition update_containers :: "(container_row \<Rightarrow> bool) \<Rightarrow> (container_row \<Rightarrow> container_row) \<Rightarrow> lxd_db \<Rightarrow> lxd_db" where
  "update_containers w f d = d\<lparr>containers := map (\<lambda>r. if w r then f r else r) (containers d)\<rparr>"

definition ContainerSetStateful :: "int \<Rightarrow> bool \<Rightarrow> (lxd_db, unit) dbop" where
  "ContainerSetStateful i st =
     execD (\<lambda>d. Inr (update_containers (\<lambda>r. cr_id r = i) (\<lambda>r. r\<lparr>cr_stateful := if st then 1 else 0\<rparr>) d))"

definition insert_profile_of :: "int \<Rightarrow> string \<Rightarrow> int \<Rightarrow> (lxd_db, unit) dbop" where
  "insert_profile_of i p ord = execD (\<lambda>d.
     case find (\<lambda>r. pr_name r = p) (profiles d) of
       None \<Rightarrow> Inl NotNullFailed
     | Some r \<Rightarrow>
         if i \<notin> set (owner_ids OContainer d) then Inl ForeignKeyFailed
         else if (i, pr_id r) \<in> set (map (\<lambda>(c, q, ord). (c, q)) (containers_profiles d)) then Inl UniqueFailed
         else Inr (d\<lparr>containers_profiles := containers_profiles d @ [(i, pr_id r, ord)]\<rparr>))"

fun profiles_loop :: "int \<Rightarrow> string list \<Rightarrow> int \<Rightarrow> (lxd_db, unit) dbop" where
  "profiles_loop i [] applyOrder = returnD ()"
| "profiles_loop i (p # ps) applyOrder =
     bindD (insert_profile_of i p applyOrder) (\<lambda>_. profiles_loop i ps (applyOrder + 1))"

definition ContainerProfilesInsert :: "int \<Rightarrow> string list \<Rightarrow> (lxd_db, unit) dbop" where
  "ContainerProfilesInsert i ps = bindD faultD (\<lambda>_. profiles_loop i ps 1)"

text \<open>The query joins the two tables and orders the rows; each profile id has one name.\<close>

definition profile_name :: "lxd_db \<Rightarrow> int \<Rightarrow> string option" where
  "profile_name d q = map_option pr_name (find (\<lambda>r. pr_id r = q) (profiles d))"

definition profile_names :: "lxd_db \<Rightarrow> int \<Rightarrow> string list" where
  "profile_names d i = List.map_filter (\<lambda>(c, q, ord). profile_name d q)
     (sort_key (\<lambda>(c, q, ord). ord) (filter (\<lambda>(c, q, ord). c = i) (containers_profiles d)))"

definition ContainerProfiles :: "int \<Rightarrow> (lxd_db, string list) dbop" where
  "ContainerProfiles i = queryD (\<lambda>d. profile_names d i)"

definition ContainerConfig :: "int \<Rightarrow> (lxd_db, strmap) dbop" where
  "ContainerConfig i =
     bindD (queryD (\<lambda>d. map snd (filter (\<lambda>(own, k, v). own = i) (config_rows (of_containers d))))) (\<lambda>rows.
     returnD (foldl (\<lambda>m (k, v). AList.update k v m) [] rows))"

definition ContainerGet :: "string \<Rightarrow> (lxd_db, ContainerArgs) dbop" where
  "ContainerGet name =
     bindD (rowD (\<lambda>d. find (\<lambda>r. cr_name r = name) (containers d))) (\<lambda>r.
     if cr_id r = - 1 then failD UnknownContainer
     else
       bindD (ContainerConfig (cr_id r)) (\<lambda>config.
       bindD (ContainerProfiles (cr_id r)) (\<lambda>ps.
       bindD (Devices_of OContainer name) (\<lambda>newdevs.
       returnD \<lparr>Id = cr_id r, Architecture = cr_architecture r, BaseImage = [], Config = config,
         CreationDate = cr_creation_date r, Ctype = cr_type r,
         ct_Devices = foldl (\<lambda>m (k, v). AList.update k v m) [] newdevs,
         Ephemeral = (cr_ephemeral r = 1), Name = name, Profiles = ps, Stateful = (cr_stateful r = 1)\<rparr>))))"

definition insert_container :: "ContainerArgs \<Rightarrow> int \<Rightarrow> (lxd_db, int) dbop" where
  "insert_container args now =
     bindD (execD (\<lambda>d.
       if Name args \<in> set (map cr_name (containers d)) then Inl UniqueFailed
       else Inr (d\<lparr>containers := containers d @
           [\<lparr>cr_id = next_container d, cr_name = Name args, cr_architecture = Architecture args, cr_type = Ctype args,
             cr_ephemeral = (if Ephemeral args then 1 else 0), cr_stateful = (if Stateful args then 1 else 0),
             cr_creation_date = now\<rparr>],
         next_container := next_container d + 1\<rparr>))) (\<lambda>_.
     relabelD (\<lambda>_. InsertFailed) (queryD (\<lambda>d. next_container d - 1)))"

text \<open>\<^verbatim>\<open>ContainerCreate\<close>; an error of the first query counts as a free name.\<close>

definition ContainerCreate :: "ContainerArgs \<Rightarrow> int \<Rightarrow> (lxd_db, int) dbop" where
  "ContainerCreate args now =
     bindD (attemptD (ContainerId (Name args))) (\<lambda>r. case r of
       Inr _ \<Rightarrow> failD AlreadyDefined
     | Inl _ \<Rightarrow> in_tx (
         bindD faultD (\<lambda>_.
         bindD (insert_container args now) (\<lambda>i.
         bindD (ContainerConfigInsert i (Config args)) (\<lambda>_.
         bindD (ContainerProfilesInsert i (Profiles args)) (\<lambda>_.
         bindD (DevicesAdd OContainer i (ct_Devices args)) (\<lambda>_. returnD i)))))))"

definition ContainersList :: "int \<Rightarrow> (lxd_db, string list) dbop" where
  "ContainersList cType =
     queryD (\<lambda>d. sort_by str_less (map cr_name (filter (\<lambda>r. cr_type r = cType) (containers d))))"

definition ContainerSetState :: "int \<Rightarrow> string \<Rightarrow> (lxd_db, unit) dbop" where
  "ContainerSetState i st = in_tx (
     bindD faultD (\<lambda>_.
     bindD (execD (delete_config i ''volatile.last_state.power'')) (\<lambda>_.
     bindD faultD (\<lambda>_.
     insert_config OContainer i (''volatile.last_state.power'', st)))))"

definition ContainerRename :: "string \<Rightarrow> string \<Rightarrow> (lxd_db, unit) dbop" where
  "ContainerRename oldName newName = in_tx (
     bindD faultD (\<lambda>_.
     execD (\<lambda>d.
       if oldName \<noteq> newName \<and> oldName \<in> set (map cr_name (containers d)) \<and> newName \<in> set (map cr_name (containers d))
       then Inl UniqueFailed
       else Inr (update_containers (\<lambda>r. cr_name r = oldName) (\<lambda>r. r\<lparr>cr_name := newName\<rparr>) d))))"

definition ContainerUpdate :: "int \<Rightarrow> int \<Rightarrow> bool \<Rightarrow> (lxd_db, unit) dbop" where
  "ContainerUpdate i arch eph =
     bindD faultD (\<lambda>_.
     execD (\<lambda>d. Inr (update_containers (\<lambda>r. cr_id r = i)
       (\<lambda>r. r\<lparr>cr_architecture := arch, cr_ephemeral := if eph then 1 else 0\<rparr>) d)))"

definition ContainerGetSnapshots :: "string \<Rightarrow> (lxd_db, string list) dbop" where
  "ContainerGetSnapshots name =
     queryD (\<lambda>d. map cr_name (filter (\<lambda>r. cr_type r = CTypeSnapshot \<and> HasPrefix (cr_name r) (name @ ''/'')) (containers d)))"

section \<open>Well-formed databases\<close>

definition tables_ok :: "int list \<Rightarrow> owner_tables \<Rightarrow> bool" where
  "tables_ok ids t \<longleftrightarrow>
     distinct (map (\<lambda>(own, k, v). (own, k)) (config_rows t)) \<and>
     list_all (\<lambda>(own, k, v). own \<in> set ids) (config_rows t) \<and>
     distinct (map (\<lambda>(did, own, n, ty). (own, n)) (device_rows t)) \<and>
     distinct (map fst (device_rows t)) \<and>
     list_all (\<lambda>(did, own, n, ty). own \<in> set ids \<and> did < next_device t \<and> ty \<in> {0, 1, 2, 3, 4}) (device_rows t) \<and>
     distinct (map (\<lambda>(did, k, v). (did, k)) (devcfg_rows t)) \<and>
     list_all (\<lambda>(did, k, v). did \<in> set (map fst (device_rows t))) (devcfg_rows t)"

definition ids_ok :: "int list \<Rightarrow> string list \<Rightarrow> int \<Rightarrow> bool" where
  "ids_ok ids names nxt \<longleftrightarrow> distinct ids \<and> distinct names \<and> list_all (\<lambda>i. 0 < i \<and> i < nxt) ids \<and> 0 < nxt"

definition links_ok :: "int list \<Rightarrow> int list \<Rightarrow> (int \<times> int \<times> int) list \<Rightarrow> bool" where
  "links_ok cids pids links \<longleftrightarrow>
     distinct (map (\<lambda>(c, q, ord). (c, q)) links) \<and> list_all (\<lambda>(c, q, ord). c \<in> set cids \<and> q \<in> set pids) links"

definition db_ok :: "lxd_db \<Rightarrow> bool" where
  "db_ok d \<longleftrightarrow>
     ids_ok (map cr_id (containers d)) (map cr_name (containers d)) (next_container d) \<and>
     ids_ok (map pr_id (profiles d)) (map pr_name (profiles d)) (next_profile d) \<and>
     tables_ok (map cr_id (containers d)) (of_containers d) \<and>
     tables_ok (map pr_id (profiles d)) (of_profiles d) \<and>
     links_ok (map cr_id (containers d)) (map pr_id (profiles d)) (containers_profiles d)"

lemma tables_set_tables [simp]: "tables w (set_tables w2 t d) = (if w2 = w then t else tables w d)"
  by (cases w; cases w2) simp_all

lemma set_tables_twice [simp]: "set_tables w t (set_tables w t2 d) = set_tables w t d"
  by (cases w) simp_all

lemma owner_ids_set_tables [simp]: "owner_ids w (set_tables w2 t d) = owner_ids w d"
  by (cases w; cases w2) simp_all

lemma set_tables_frame [simp]:
  "containers (set_tables w t d) = containers d" "profiles (set_tables w t d) = profiles d"
  "containers_profiles (set_tables w t d) = containers_profiles d"
  "next_container (set_tables w t d) = next_container d" "next_profile (set_tables w t d) = next_profile d"
  by (cases w; simp)+

lemma tables_ok_of: "db_ok d \<Longrightarrow> tables_ok (owner_ids w d) (tables w d)"
  by (cases w) (simp_all add: db_ok_def)

lemma db_ok_set_tables: "db_ok d \<Longrightarrow> tables_ok (owner_ids w d) t \<Longrightarrow> db_ok (set_tables w t d)"
  by (cases w) (simp_all add: db_ok_def)

lemma keeps_liftD [keeps_intros]: "keeps P (liftD r)"
  by (cases r) (simp_all add: liftD_def keeps_intros)

lemma keeps_insert:
  assumes "\<And>d d'. f d = Inr d' \<Longrightarrow> good d \<and> d' = set_tables w (new d) d"
    and "\<And>d. tables_ok (owner_ids w d) (tables w d) \<Longrightarrow> good d \<Longrightarrow> tables_ok (owner_ids w d) (new d)"
  shows "keeps db_ok (execD f)"
  by (rule keeps_execD) (use assms tables_ok_of db_ok_set_tables in blast)

lemma keeps_insert_config [keeps_intros]: "keeps db_ok (insert_config w i kv)"
  unfolding insert_config_def Let_def
  by (rule keeps_insert [where new = "\<lambda>d. (tables w d)\<lparr>config_rows := config_rows (tables w d) @ [(i, kv)]\<rparr>"
        and good = "\<lambda>d. i \<in> set (owner_ids w d) \<and> (i, fst kv) \<notin> set (map (\<lambda>(o1, k, v). (o1, k)) (config_rows (tables w d)))"])
    (simp split: if_splits, force, cases kv, simp add: tables_ok_def)

lemma keeps_insert_device: "ty \<in> {0, 1, 2, 3, 4} \<Longrightarrow> keeps db_ok (insert_device w i n ty)"
proof -
  have "next_device t \<notin> fst ` set (device_rows t)" if "tables_ok ids t" for ids t
    using that by (auto simp: tables_ok_def list_all_iff)
  then show "ty \<in> {0, 1, 2, 3, 4} \<Longrightarrow> ?thesis"
    unfolding insert_device_def Let_def
    by (intro keeps_intros keeps_insert [where w = w and good = "\<lambda>d. i \<in> set (owner_ids w d)
        \<and> (i, n) \<notin> set (map (\<lambda>(i, o1, n, ty). (o1, n)) (device_rows (tables w d)))"
        and new = "\<lambda>d. (tables w d)\<lparr>device_rows := device_rows (tables w d) @ [(next_device (tables w d), i, n, ty)],
             next_device := next_device (tables w d) + 1\<rparr>"])
      (auto simp: tables_ok_def list_all_iff split: if_splits)
qed

lemma keeps_insert_devcfg [keeps_intros]: "keeps db_ok (insert_devcfg w did kv)"
  unfolding insert_devcfg_def Let_def
  by (rule keeps_insert [where new = "\<lambda>d. (tables w d)\<lparr>devcfg_rows := devcfg_rows (tables w d) @ [(did, kv)]\<rparr>"
        and good = "\<lambda>d. did \<in> set (map fst (device_rows (tables w d)))
           \<and> (did, fst kv) \<notin> set (map (\<lambda>(i, k, v). (i, k)) (devcfg_rows (tables w d)))"])
    (simp split: if_splits, force, cases kv, simp add: tables_ok_def)

lemma keeps_add_device [keeps_intros]: "keeps db_ok (add_device w i kd)"
proof (cases "dbDeviceTypeToInt (mget (snd kd) ''type'')")
  case (Inl e)
  then show ?thesis by (simp add: add_device_def liftD_def bindD_def failD_def keeps_def)
next
  case (Inr t)
  then have "t \<in> {0, 1, 2, 3, 4}" by (auto simp: dbDeviceTypeToInt_def split: if_splits)
  then have "keeps db_ok (bindD (insert_device w i (fst kd) t)
      (\<lambda>did. eachD (insert_devcfg w did) (filter (\<lambda>(ck, cv). ck \<noteq> ''type'') (snd kd))))"
    by (intro keeps_intros keeps_insert_device)
  then show ?thesis by (simp add: add_device_def Inr liftD_def bindD_def returnD_def keeps_def)
qed

lemma keeps_DevicesAdd [keeps_intros]: "keeps db_ok (DevicesAdd w i ds)"
  unfolding DevicesAdd_def by (intro keeps_intros)

text \<open>Deletions.\<close>

lemma tables_ok_drop_config:
  "tables_ok ids t \<Longrightarrow> tables_ok ids (t\<lparr>config_rows := filter P (config_rows t)\<rparr>)"
  by (simp add: tables_ok_def distinct_map_filter list_all_iff)

lemma tables_ok_drop_devcfg:
  "tables_ok ids t \<Longrightarrow> tables_ok ids (t\<lparr>devcfg_rows := filter P (devcfg_rows t)\<rparr>)"
  by (simp add: tables_ok_def distinct_map_filter list_all_iff)

lemma drop_devices_refs:
  assumes "\<forall>(did, k, v) \<in> set cfg. did \<in> fst ` set rows"
  shows "\<forall>(did, k, v) \<in> set (filter (\<lambda>(did, k, v). did \<notin> fst ` {x \<in> set rows. gone x}) cfg).
    did \<in> fst ` set (filter (\<lambda>x. \<not> gone x) rows)"
proof clarify
  fix did k v assume "(did, k, v) \<in> set (filter (\<lambda>(did, k, v). did \<notin> fst ` {x \<in> set rows. gone x}) cfg)"
  then have "did \<in> fst ` set rows" "did \<notin> fst ` {x \<in> set rows. gone x}" using assms by auto
  then show "did \<in> fst ` set (filter (\<lambda>x. \<not> gone x) rows)" by auto
qed

lemma tables_ok_drop_devices: "tables_ok ids t \<Longrightarrow> tables_ok ids (drop_devices gone t)"
  using drop_devices_refs [of "devcfg_rows t" "device_rows t" "\<lambda>(did, own, n, ty). gone own"]
  by (simp add: tables_ok_def drop_devices_def Let_def distinct_map_filter list_all_iff split_beta)

lemma tables_ok_fewer_ids:
  assumes "tables_ok ids t" "\<And>i. i \<in> set ids \<Longrightarrow> gone i \<or> i \<in> set ids2"
  shows "tables_ok ids2 (drop_owned gone t)"
proof -
  have "config_rows (drop_devices gone t) = config_rows t" by (simp add: drop_devices_def Let_def)
  then have ok: "tables_ok ids (drop_owned gone t)"
    using tables_ok_drop_config [OF tables_ok_drop_devices [OF assms(1)], of "\<lambda>(own, k, v). \<not> gone own" gone]
    by (simp add: drop_owned_def)
  have "\<forall>(own, k, v) \<in> set (config_rows (drop_owned gone t)). own \<in> set ids2"
    "\<forall>(did, own, n, ty) \<in> set (device_rows (drop_owned gone t)). own \<in> set ids2"
    using ok assms(2) by (fastforce simp: tables_ok_def list_all_iff drop_owned_def drop_devices_def Let_def)+
  then show ?thesis using ok by (simp add: tables_ok_def list_all_iff split_beta)
qed

lemma ids_ok_filter: "ids_ok (map f rs) (map g rs) n \<Longrightarrow> ids_ok (map f (filter P rs)) (map g (filter P rs)) n"
  by (simp add: ids_ok_def distinct_map_filter list_all_iff)

lemma links_ok_filter:
  assumes "links_ok cids pids links" "\<And>c q. c \<in> set cids \<Longrightarrow> q \<in> set pids \<Longrightarrow> P c q \<Longrightarrow> c \<in> set cids2 \<and> q \<in> set pids2"
  shows "links_ok cids2 pids2 (filter (\<lambda>(c, q, ord). P c q) links)"
  using assms by (fastforce simp: links_ok_def distinct_map_filter list_all_iff)

lemma keeps_delete_container [keeps_intros]: "keeps db_ok (execD (\<lambda>d. Inr (delete_container i d)))"
proof (rule keeps_execD)
  fix d d' assume ok: "db_ok d" and d': "Inr (delete_container i d) = Inr d'"
  let ?cs = "filter (\<lambda>r. cr_id r \<noteq> i) (containers d)"
  have left: "j = i \<or> j \<in> set (map cr_id ?cs)" if "j \<in> set (map cr_id (containers d))" for j
    using that by auto
  have "tables_ok (map cr_id ?cs) (drop_owned (\<lambda>own. own = i) (of_containers d))"
    using ok left by (intro tables_ok_fewer_ids) (auto simp: db_ok_def)
  moreover have "links_ok (map cr_id ?cs) (map pr_id (profiles d)) (filter (\<lambda>(c, q, ord). c \<noteq> i) (containers_profiles d))"
    using ok left by (intro links_ok_filter [where P = "\<lambda>c q. c \<noteq> i"]) (auto simp: db_ok_def)
  moreover have "ids_ok (map cr_id ?cs) (map cr_name ?cs) (next_container d)" using ok by (auto simp: db_ok_def intro: ids_ok_filter)
  ultimately show "db_ok d'" using ok d' by (auto simp: db_ok_def delete_container_def)
qed

lemma keeps_delete_config [keeps_intros]: "keeps db_ok (execD (delete_config i key))"
  by (rule keeps_execD) (auto simp: db_ok_def delete_config_def Let_def intro: tables_ok_drop_config)

lemma keeps_ContainerConfigClear [keeps_intros]: "keeps db_ok (ContainerConfigClear i)"
  unfolding ContainerConfigClear_def Let_def
  by (intro keeps_intros keeps_execD)
    (auto simp: db_ok_def intro: tables_ok_drop_config tables_ok_drop_devcfg tables_ok_drop_devices
      links_ok_filter [where P = "\<lambda>c q. c \<noteq> i"])

lemma db_ok_containers:
  assumes "db_ok d" "map cr_id rs = map cr_id (containers d)" "distinct (map cr_name rs)"
  shows "db_ok (d\<lparr>containers := rs\<rparr>)"
proof -
  have "ids_ok (map cr_id (containers d)) (map cr_name rs) (next_container d)"
    using assms(1,3) unfolding db_ok_def ids_ok_def by blast
  then show ?thesis using assms(1) by (simp add: db_ok_def assms(2))
qed

lemma keeps_update_containers [keeps_intros]:
  assumes "\<And>r. cr_id (f r) = cr_id r" "\<And>r. cr_name (f r) = cr_name r"
  shows "keeps db_ok (execD (\<lambda>d. Inr (update_containers w f d)))"
proof (rule keeps_execD)
  fix d d' assume ok: "db_ok d" and d': "Inr (update_containers w f d) = Inr d'"
  let ?rs = "map (\<lambda>r. if w r then f r else r) (containers d)"
  have "map cr_id ?rs = map cr_id (containers d)" "map cr_name ?rs = map cr_name (containers d)" using assms by auto
  then have "db_ok (d\<lparr>containers := ?rs\<rparr>)" using db_ok_containers [OF ok, of ?rs] ok by (metis db_ok_def ids_ok_def)
  then show "db_ok d'" using d' by (simp add: update_containers_def)
qed

lemma keeps_insert_profile_of [keeps_intros]: "keeps db_ok (insert_profile_of i p ord)"
  unfolding insert_profile_of_def
proof (rule keeps_execD, goal_cases)
  case (1 d d')
  then obtain r where r: "r \<in> set (profiles d)" "i \<in> set (map cr_id (containers d))"
    "(i, pr_id r) \<notin> set (map (\<lambda>(c, q, ord). (c, q)) (containers_profiles d))"
    "d' = d\<lparr>containers_profiles := containers_profiles d @ [(i, pr_id r, ord)]\<rparr>"
    by (auto split: option.splits if_splits dest: find_SomeD)
  then show ?case using 1(1) by (simp add: db_ok_def links_ok_def)
qed

lemma keeps_profiles_loop [keeps_intros]: "keeps db_ok (profiles_loop i ps ord)"
  by (induction ps arbitrary: ord) (auto intro!: keeps_intros)

lemma keeps_insert_container [keeps_intros]: "keeps db_ok (insert_container args now)"
proof -
  have more: "tables_ok (ids @ ids2) t" if "tables_ok ids t" for ids ids2 t
    using that by (auto simp: tables_ok_def list_all_iff)
  have more_links: "links_ok (ids @ ids2) pids ls" if "links_ok ids pids ls" for ids ids2 pids ls
    using that by (auto simp: links_ok_def list_all_iff)
  have ids: "ids_ok (ids @ [n]) (names @ [name]) (n + 1)" if "ids_ok ids names n" "name \<notin> set names" for ids names n name
    using that by (auto simp: ids_ok_def list_all_iff)
  show ?thesis unfolding insert_container_def
  proof (intro keeps_intros keeps_execD, goal_cases)
    case (1 d d')
    have "ids_ok (map cr_id (containers d) @ [next_container d]) (map cr_name (containers d) @ [Name args])
        (next_container d + 1)"
      by (rule ids) (use 1 in \<open>auto simp: db_ok_def split: if_splits\<close>)
    then show ?case using 1 by (auto simp: db_ok_def more more_links split: if_splits)
  qed
qed

lemma keeps_ContainerRename [keeps_intros]: "keeps db_ok (ContainerRename a b)"
proof -
  let ?f = "\<lambda>r. if cr_name r = a then r\<lparr>cr_name := b\<rparr> else r"
  have names: "distinct (map cr_name (map ?f rs))"
    if "distinct (map cr_name rs)" "a = b \<or> a \<notin> cr_name ` set rs \<or> b \<notin> cr_name ` set rs" for rs
  proof -
    have "map cr_name (map ?f rs) = map (\<lambda>n. if n = a then b else n) (map cr_name rs)" by (induction rs) auto
    moreover have "inj_on (\<lambda>n. if n = a then b else n) (set (map cr_name rs))" using that(2) by (auto simp: inj_on_def)
    ultimately show ?thesis using that(1) by (simp only: distinct_map [of "\<lambda>n. if n = a then b else n"])
  qed
  have ids: "map cr_id (map ?f rs) = map cr_id rs" for rs by (induction rs) auto
  show ?thesis unfolding ContainerRename_def
  proof (intro keeps_intros keeps_execD, goal_cases)
    case (1 u d d')
    let ?rs = "containers d"
    have new: "a = b \<or> a \<notin> cr_name ` set ?rs \<or> b \<notin> cr_name ` set ?rs" "d' = d\<lparr>containers := map ?f ?rs\<rparr>"
      using 1(2) by (auto simp: update_containers_def split: if_splits)
    show ?case unfolding new(2) using 1(1) names [OF _ new(1)] by (intro db_ok_containers ids) (simp_all add: db_ok_def ids_ok_def)
  qed
qed

lemmas container_ops = ContainerName_def ContainerId_def ContainerRemove_def ContainerConfigInsert_def ContainerConfigGet_def
  ContainerConfigRemove_def ContainerSetStateful_def ContainerProfilesInsert_def ContainerProfiles_def ContainerConfig_def
  ContainersList_def ContainerSetState_def ContainerUpdate_def ContainerGetSnapshots_def

lemma keeps_container_ops [keeps_intros]:
  "keeps db_ok (ContainerId name)" "keeps db_ok (ContainerRemove name)" "keeps db_ok (ContainerConfigInsert i m)"
  "keeps db_ok (ContainerConfigRemove i key)" "keeps db_ok (ContainerSetStateful i st)"
  "keeps db_ok (ContainerProfilesInsert i ps)" "keeps db_ok (ContainerSetState i pw)"
  "keeps db_ok (ContainerUpdate i arch eph)"
  unfolding container_ops by (intro keeps_intros; simp)+

lemma keeps_ContainerCreate [keeps_intros]: "keeps db_ok (ContainerCreate args now)"
  unfolding ContainerCreate_def
  by (rule keeps_bind) (auto intro!: keeps_intros split: sum.split)

section \<open>What the database says of an owner\<close>

definition config_of :: "owner \<Rightarrow> lxd_db \<Rightarrow> int \<Rightarrow> string \<rightharpoonup> string" where
  "config_of w d i = map_of (map snd (filter (\<lambda>(own, k, v). own = i) (config_rows (tables w d))))"

definition type_string :: "int \<Rightarrow> string" where
  "type_string t = (case dbDeviceTypeToString t of Inl _ \<Rightarrow> [] | Inr s \<Rightarrow> s)"

definition device_map :: "owner_tables \<Rightarrow> int \<times> int \<Rightarrow> string \<rightharpoonup> string" where
  "device_map t dt = (map_of (map snd (filter (\<lambda>(i, k, v). i = fst dt) (devcfg_rows t))))(''type'' \<mapsto> type_string (snd dt))"

definition own_devices :: "owner_tables \<Rightarrow> int \<Rightarrow> (string \<times> int \<times> int) list" where
  "own_devices t i = map (\<lambda>(did, own, n, ty). (n, did, ty)) (filter (\<lambda>(did, own, n, ty). own = i) (device_rows t))"

definition devices_of :: "owner \<Rightarrow> lxd_db \<Rightarrow> int \<Rightarrow> string \<rightharpoonup> (string \<rightharpoonup> string)" where
  "devices_of w d i = (\<lambda>name. map_option (device_map (tables w d)) (map_of (own_devices (tables w d) i) name))"

definition abs_devices :: "Devices \<Rightarrow> string \<rightharpoonup> (string \<rightharpoonup> string)" where
  "abs_devices ds = (\<lambda>name. map_option map_of (map_of ds name))"

lemma config_of_set_tables:
  "config_of w (set_tables w2 t d) i =
     (if w2 = w then map_of (map snd (filter (\<lambda>(own, k, v). own = i) (config_rows t))) else config_of w d i)"
  by (simp add: config_of_def)

lemma devices_of_set_tables:
  "devices_of w (set_tables w2 t d) i =
     (if w2 = w then (\<lambda>name. map_option (device_map t) (map_of (own_devices t i) name)) else devices_of w d i)"
  by (simp add: devices_of_def)

lemma does_liftE [does_elims]:
  assumes "does (liftD r) d x d'" obtains "r = Inr x" "d' = d"
  using assms by (cases r) (auto simp: liftD_def elim: does_failE does_returnE)

lemma does_insert_config:
  assumes "does (insert_config w i kv) d u d'"
  shows "d' = set_tables w ((tables w d)\<lparr>config_rows := config_rows (tables w d) @ [(i, kv)]\<rparr>) d"
    "(i, fst kv) \<notin> set (map (\<lambda>(o1, k, v). (o1, k)) (config_rows (tables w d)))" "i \<in> set (owner_ids w d)"
  using assms unfolding insert_config_def Let_def by (elim does_execE; simp split: if_splits)+

lemma does_insert_configs:
  assumes "does (eachD (insert_config w i) kvs) d u d'"
  shows "d' = set_tables w ((tables w d)\<lparr>config_rows := config_rows (tables w d) @ map (Pair i) kvs\<rparr>) d"
  using assms
proof (induction kvs arbitrary: d u)
  case Nil
  then show ?case by (cases w) (auto elim: does_returnE)
next
  case (Cons kv kvs)
  from Cons.prems obtain d1 where d1: "does (insert_config w i kv) d () d1" "does (eachD (insert_config w i) kvs) d1 () d'"
    by (rule does_eachE)
  show ?case unfolding Cons.IH [OF d1(2)] unfolding does_insert_config(1) [OF d1(1)] by simp
qed

lemma map_snd_filter_Pair: "filter (\<lambda>(own, k, v). own = i) (map (Pair j) kvs) = (if i = j then map (Pair j) kvs else [])"
  by (induction kvs) auto

lemma config_of_inserted:
  assumes "does (eachD (insert_config w i) kvs) d u d'"
  shows "config_of w d' j = (if j = i then map_of kvs ++ config_of w d i else config_of w d j)"
    "w2 \<noteq> w \<Longrightarrow> config_of w2 d' j = config_of w2 d j" "devices_of w2 d' = devices_of w2 d"
  unfolding does_insert_configs [OF assms]
  by (auto simp: config_of_set_tables config_of_def map_snd_filter_Pair comp_def devices_of_def own_devices_def
      device_map_def [abs_def] fun_eq_iff)

text \<open>Devices.\<close>

lemma type_string_of: "dbDeviceTypeToInt s = Inr t \<Longrightarrow> type_string t = s"
  by (auto simp: dbDeviceTypeToInt_def type_string_def dbDeviceTypeToString_def split: if_splits)

lemma does_insert_devcfg:
  assumes "does (insert_devcfg w did kv) d u d'"
  shows "d' = set_tables w ((tables w d)\<lparr>devcfg_rows := devcfg_rows (tables w d) @ [(did, kv)]\<rparr>) d"
  using assms unfolding insert_devcfg_def Let_def by (auto elim!: does_execE split: if_splits)

lemma does_insert_devcfgs:
  assumes "does (eachD (insert_devcfg w did) kvs) d u d'"
  shows "d' = set_tables w ((tables w d)\<lparr>devcfg_rows := devcfg_rows (tables w d) @ map (Pair did) kvs\<rparr>) d"
  using assms
proof (induction kvs arbitrary: d u)
  case Nil
  then show ?case by (cases w) (auto elim: does_returnE)
next
  case (Cons kv kvs)
  from Cons.prems obtain d1 where d1: "does (insert_devcfg w did kv) d () d1" "does (eachD (insert_devcfg w did) kvs) d1 () d'"
    by (rule does_eachE)
  show ?case unfolding Cons.IH [OF d1(2)] unfolding does_insert_devcfg [OF d1(1)] by simp
qed

lemma does_insert_device:
  assumes "does (insert_device w i n ty) d did d'"
  shows "did = next_device (tables w d)"
    "(i, n) \<notin> set (map (\<lambda>(i, o1, n, ty). (o1, n)) (device_rows (tables w d)))"
    "d' = set_tables w ((tables w d)\<lparr>device_rows := device_rows (tables w d) @ [(next_device (tables w d), i, n, ty)],
        next_device := next_device (tables w d) + 1\<rparr>) d"
proof -
  let ?t = "tables w d"
  let ?new = "set_tables w (?t\<lparr>device_rows := device_rows ?t @ [(next_device ?t, i, n, ty)],
    next_device := next_device ?t + 1\<rparr>) d"
  let ?ins = "\<lambda>d. let tb = tables w d in
       if i \<notin> set (owner_ids w d) then Inl ForeignKeyFailed
       else if (i, n) \<in> set (map (\<lambda>(i, o1, n, ty). (o1, n)) (device_rows tb)) then Inl UniqueFailed
       else Inr (set_tables w (tb\<lparr>device_rows := device_rows tb @ [(next_device tb, i, n, ty)],
                                 next_device := next_device tb + 1\<rparr>) d)"
  from assms obtain u d1 where "does (execD ?ins) d u d1"
    and q: "does (relabelD (\<lambda>_. InsertFailed) (queryD (\<lambda>d. next_device (tables w d) - 1))) d1 did d'"
    unfolding insert_device_def by (rule does_bindE)
  from this(1) have "?ins d = Inr d1" by (rule does_execE)
  then have ins: "(i, n) \<notin> set (map (\<lambda>(i, o1, n, ty). (o1, n)) (device_rows ?t))" "d1 = ?new"
    unfolding Let_def by (simp_all split: if_splits)
  from q have "did = next_device (tables w d1) - 1 \<and> d' = d1" by (blast elim: does_relabelE does_queryE)
  with ins show "did = next_device ?t" "(i, n) \<notin> set (map (\<lambda>(i, o1, n, ty). (o1, n)) (device_rows ?t))" "d' = ?new"
    by simp_all
qed

lemma does_add_device:
  assumes "does (add_device w i (n, dv)) d u d'"
  obtains t where "dbDeviceTypeToInt (mget dv ''type'') = Inr t" "n \<notin> fst ` set (own_devices (tables w d) i)"
    "d' = set_tables w ((tables w d)\<lparr>device_rows := device_rows (tables w d) @ [(next_device (tables w d), i, n, t)],
        next_device := next_device (tables w d) + 1,
        devcfg_rows := devcfg_rows (tables w d) @ map (Pair (next_device (tables w d))) (filter (\<lambda>(ck, cv). ck \<noteq> ''type'') dv)\<rparr>) d"
proof -
  let ?t = "tables w d"
  let ?kvs = "filter (\<lambda>(ck, cv). ck \<noteq> ''type'') dv"
  from assms have "does (bindD (liftD (dbDeviceTypeToInt (mget dv ''type''))) (\<lambda>t.
      bindD (insert_device w i n t) (\<lambda>did. eachD (insert_devcfg w did) ?kvs))) d u d'" by (simp add: add_device_def)
  then obtain t d0 where "does (liftD (dbDeviceTypeToInt (mget dv ''type''))) d t d0"
    "does (bindD (insert_device w i n t) (\<lambda>did. eachD (insert_devcfg w did) ?kvs)) d0 u d'" by (rule does_bindE)
  then have t: "dbDeviceTypeToInt (mget dv ''type'') = Inr t"
    and rest: "does (bindD (insert_device w i n t) (\<lambda>did. eachD (insert_devcfg w did) ?kvs)) d u d'"
    by (auto elim: does_liftE)
  from rest obtain did d1 where run: "does (insert_device w i n t) d did d1" "does (eachD (insert_devcfg w did) ?kvs) d1 u d'"
    by (rule does_bindE)
  note did = does_insert_device [OF run(1)]
  from does_insert_devcfgs [OF run(2)] did
  have "d' = set_tables w (?t\<lparr>device_rows := device_rows ?t @ [(next_device ?t, i, n, t)], next_device := next_device ?t + 1,
      devcfg_rows := devcfg_rows ?t @ map (Pair (next_device ?t)) ?kvs\<rparr>) d" by simp
  moreover have "n \<notin> fst ` set (own_devices ?t i)" using did(2) by (force simp: own_devices_def)
  ultimately show ?thesis using that t by blast
qed

lemma map_of_drop_key: "map_of (filter (\<lambda>(k, v). k \<noteq> a) m) k = (if k = a then None else map_of m k)"
  by (induction m) auto

lemma map_of_with_type:
  assumes "dbDeviceTypeToInt (mget dv ''type'') = Inr t"
  shows "(map_of (filter (\<lambda>(ck, cv). ck \<noteq> ''type'') dv))(''type'' \<mapsto> type_string t) = map_of dv"
proof -
  have "mget dv ''type'' \<noteq> []" using assms by (auto simp: dbDeviceTypeToInt_def)
  then have "map_of dv ''type'' = Some (mget dv ''type'')" by (auto simp: mget_def split: option.splits)
  then show ?thesis by (auto simp: type_string_of [OF assms] map_of_drop_key)
qed

lemma add_device_views:
  assumes "db_ok d" "does (add_device w i (n, dv)) d u d'"
  shows "devices_of w d' i = (devices_of w d i)(n \<mapsto> map_of dv)" "devices_of w d i n = None"
    "w2 \<noteq> w \<or> j \<noteq> i \<Longrightarrow> devices_of w2 d' j = devices_of w2 d j" "config_of w2 d' = config_of w2 d"
proof -
  let ?t = "tables w d" and ?kvs = "filter (\<lambda>(ck, cv). ck \<noteq> ''type'') dv"
  from assms(2) obtain t where t: "dbDeviceTypeToInt (mget dv ''type'') = Inr t" "n \<notin> fst ` set (own_devices ?t i)"
    and d': "d' = set_tables w (?t\<lparr>device_rows := device_rows ?t @ [(next_device ?t, i, n, t)],
        next_device := next_device ?t + 1, devcfg_rows := devcfg_rows ?t @ map (Pair (next_device ?t)) ?kvs\<rparr>) d"
    by (rule does_add_device)
  let ?t2 = "tables w d'"
  have t2: "?t2 = ?t\<lparr>device_rows := device_rows ?t @ [(next_device ?t, i, n, t)],
        next_device := next_device ?t + 1, devcfg_rows := devcfg_rows ?t @ map (Pair (next_device ?t)) ?kvs\<rparr>"
    unfolding d' by simp
  have ok: "tables_ok (owner_ids w d) ?t" by (rule tables_ok_of [OF assms(1)])
  have small: "did < next_device ?t" if "(did, own, m, ty) \<in> set (device_rows ?t)" for did own m ty
    using ok that by (auto simp: tables_ok_def list_all_iff)
  have new: "filter (\<lambda>(i, k, v). i = next_device ?t) (devcfg_rows ?t) = []"
    using ok small by (force simp: filter_empty_conv tables_ok_def list_all_iff)
  have newest: "device_map ?t2 (next_device ?t, t) = map_of dv"
    by (simp add: device_map_def t2 new map_snd_filter_Pair comp_def map_of_with_type [OF t(1)])
  have old: "device_map ?t2 (did, ty) = device_map ?t (did, ty)" if "(m, did, ty) \<in> set (own_devices ?t j)" for m did ty j
  proof -
    have "did \<noteq> next_device ?t" using that small by (auto simp: own_devices_def)
    then show ?thesis by (simp add: device_map_def t2 map_snd_filter_Pair)
  qed
  have rows: "own_devices ?t2 j = own_devices ?t j @ (if j = i then [(n, next_device ?t, t)] else [])" for j
    by (simp add: own_devices_def t2)
  have others: "map_option (device_map ?t2) (map_of (own_devices ?t j) m) = map_option (device_map ?t) (map_of (own_devices ?t j) m)"
    for j m using old by (cases "map_of (own_devices ?t j) m") (auto dest: map_of_SomeD)
  show none: "devices_of w d i n = None" using t(2) by (simp add: devices_of_def map_of_eq_None_iff)
  show "devices_of w d' i = (devices_of w d i)(n \<mapsto> map_of dv)"
  proof
    fix m
    show "devices_of w d' i m = ((devices_of w d i)(n \<mapsto> map_of dv)) m"
    proof (cases "m = n")
      case True
      then show ?thesis using t(2) newest by (simp add: devices_of_def rows map_add_def map_of_eq_None_iff [THEN iffD2])
    next
      case False
      then have "map_of (own_devices ?t2 i) m = map_of (own_devices ?t i) m"
        by (simp add: rows map_add_def split: option.split)
      then show ?thesis using False others by (simp add: devices_of_def)
    qed
  qed
  show "devices_of w2 d' j = devices_of w2 d j" if "w2 \<noteq> w \<or> j \<noteq> i"
  proof (cases "w2 = w")
    case True
    then show ?thesis using that others by (simp add: devices_of_def rows)
  next
    case False
    then show ?thesis unfolding d' by (simp add: devices_of_set_tables)
  qed
  show "config_of w2 d' = config_of w2 d" unfolding d' by (auto simp: config_of_set_tables config_of_def fun_eq_iff)
qed

lemma add_devices_views:
  assumes "db_ok d" "does (eachD (add_device w i) ds) d u d'"
  shows "devices_of w d' i = abs_devices ds ++ devices_of w d i
    \<and> (\<forall>w2 j. w2 \<noteq> w \<or> j \<noteq> i \<longrightarrow> devices_of w2 d' j = devices_of w2 d j) \<and> config_of w2 d' = config_of w2 d"
  using assms
proof (induction ds arbitrary: d u)
  case Nil
  then have "d' = d" by (auto elim: does_returnE)
  then show ?case by (simp add: abs_devices_def map_add_def)
next
  case (Cons nd ds)
  obtain n dv where nd: "nd = (n, dv)" by (cases nd)
  from Cons.prems(2) obtain d1 where d1: "does (add_device w i (n, dv)) d () d1" "does (eachD (add_device w i) ds) d1 () d'"
    unfolding nd by (rule does_eachE)
  have "db_ok d1" by (rule does_keeps [OF keeps_add_device d1(1) Cons.prems(1)])
  note IH = Cons.IH [OF this d1(2)] and step = add_device_views [OF Cons.prems(1) d1(1)]
  have "devices_of w d' i m = (abs_devices (nd # ds) ++ devices_of w d i) m" for m
    using IH step(1,2) by (cases "m = n"; simp add: nd abs_devices_def map_add_def split: option.split)
  then show ?case using IH step(3,4) by auto
qed

text \<open>Profiles of a container.\<close>

fun link_rows :: "int \<Rightarrow> int \<Rightarrow> profile_row list \<Rightarrow> (int \<times> int \<times> int) list" where
  "link_rows i ord [] = []"
| "link_rows i ord (r # rs) = (i, pr_id r, ord) # link_rows i (ord + 1) rs"

lemma link_rows_sorted: "sorted (map (\<lambda>(c, q, ord). ord) (link_rows i ord rs))"
proof -
  have above: "\<forall>(c, q, x) \<in> set (link_rows i ord rs). ord \<le> x" for ord rs by (induction rs arbitrary: ord) fastforce+
  show ?thesis
  proof (induction rs arbitrary: ord)
    case (Cons r rs)
    have "\<forall>y \<in> set (map (\<lambda>(c, q, ord). ord) (link_rows i (ord + 1) rs)). ord \<le> y"
      using above [of "ord + 1" rs] by fastforce
    then show ?case using Cons.IH [of "ord + 1"] by simp
  qed simp
qed

lemma link_rows_own: "filter (\<lambda>(c, q, x). c = j) (link_rows i ord rs) = (if j = i then link_rows i ord rs else [])"
  by (induction rs arbitrary: ord) auto

lemma profile_name_row:
  assumes "db_ok d" "r \<in> set (profiles d)"
  shows "profile_name d (pr_id r) = Some (pr_name r)"
proof -
  have d: "distinct (map pr_id (profiles d))" using assms(1) by (simp add: db_ok_def ids_ok_def)
  obtain r2 where r2: "find (\<lambda>r2. pr_id r2 = pr_id r) (profiles d) = Some r2"
    using assms(2) by (cases "find (\<lambda>r2. pr_id r2 = pr_id r) (profiles d)") (auto simp: find_None_iff)
  then have "r2 = r" using find_SomeD [OF r2] d assms(2) by (auto simp: distinct_map inj_on_def)
  then show ?thesis using r2 by (simp add: profile_name_def)
qed

lemma does_profiles_loop:
  assumes "does (profiles_loop i ps ord) d u d'"
  obtains rs where "map pr_name rs = ps" "set rs \<subseteq> set (profiles d)"
    "d' = d\<lparr>containers_profiles := containers_profiles d @ link_rows i ord rs\<rparr>"
proof -
  have "\<exists>rs. map pr_name rs = ps \<and> set rs \<subseteq> set (profiles d)
      \<and> d' = d\<lparr>containers_profiles := containers_profiles d @ link_rows i ord rs\<rparr>"
    using assms
  proof (induction ps arbitrary: ord d u)
    case Nil
    then show ?case by (auto elim!: does_returnE intro!: exI [of _ "[]"])
  next
    case (Cons p ps)
    from Cons.prems obtain v d1 where d1: "does (insert_profile_of i p ord) d v d1" "does (profiles_loop i ps (ord + 1)) d1 u d'"
      unfolding profiles_loop.simps by (rule does_bindE)
    from d1(1) have "(case find (\<lambda>r. pr_name r = p) (profiles d) of None \<Rightarrow> Inl NotNullFailed
      | Some r \<Rightarrow> if i \<notin> set (owner_ids OContainer d) then Inl ForeignKeyFailed
         else if (i, pr_id r) \<in> set (map (\<lambda>(c, q, ord). (c, q)) (containers_profiles d)) then Inl UniqueFailed
         else Inr (d\<lparr>containers_profiles := containers_profiles d @ [(i, pr_id r, ord)]\<rparr>)) = Inr d1"
      unfolding insert_profile_of_def by (rule does_execE)
    then obtain r where r: "find (\<lambda>r. pr_name r = p) (profiles d) = Some r"
      "d1 = d\<lparr>containers_profiles := containers_profiles d @ [(i, pr_id r, ord)]\<rparr>"
      by (simp split: option.splits if_splits)
    from Cons.IH [OF d1(2)] obtain rs where "map pr_name rs = ps" "set rs \<subseteq> set (profiles d1)"
      "d' = d1\<lparr>containers_profiles := containers_profiles d1 @ link_rows i (ord + 1) rs\<rparr>" by blast
    then show ?case using r find_SomeD [OF r(1)] by (intro exI [of _ "r # rs"]) auto
  qed
  then show ?thesis using that by blast
qed

lemma views_frame:
  "of_containers d' = of_containers d \<Longrightarrow> of_profiles d' = of_profiles d \<Longrightarrow>
    config_of w d' = config_of w d \<and> devices_of w d' = devices_of w d"
  by (cases w) (simp_all add: config_of_def devices_of_def fun_eq_iff)

lemma profile_names_frame:
  "profiles d' = profiles d \<Longrightarrow> containers_profiles d' = containers_profiles d \<Longrightarrow> profile_names d' = profile_names d"
  by (simp add: profile_names_def profile_name_def fun_eq_iff)

lemma profiles_inserted:
  assumes "db_ok d" "does (profiles_loop i ps 1) d u d'" "filter (\<lambda>(c, q, ord). c = i) (containers_profiles d) = []"
  shows "profile_names d' j = (if j = i then ps else profile_names d j)"
    "config_of w d' = config_of w d" "devices_of w d' = devices_of w d" "containers d' = containers d" "profiles d' = profiles d"
proof -
  from assms(2) obtain rs where rs: "map pr_name rs = ps" "set rs \<subseteq> set (profiles d)"
    and d': "d' = d\<lparr>containers_profiles := containers_profiles d @ link_rows i 1 rs\<rparr>" by (rule does_profiles_loop)
  have name: "profile_name d' q = profile_name d q" for q by (simp add: d' profile_name_def)
  have read: "List.map_filter (\<lambda>(c, q, x). profile_name d q) (link_rows i ord rs) = map pr_name rs" for ord
    using rs(2) by (induction rs arbitrary: ord) (auto simp: map_filter_simps profile_name_row [OF assms(1)])
  show "profile_names d' j = (if j = i then ps else profile_names d j)"
  proof (cases "j = i")
    case True
    have "filter (\<lambda>(c, q, x). c = i) (containers_profiles d') = link_rows i 1 rs" by (simp add: d' assms(3) link_rows_own)
    then show ?thesis using True read [of 1] rs(1) link_rows_sorted [of i 1 rs]
      by (simp add: profile_names_def sorted_sort_id sort_key_id_if_sorted name)
  next
    case False
    then show ?thesis by (simp add: profile_names_def d' link_rows_own profile_name_def)
  qed
  show "config_of w d' = config_of w d" "devices_of w d' = devices_of w d" using views_frame [of d' d w] d' by simp_all
  show "containers d' = containers d" "profiles d' = profiles d" by (simp_all add: d')
qed

text \<open>Clearing an owner.\<close>

definition cleared :: "int \<Rightarrow> owner_tables \<Rightarrow> owner_tables" where
  "cleared i t = drop_devices (\<lambda>own. own = i) (t\<lparr>config_rows := filter (\<lambda>(own, k, v). own \<noteq> i) (config_rows t)\<rparr>)"

lemma does_clear:
  assumes "does (ContainerConfigClear i) d u d'"
  shows "d' = d\<lparr>of_containers := cleared i (of_containers d),
    containers_profiles := filter (\<lambda>(c, p, ord). c \<noteq> i) (containers_profiles d)\<rparr>"
proof -
  from assms obtain u1 d1 u2 d2 u3 d3 where
    d1: "d1 = d\<lparr>of_containers := (of_containers d)\<lparr>config_rows := filter (\<lambda>(own, k, v). own \<noteq> i) (config_rows (of_containers d))\<rparr>\<rparr>"
    and d2: "d2 = d1\<lparr>containers_profiles := filter (\<lambda>(c, p, ord). c \<noteq> i) (containers_profiles d1)\<rparr>"
    and d3: "d3 = d2\<lparr>of_containers := (of_containers d2)\<lparr>devcfg_rows := filter (\<lambda>(did, k, v). did \<notin> set (map fst
        (filter (\<lambda>(did, own, n, ty). own = i) (device_rows (of_containers d2))))) (devcfg_rows (of_containers d2))\<rparr>\<rparr>"
    and d': "d' = d3\<lparr>of_containers := drop_devices (\<lambda>own. own = i) (of_containers d3)\<rparr>"
    unfolding ContainerConfigClear_def Let_def by (elim does_bindE does_execE) blast
  show ?thesis unfolding d' d3 d2 d1 by (simp add: drop_devices_def Let_def cleared_def)
qed

lemma cleared_views:
  assumes "db_ok d"
  shows "config_of w (set_tables w (cleared i (tables w d)) d) j = (if j = i then Map.empty else config_of w d j)"
    "devices_of w (set_tables w (cleared i (tables w d)) d) j = (if j = i then Map.empty else devices_of w d j)"
proof -
  let ?t = "tables w d" and ?t2 = "cleared i (tables w d)"
  have cfg: "config_rows ?t2 = filter (\<lambda>(own, k, v). own \<noteq> i) (config_rows ?t)" by (simp add: cleared_def drop_devices_def Let_def)
  have "filter (\<lambda>(own, k, v). own = j) (config_rows ?t2) = (if j = i then [] else filter (\<lambda>(own, k, v). own = j) (config_rows ?t))"
    unfolding cfg by (auto simp: filter_empty_conv intro: filter_cong)
  then show "config_of w (set_tables w ?t2 d) j = (if j = i then Map.empty else config_of w d j)"
    by (simp add: config_of_def)
  have own: "own_devices ?t2 j = (if j = i then [] else own_devices ?t j)"
    by (auto simp: own_devices_def cleared_def drop_devices_def Let_def filter_empty_conv
        intro: arg_cong [where f = "map _"] filter_cong)
  have dm: "device_map ?t2 (did, ty) = device_map ?t (did, ty)" if "j \<noteq> i" "(n, did, ty) \<in> set (own_devices ?t j)" for n did ty
  proof -
    have "distinct (map fst (device_rows ?t))" using tables_ok_of [OF assms] by (simp add: tables_ok_def)
    moreover have "(did, j, n, ty) \<in> set (device_rows ?t)" using that by (auto simp: own_devices_def)
    ultimately have "did \<notin> fst ` {x \<in> set (device_rows ?t). case x of (did, own, n, ty) \<Rightarrow> own = i}"
      using that(1) by (auto dest: eq_key_imp_eq_value)
    then have "filter (\<lambda>(k, a, b). k = did) (devcfg_rows ?t2) = filter (\<lambda>(k, a, b). k = did) (devcfg_rows ?t)"
      by (auto simp: cleared_def drop_devices_def Let_def intro!: filter_cong)
    then show ?thesis by (simp add: device_map_def)
  qed
  show "devices_of w (set_tables w ?t2 d) j = (if j = i then Map.empty else devices_of w d j)"
  proof (cases "j = i")
    case True then have "own_devices ?t2 j = []" using own by simp
    then show ?thesis using True by (simp add: devices_of_def fun_eq_iff)
  next
    case False
    have "map_option (device_map ?t2) (map_of (own_devices ?t j) n) = map_option (device_map ?t) (map_of (own_devices ?t j) n)" for n
      using dm [OF False] by (cases "map_of (own_devices ?t j) n") (auto dest: map_of_SomeD)
    then show ?thesis using False by (simp add: devices_of_def own fun_eq_iff)
  qed
qed

lemma clear_views:
  assumes "db_ok d" "does (ContainerConfigClear i) d u d'"
  shows "config_of OContainer d' j = (if j = i then Map.empty else config_of OContainer d j)"
    "devices_of OContainer d' j = (if j = i then Map.empty else devices_of OContainer d j)"
    "config_of OProfile d' = config_of OProfile d" "devices_of OProfile d' = devices_of OProfile d"
    "profile_names d' j = (if j = i then [] else profile_names d j)"
    "filter (\<lambda>(c, q, ord). c = i) (containers_profiles d') = []"
    "containers d' = containers d" "profiles d' = profiles d"
proof -
  note d' = does_clear [OF assms(2)]
  have "config_of OContainer d' = config_of OContainer (set_tables OContainer (cleared i (tables OContainer d)) d)"
    "devices_of OContainer d' = devices_of OContainer (set_tables OContainer (cleared i (tables OContainer d)) d)"
    unfolding d' by (simp_all add: config_of_def devices_of_def fun_eq_iff)
  with cleared_views [OF assms(1), of OContainer i]
  show "config_of OContainer d' j = (if j = i then Map.empty else config_of OContainer d j)"
    "devices_of OContainer d' j = (if j = i then Map.empty else devices_of OContainer d j)" by simp_all
  show "config_of OProfile d' = config_of OProfile d" "devices_of OProfile d' = devices_of OProfile d"
    unfolding d' by (simp_all add: config_of_def devices_of_def fun_eq_iff)
  have "filter (\<lambda>(c, q, x). c = j) (containers_profiles d') = (if j = i then [] else filter (\<lambda>(c, q, x). c = j) (containers_profiles d))"
    unfolding d' by (auto simp: filter_empty_conv intro: filter_cong)
  then show "profile_names d' j = (if j = i then [] else profile_names d j)"
    by (simp add: profile_names_def d' profile_name_def map_filter_simps)
  show "filter (\<lambda>(c, q, ord). c = i) (containers_profiles d') = []" unfolding d' by (auto simp: filter_empty_conv)
  show "containers d' = containers d" "profiles d' = profiles d" unfolding d' by simp_all
qed

section \<open>Reading a container\<close>

lemma foldl_update_rows:
  "distinct (map fst (m @ rows)) \<Longrightarrow> foldl (\<lambda>m (k, v). AList.update k v m) m rows = m @ rows"
proof (induction rows arbitrary: m)
  case (Cons kv rows)
  have "AList.update (fst kv) (snd kv) m = m @ [kv]" if "fst kv \<notin> fst ` set m"
    using that by (induction m) auto
  then show ?case using Cons.prems Cons.IH [of "m @ [kv]"] by (simp add: split_beta)
qed simp

lemma distinct_own_rows:
  "distinct (map (\<lambda>(own, k, v). (own, k)) rows) \<Longrightarrow> distinct (map fst (map snd (filter (\<lambda>(own, k, v). own = i) rows)))"
  by (induction rows) (simp, force)

lemma read_config:
  assumes "db_ok d"
  obtains m where "ContainerConfig i (calm d) = (Inr m, calm d)" "map_of m = config_of OContainer d i"
proof -
  let ?rows = "map snd (filter (\<lambda>(own, k, v). own = i) (config_rows (of_containers d)))"
  have "distinct (map fst ?rows)" using assms by (intro distinct_own_rows) (simp add: db_ok_def tables_ok_def)
  then have "foldl (\<lambda>m (k, v). AList.update k v m) [] ?rows = ?rows" using foldl_update_rows [of "[]" ?rows] by simp
  then show ?thesis using that by (simp add: ContainerConfig_def calm_bind config_of_def)
qed

lemma read_device_config:
  assumes "db_ok d"
  obtains m where "dbDeviceConfig w did (calm d) = (Inr m, calm d)"
    "map_of m = map_of (map snd (filter (\<lambda>(i, k, v). i = did) (devcfg_rows (tables w d))))"
proof -
  let ?rows = "map snd (filter (\<lambda>(i, k, v). i = did) (devcfg_rows (tables w d)))"
  have "distinct (map fst ?rows)" using tables_ok_of [OF assms, of w] by (intro distinct_own_rows) (simp add: tables_ok_def)
  then have "foldl (\<lambda>m (k, v). AList.update k v m) [] ?rows = ?rows" using foldl_update_rows [of "[]" ?rows] by simp
  then show ?thesis using that by (simp add: dbDeviceConfig_def calm_bind)
qed

lemma read_devices_rows:
  assumes "db_ok d" "\<forall>(did, n, t) \<in> set rows. t \<in> {0, 1, 2, 3, 4}" "distinct (keys_of m @ map (\<lambda>(did, n, t). n) rows)"
  shows "\<exists>x. read_devices w rows m (calm d) = (Inr x, calm d) \<and> distinct (keys_of x)
    \<and> abs_devices x = abs_devices m ++ (\<lambda>n. map_option (device_map (tables w d)) (map_of (map (\<lambda>(did, n, t). (n, did, t)) rows) n))"
  using assms(2,3)
proof (induction rows arbitrary: m)
  case Nil
  then show ?case by (simp add: map_add_def)
next
  case (Cons row rows)
  obtain did n t where row: "row = (did, n, t)" by (cases row)
  obtain stype where s: "dbDeviceTypeToString t = Inr stype" "type_string t = stype"
    using Cons.prems(1) by (auto simp: row dbDeviceTypeToString_def type_string_def)
  obtain dv where dv: "dbDeviceConfig w did (calm d) = (Inr dv, calm d)"
    "map_of dv = map_of (map snd (filter (\<lambda>(i, k, v). i = did) (devcfg_rows (tables w d))))"
    by (rule read_device_config [OF assms(1)])
  let ?m = "AList.update n (AList.update ''type'' stype dv) m"
  have new: "n \<notin> set (keys_of m)" "n \<notin> set (map (\<lambda>(did, n, t). n) rows)" using Cons.prems(2) by (auto simp: row)
  then have keys: "keys_of ?m = keys_of m @ [n]" by (simp add: update_keys)
  let ?F = "\<lambda>n. map_option (device_map (tables w d)) (map_of (map (\<lambda>(did, n, t). (n, did, t)) rows) n)"
  let ?F2 = "\<lambda>n. map_option (device_map (tables w d)) (map_of (map (\<lambda>(did, n, t). (n, did, t)) (row # rows)) n)"
  have "\<exists>x. read_devices w rows ?m (calm d) = (Inr x, calm d) \<and> distinct (keys_of x) \<and> abs_devices x = abs_devices ?m ++ ?F"
    by (rule Cons.IH) (use Cons.prems keys in \<open>auto simp: row\<close>)
  then obtain x where x: "read_devices w rows ?m (calm d) = (Inr x, calm d)" "distinct (keys_of x)"
    "abs_devices x = abs_devices ?m ++ ?F" by blast
  have m: "abs_devices ?m = (abs_devices m)(n \<mapsto> device_map (tables w d) (did, t))"
    by (auto simp: abs_devices_def update_conv' device_map_def s(2) dv(2))
  have F2: "?F2 = ?F(n \<mapsto> device_map (tables w d) (did, t))" by (auto simp: row)
  have "map fst (map (\<lambda>(did, n, t). (n, did, t)) rows) = map (\<lambda>(did, n, t). n) rows" by (induction rows) auto
  then have "map_of (map (\<lambda>(did, n, t). (n, did, t)) rows) n = None"
    using new(2) by (simp only: map_of_eq_None_iff set_map [symmetric] not_False_eq_True)
  then have "n \<notin> dom ?F" by (simp add: domIff)
  then have "abs_devices x = abs_devices m ++ ?F2" unfolding x(3) m F2 map_add_upd by (rule map_add_upd_left)
  moreover have "read_devices w (row # rows) m (calm d) = (Inr x, calm d)"
    using x(1) dv(1) s(1) by (simp add: row liftD_def calm_bind)
  ultimately show ?case using x(2) by blast
qed

lemma read_Devices_named:
  assumes "db_ok d" "\<And>own. owner_named w q d own \<longleftrightarrow> own = i"
  obtains x where "Devices_of w q (calm d) = (Inr x, calm d)" "distinct (keys_of x)" "abs_devices x = devices_of w d i"
proof -
  let ?t = "tables w d"
  let ?rows = "map (\<lambda>(did, own, n, t). (did, n, t)) (filter (\<lambda>(did, own, n, t). own = i) (device_rows ?t))"
  have ok: "tables_ok (owner_ids w d) ?t" by (rule tables_ok_of [OF assms(1)])
  have "\<forall>(did, n, t) \<in> set ?rows. t \<in> {0, 1, 2, 3, 4}" using ok by (auto simp: tables_ok_def list_all_iff)
  moreover have "distinct (map (\<lambda>(did, n, t). n) (map (\<lambda>(did, own, n, t). (did, n, t)) (filter (\<lambda>(did, own, n, t). own = i) rows)))"
    if "distinct (map (\<lambda>(did, own, n, ty). (own, n)) rows)" for rows :: "(int \<times> int \<times> string \<times> int) list"
    using that by (induction rows) (simp, force)
  then have "distinct (keys_of ([] :: Devices) @ map (\<lambda>(did, n, t). n) ?rows)" using ok by (simp add: tables_ok_def)
  ultimately obtain x where "read_devices w ?rows [] (calm d) = (Inr x, calm d)" "distinct (keys_of x)"
    "abs_devices x = abs_devices [] ++ (\<lambda>n. map_option (device_map (tables w d))
        (map_of (map (\<lambda>(did, n, t). (n, did, t)) ?rows) n))"
    using read_devices_rows [OF assms(1), of ?rows "[]"] by blast
  moreover have "map (\<lambda>(did, n, t). (n, did, t)) ?rows = own_devices ?t i"
    by (simp add: own_devices_def comp_def split_beta)
  ultimately show ?thesis
    using that by (simp add: Devices_of_def calm_bind assms(2) devices_of_def abs_devices_def [of "[]"] map_add_def)
qed

lemma read_Devices:
  assumes "db_ok d" "r \<in> set (containers d)"
  obtains x where "Devices_of OContainer (cr_name r) (calm d) = (Inr x, calm d)" "distinct (keys_of x)"
    "abs_devices x = devices_of OContainer d (cr_id r)"
proof -
  have "distinct (map cr_id (containers d))" "distinct (map cr_name (containers d))"
    using assms(1) by (simp_all add: db_ok_def ids_ok_def)
  then have "owner_named OContainer (cr_name r) d own \<longleftrightarrow> own = cr_id r" for own
    using assms(2) by (auto simp: distinct_map inj_on_def)
  with assms(1) show ?thesis using that by (rule read_Devices_named)
qed

text \<open>What \<^verbatim>\<open>ContainerGet\<close> returns for a row.\<close>

definition container_read :: "lxd_db \<Rightarrow> container_row \<Rightarrow> ContainerArgs \<Rightarrow> bool" where
  "container_read d r x \<longleftrightarrow> Id x = cr_id r \<and> Name x = cr_name r \<and> Architecture x = cr_architecture r
    \<and> CreationDate x = cr_creation_date r \<and> Ctype x = cr_type r \<and> Ephemeral x = (cr_ephemeral r = 1)
    \<and> Stateful x = (cr_stateful r = 1) \<and> map_of (Config x) = config_of OContainer d (cr_id r)
    \<and> abs_devices (ct_Devices x) = devices_of OContainer d (cr_id r) \<and> Profiles x = profile_names d (cr_id r)"

lemma ContainerGet_reads:
  assumes "db_ok d" "r \<in> set (containers d)"
  obtains x where "ContainerGet (cr_name r) (calm d) = (Inr x, calm d)" "container_read d r x"
proof -
  have ids: "distinct (map cr_name (containers d))" "cr_id r \<noteq> - 1"
    using assms by (auto simp: db_ok_def ids_ok_def list_all_iff)
  obtain r2 where r2: "find (\<lambda>r2. cr_name r2 = cr_name r) (containers d) = Some r2"
    using assms(2) by (cases "find (\<lambda>r2. cr_name r2 = cr_name r) (containers d)") (auto simp: find_None_iff)
  then have "r2 = r" using find_SomeD [OF r2] ids(1) assms(2) by (auto simp: distinct_map inj_on_def)
  with r2 have row: "find (\<lambda>r2. cr_name r2 = cr_name r) (containers d) = Some r" by simp
  obtain m where m: "ContainerConfig (cr_id r) (calm d) = (Inr m, calm d)" "map_of m = config_of OContainer d (cr_id r)"
    by (rule read_config [OF assms(1)])
  obtain ds where ds: "Devices_of OContainer (cr_name r) (calm d) = (Inr ds, calm d)" "distinct (keys_of ds)"
    "abs_devices ds = devices_of OContainer d (cr_id r)" by (rule read_Devices [OF assms])
  have copy: "foldl (\<lambda>m (k, v). AList.update k v m) [] ds = ds" using foldl_update_rows [of "[]" ds] ds(2) by simp
  let ?x = "\<lparr>Id = cr_id r, Architecture = cr_architecture r, BaseImage = [], Config = m, CreationDate = cr_creation_date r,
    Ctype = cr_type r, ct_Devices = ds, Ephemeral = (cr_ephemeral r = 1), Name = cr_name r,
    Profiles = profile_names d (cr_id r), Stateful = (cr_stateful r = 1)\<rparr>"
  have "ContainerGet (cr_name r) (calm d) = (Inr ?x, calm d)"
    using row m(1) ds(1) ids(2) by (simp add: ContainerGet_def calm_bind copy ContainerProfiles_def)
  moreover have "container_read d r ?x" using m(2) ds(3) by (simp add: container_read_def)
  ultimately show ?thesis by (rule that)
qed

section \<open>Creation\<close>

lemma fresh_views:
  assumes "db_ok d" "i \<notin> set (map cr_id (containers d))"
  shows "config_of OContainer d i = Map.empty" "devices_of OContainer d i = Map.empty"
    "filter (\<lambda>(c, q, ord). c = i) (containers_profiles d) = []"
proof -
  have ok: "tables_ok (map cr_id (containers d)) (of_containers d)" using assms(1) by (simp add: db_ok_def)
  have "filter (\<lambda>(own, k, v). own = i) (config_rows (of_containers d)) = []"
    using ok assms(2) by (fastforce simp: tables_ok_def list_all_iff filter_empty_conv)
  then show "config_of OContainer d i = Map.empty" by (simp add: config_of_def)
  have "own_devices (of_containers d) i = []"
    using ok assms(2) by (fastforce simp: own_devices_def tables_ok_def list_all_iff filter_empty_conv)
  then show "devices_of OContainer d i = Map.empty" by (simp add: devices_of_def fun_eq_iff)
  show "filter (\<lambda>(c, q, ord). c = i) (containers_profiles d) = []"
    using assms by (fastforce simp: db_ok_def links_ok_def list_all_iff filter_empty_conv)
qed

lemma add_devices_rows:
  assumes "does (eachD (add_device w i) ds) d u d'"
  shows "containers d' = containers d \<and> profiles d' = profiles d \<and> containers_profiles d' = containers_profiles d"
  using assms
proof (induction ds arbitrary: d u)
  case (Cons nd ds)
  obtain e1 where e1: "does (add_device w i nd) d () e1" "does (eachD (add_device w i) ds) e1 () d'"
    using Cons.prems by (rule does_eachE)
  obtain n v where nd: "nd = (n, v)" by (cases nd)
  from e1(1) have "containers e1 = containers d \<and> profiles e1 = profiles d \<and> containers_profiles e1 = containers_profiles d"
    unfolding nd by (rule does_add_device) simp
  then show ?case using Cons.IH [OF e1(2)] by simp
qed (auto elim: does_returnE)

text \<open>The insertion of the three sections of a container that has none, whatever follows.\<close>

lemma sections_written:
  assumes "db_ok d" "config_of OContainer d i = Map.empty" "devices_of OContainer d i = Map.empty"
    and "filter (\<lambda>(c, q, ord). c = i) (containers_profiles d) = []"
    and "does (bindD (ContainerConfigInsert i config) (\<lambda>_. bindD (ContainerProfilesInsert i ps) (\<lambda>_.
          bindD (DevicesAdd OContainer i ds) (\<lambda>_. k)))) d x d2"
  obtains d' where "does k d' x d2" "db_ok d'" "containers d' = containers d" "profiles d' = profiles d"
    "\<And>j. config_of OContainer d' j = (if j = i then map_of config else config_of OContainer d j)"
    "\<And>j. devices_of OContainer d' j = (if j = i then abs_devices ds else devices_of OContainer d j)"
    "\<And>j. profile_names d' j = (if j = i then ps else profile_names d j)"
    "config_of OProfile d' = config_of OProfile d" "devices_of OProfile d' = devices_of OProfile d"
proof -
  from assms(5) obtain d1 where m1: "does (ContainerConfigInsert i config) d () d1"
    and rest1: "does (bindD (ContainerProfilesInsert i ps) (\<lambda>_. bindD (DevicesAdd OContainer i ds) (\<lambda>_. k))) d1 x d2"
    by (rule does_seq)
  from rest1 obtain d3 where m2: "does (ContainerProfilesInsert i ps) d1 () d3"
    and rest2: "does (bindD (DevicesAdd OContainer i ds) (\<lambda>_. k)) d3 x d2" by (rule does_seq)
  from rest2 obtain d' where m3: "does (DevicesAdd OContainer i ds) d3 () d'" and k: "does k d' x d2" by (rule does_seq)
  from m1 have c: "does (eachD (insert_config OContainer i) config) d () d1"
    unfolding ContainerConfigInsert_def by (rule does_after_fault)
  from m2 have p: "does (profiles_loop i ps 1) d1 () d3" unfolding ContainerProfilesInsert_def by (rule does_after_fault)
  from m3 have dv: "does (eachD (add_device OContainer i) ds) d3 () d'" unfolding DevicesAdd_def
    by (rule does_after_fault [OF does_after_fault])
  have ok1: "db_ok d1" by (rule does_keeps [OF keeps_container_ops(3) m1 assms(1)])
  have ok3: "db_ok d3" by (rule does_keeps [OF keeps_container_ops(6) m2 ok1])
  have ok: "db_ok d'" by (rule does_keeps [OF keeps_DevicesAdd m3 ok3])
  note cfg = config_of_inserted [OF c]
  have d1: "containers d1 = containers d" "profiles d1 = profiles d" "containers_profiles d1 = containers_profiles d"
    unfolding does_insert_configs [OF c] by simp_all
  then have links: "filter (\<lambda>(c, q, ord). c = i) (containers_profiles d1) = []" using assms(4) by simp
  note prof = profiles_inserted [OF ok1 p links] and devs = add_devices_views [OF ok3 dv]
  note d' = add_devices_rows [OF dv]
  show ?thesis
  proof
    show "does k d' x d2" by (rule k)
    show "db_ok d'" by (rule ok)
    show "containers d' = containers d" "profiles d' = profiles d" using d' d1 prof(4,5) by simp_all
    show "config_of OContainer d' j = (if j = i then map_of config else config_of OContainer d j)" for j
      using cfg(1) [of j] devs prof(2) assms(2) by simp
    show "devices_of OContainer d' j = (if j = i then abs_devices ds else devices_of OContainer d j)" for j
      using cfg(3) devs prof(3) assms(3) by (cases "j = i") simp_all
    show "profile_names d' j = (if j = i then ps else profile_names d j)" for j
      using profile_names_frame [of d' d3] profile_names_frame [of d1 d] d' d1 prof(1) by simp
    show "config_of OProfile d' = config_of OProfile d" using cfg(2) [of OProfile] devs prof(2) by (simp add: fun_eq_iff)
    show "devices_of OProfile d' = devices_of OProfile d" using cfg(3) devs prof(3) by (simp add: fun_eq_iff)
  qed
qed

text \<open>What a successful \<^verbatim>\<open>ContainerCreate\<close> has written.\<close>

lemma ContainerCreate_writes:
  assumes "db_ok d" "does (ContainerCreate args now) d i d'"
  obtains r where "containers d' = containers d @ [r]" "cr_id r = i" "cr_name r = Name args" "i \<notin> set (map cr_id (containers d))"
    "cr_architecture r = Architecture args" "cr_type r = Ctype args" "cr_creation_date r = now"
    "cr_ephemeral r = (if Ephemeral args then 1 else 0)" "cr_stateful r = (if Stateful args then 1 else 0)"
    "\<And>j. config_of OContainer d' j = (if j = i then map_of (Config args) else config_of OContainer d j)"
    "\<And>j. devices_of OContainer d' j = (if j = i then abs_devices (ct_Devices args) else devices_of OContainer d j)"
    "\<And>j. profile_names d' j = (if j = i then Profiles args else profile_names d j)"
proof -
  let ?r = "\<lparr>cr_id = next_container d, cr_name = Name args, cr_architecture = Architecture args, cr_type = Ctype args,
    cr_ephemeral = (if Ephemeral args then 1 else 0), cr_stateful = (if Stateful args then 1 else 0), cr_creation_date = now\<rparr>"
  let ?body = "\<lambda>i. bindD (ContainerConfigInsert i (Config args)) (\<lambda>_. bindD (ContainerProfilesInsert i (Profiles args)) (\<lambda>_.
    bindD (DevicesAdd OContainer i (ct_Devices args)) (\<lambda>_. returnD i)))"
  let ?tx = "in_tx (bindD faultD (\<lambda>_. bindD (insert_container args now) ?body))"
  from assms(2) obtain q d0 where q: "does (attemptD (ContainerId (Name args))) d q d0"
    and run: "does (case q of Inr _ \<Rightarrow> failD AlreadyDefined | Inl _ \<Rightarrow> ?tx) d0 i d'"
    unfolding ContainerCreate_def by (rule does_bindE)
  have "d0 = d" using q by (auto simp: does_def attemptD_def ContainerId_def rowD_def queryD_def bindD_def faultD_def
        failD_def returnD_def split: option.splits if_splits)
  with run have "does ?tx d i d'" by (cases q) (auto elim: does_failE)
  then have "does (bindD faultD (\<lambda>_. bindD (insert_container args now) ?body)) d i d'" by (rule does_txE)
  then have "does (bindD (insert_container args now) ?body) d i d'" by (rule does_after_fault)
  then obtain i2 d1 where d1: "does (insert_container args now) d i2 d1" and rest: "does (?body i2) d1 i d'" by (rule does_bindE)
  from d1 obtain e1 where e1: "does (execD (\<lambda>d.
       if Name args \<in> set (map cr_name (containers d)) then Inl UniqueFailed
       else Inr (d\<lparr>containers := containers d @
           [\<lparr>cr_id = next_container d, cr_name = Name args, cr_architecture = Architecture args, cr_type = Ctype args,
             cr_ephemeral = (if Ephemeral args then 1 else 0), cr_stateful = (if Stateful args then 1 else 0),
             cr_creation_date = now\<rparr>],
         next_container := next_container d + 1\<rparr>))) d () e1"
    and e2: "does (relabelD (\<lambda>_. InsertFailed) (queryD (\<lambda>d. next_container d - 1))) e1 i2 d1"
    unfolding insert_container_def by (rule does_seq)
  from e2 have "i2 = next_container e1 - 1 \<and> d1 = e1" by (blast elim: does_relabelE does_queryE)
  moreover from e1 have "e1 = d\<lparr>containers := containers d @ [?r], next_container := next_container d + 1\<rparr>"
    by (rule does_execE) (simp split: if_splits)
  ultimately have ins: "i2 = next_container d" "d1 = d\<lparr>containers := containers d @ [?r], next_container := next_container d + 1\<rparr>"
    by simp_all
  have ok1: "db_ok d1" by (rule does_keeps [OF keeps_insert_container d1 assms(1)])
  have new: "i2 \<notin> set (map cr_id (containers d))" using assms(1) ins(1) by (auto simp: db_ok_def ids_ok_def list_all_iff)
  have same: "config_of OContainer d1 = config_of OContainer d" "devices_of OContainer d1 = devices_of OContainer d"
    "profile_names d1 = profile_names d" "containers_profiles d1 = containers_profiles d"
    using views_frame [of d1 d OContainer] profile_names_frame [of d1 d] ins(2) by simp_all
  from ok1 obtain d2 where d2: "does (returnD i2) d2 i d'" "containers d2 = containers d1"
    "\<And>j. config_of OContainer d2 j = (if j = i2 then map_of (Config args) else config_of OContainer d1 j)"
    "\<And>j. devices_of OContainer d2 j = (if j = i2 then abs_devices (ct_Devices args) else devices_of OContainer d1 j)"
    "\<And>j. profile_names d2 j = (if j = i2 then Profiles args else profile_names d1 j)"
    using fresh_views [OF assms(1) new] same rest by (elim sections_written [rotated 4]) simp_all
  then have "i2 = i" "d2 = d'" by (auto elim: does_returnE)
  with d2 same ins new show ?thesis by (intro that [of ?r]) simp_all
qed

text \<open>
  C4. A container that \<^verbatim>\<open>ContainerCreate\<close> has stored is read back by \<^verbatim>\<open>ContainerGet\<close> as it was given,
  with its configuration, its devices and its profiles in their order; the other containers keep theirs.
\<close>

theorem container_create_get:
  assumes "db_ok (data s)" "ContainerCreate args now s = (Inr i, s')"
  shows "\<exists>x. ContainerGet (Name args) (calm (data s')) = (Inr x, calm (data s'))
    \<and> Id x = i \<and> Name x = Name args \<and> Architecture x = Architecture args \<and> Ctype x = Ctype args \<and> CreationDate x = now
    \<and> Ephemeral x = Ephemeral args \<and> Stateful x = Stateful args \<and> Profiles x = Profiles args
    \<and> map_of (Config x) = map_of (Config args) \<and> abs_devices (ct_Devices x) = abs_devices (ct_Devices args)
    \<and> (\<forall>r \<in> set (containers (data s)). r \<in> set (containers (data s')) \<and> cr_id r \<noteq> i
        \<and> config_of OContainer (data s') (cr_id r) = config_of OContainer (data s) (cr_id r)
        \<and> devices_of OContainer (data s') (cr_id r) = devices_of OContainer (data s) (cr_id r)
        \<and> profile_names (data s') (cr_id r) = profile_names (data s) (cr_id r))"
proof -
  have run: "does (ContainerCreate args now) (data s) i (data s')" using assms(2) by (rule doesI)
  have ok: "db_ok (data s')" by (rule does_keeps [OF keeps_ContainerCreate run assms(1)])
  from assms(1) run obtain r where r: "containers (data s') = containers (data s) @ [r]" "cr_id r = i" "cr_name r = Name args"
    "i \<notin> set (map cr_id (containers (data s)))" "cr_architecture r = Architecture args" "cr_type r = Ctype args"
    "cr_creation_date r = now" "cr_ephemeral r = (if Ephemeral args then 1 else 0)"
    "cr_stateful r = (if Stateful args then 1 else 0)"
    "\<And>j. config_of OContainer (data s') j = (if j = i then map_of (Config args) else config_of OContainer (data s) j)"
    "\<And>j. devices_of OContainer (data s') j = (if j = i then abs_devices (ct_Devices args) else devices_of OContainer (data s) j)"
    "\<And>j. profile_names (data s') j = (if j = i then Profiles args else profile_names (data s) j)"
    by (rule ContainerCreate_writes) blast
  from ok r(1) obtain x where x: "ContainerGet (cr_name r) (calm (data s')) = (Inr x, calm (data s'))"
    "container_read (data s') r x" by (elim ContainerGet_reads) auto
  have "cr_id q \<noteq> i" if "q \<in> set (containers (data s))" for q using r(4) that by auto
  then show ?thesis
    using x r by (intro exI [of _ x]) (auto simp: container_read_def)
qed

definition demo_db :: lxd_db where
  "demo_db = \<lparr>containers = [], profiles = [\<lparr>pr_id = 1, pr_name = ''default'', pr_description = []\<rparr>],
     of_containers = \<lparr>config_rows = [], device_rows = [], devcfg_rows = [], next_device = 1\<rparr>,
     of_profiles = \<lparr>config_rows = [], device_rows = [], devcfg_rows = [], next_device = 1\<rparr>,
     containers_profiles = [], next_container = 1, next_profile = 2\<rparr>"

definition demo_args :: ContainerArgs where
  "demo_args = \<lparr>Id = 0, Architecture = 2, BaseImage = [], Config = [(''limits.cpu'', ''2'')], CreationDate = 0, Ctype = 0,
     ct_Devices = [(''eth0'', [(''type'', ''nic''), (''nictype'', ''p2p'')])], Ephemeral = False, Name = ''c1'',
     Profiles = [''default''], Stateful = False\<rparr>"

lemmas db_run_simps = bindD_def returnD_def failD_def relabelD_def attemptD_def faultD_def execD_def queryD_def rowD_def
  in_tx_def liftD_def Let_def insert_config_def insert_device_def insert_devcfg_def add_device_def insert_profile_of_def
  insert_container_def

lemma demo_ok: "db_ok demo_db"
  by (simp add: demo_db_def db_ok_def ids_ok_def tables_ok_def links_ok_def)

theorem container_create_get_witness:
  "fst (ContainerCreate demo_args 7 (calm demo_db)) = Inr 1
   \<and> map_option Profiles (case fst (ContainerGet ''c1'' (calm (data (snd (ContainerCreate demo_args 7 (calm demo_db))))))
       of Inr x \<Rightarrow> Some x | _ \<Rightarrow> None) = Some [''default'']"
proof -
  obtain r s' where run: "ContainerCreate demo_args 7 (calm demo_db) = (r, s')" by force
  have "r = Inr 1"
    using run by (simp add: ContainerCreate_def demo_args_def demo_db_def calm_def db_run_simps ContainerId_def
        ContainerConfigInsert_def ContainerProfilesInsert_def DevicesAdd_def mget_def dbDeviceTypeToInt_def)
  moreover have "db_ok (data (calm demo_db))" using demo_ok by (simp add: calm_def)
  ultimately show ?thesis
    using container_create_get [of "calm demo_db" demo_args 7 1 s'] run by (auto simp: demo_args_def)
qed

text \<open>
  The invariant of the database: whatever fails, every operation on containers keeps names and ids unique, one
  row for each key, and each configuration row, device and profile reference belonging to a row that exists.
\<close>

lemma container_ops_keep_invariant:
  "keeps db_ok (ContainerCreate args now) \<and> keeps db_ok (ContainerRemove name) \<and> keeps db_ok (ContainerRename name name2)
   \<and> keeps db_ok (ContainerConfigClear i) \<and> keeps db_ok (ContainerConfigInsert i config)
   \<and> keeps db_ok (ContainerConfigRemove i key) \<and> keeps db_ok (ContainerProfilesInsert i ps)
   \<and> keeps db_ok (DevicesAdd w i ds) \<and> keeps db_ok (ContainerUpdate i arch eph) \<and> keeps db_ok (ContainerSetStateful i st)
   \<and> keeps db_ok (ContainerSetState i pw)"
  by (intro conjI keeps_intros)

end
