(* ===== verification/Profile_Db.thy ===== *)
theory Profile_Db
  imports Container_Db Container_Config
begin

text \<open>
  Profiles: the tables (\<^verbatim>\<open>lxd/db/profiles.go\<close>) and the requests that change them
  (\<^verbatim>\<open>lxd/profiles.go\<close>, \<^verbatim>\<open>lxd/profiles_utils.go\<close>).

  The containers of a profile are loaded and updated by parameters: \<open>loads\<close> says which containers can be
  loaded, \<open>upd\<close> is \<^verbatim>\<open>c.Update\<close>, which works on the database too.  A request is given decoded; one whose
  body is no JSON is answered with \<^verbatim>\<open>BadRequest\<close> before any change and is left out.
\<close>

section \<open>The tables\<close>

record api_profile =
  p_name :: string
  p_description :: string
  p_config :: strmap
  p_devices :: Devices

definition Profiles_list :: "(lxd_db, string list) dbop" where
  "Profiles_list = queryD (\<lambda>d. map pr_name (profiles d))"

definition ProfileConfig :: "string \<Rightarrow> (lxd_db, strmap) dbop" where
  "ProfileConfig name =
     bindD (relabelD (\<lambda>_. ProfileUnreadable name) (queryD (\<lambda>d.
       map snd (filter (\<lambda>(own, k, v). owner_named OProfile name d own) (config_rows (of_profiles d)))))) (\<lambda>rows.
     bindD (if rows = [] then
         bindD (queryD (\<lambda>d. filter (\<lambda>r. pr_name r = name) (profiles d))) (\<lambda>found.
         if found = [] then failD NoSuchObject else returnD ())
       else returnD ()) (\<lambda>_.
     returnD (foldl (\<lambda>m (k, v). AList.update k v m) [] rows)))"

definition ProfileGet :: "string \<Rightarrow> (lxd_db, int \<times> api_profile) dbop" where
  "ProfileGet name =
     bindD (rowD (\<lambda>d. find (\<lambda>r. pr_name r = name) (profiles d))) (\<lambda>r.
     bindD (ProfileConfig name) (\<lambda>config.
     bindD (Devices_of OProfile name) (\<lambda>devices.
     returnD (pr_id r, \<lparr>p_name = name, p_description = pr_description r, p_config = config, p_devices = devices\<rparr>))))"

text \<open>
  \<^verbatim>\<open>ProfileConfigAdd\<close> does not look at the error of \<^verbatim>\<open>tx.Prepare\<close>: when it fails the statement is
  nil, and closing it panics.  The transaction is then never finished; nothing of it is stored.
\<close>

definition ProfileConfigAdd :: "int \<Rightarrow> strmap \<Rightarrow> (lxd_db, unit) dbop" where
  "ProfileConfigAdd i config =
     bindD (relabelD (\<lambda>_. NilStatement) faultD) (\<lambda>_. eachD (insert_config OProfile i) config)"

definition insert_profile :: "string \<Rightarrow> string \<Rightarrow> (lxd_db, int) dbop" where
  "insert_profile name description =
     bindD (execD (\<lambda>d.
       if name \<in> set (map pr_name (profiles d)) then Inl UniqueFailed
       else Inr (d\<lparr>profiles := profiles d @ [\<lparr>pr_id = next_profile d, pr_name = name, pr_description = description\<rparr>],
                   next_profile := next_profile d + 1\<rparr>))) (\<lambda>_.
     queryD (\<lambda>d. next_profile d - 1))"

definition ProfileCreate :: "string \<Rightarrow> string \<Rightarrow> strmap \<Rightarrow> Devices \<Rightarrow> (lxd_db, int) dbop" where
  "ProfileCreate name description config devices = in_tx (
     bindD (insert_profile name description) (\<lambda>i.
     bindD (ProfileConfigAdd i config) (\<lambda>_.
     bindD (DevicesAdd OProfile i devices) (\<lambda>_. returnD i))))"

text \<open>The two profiles of a new database.  Every error of \<^verbatim>\<open>ProfileGet\<close> counts as a missing profile.\<close>

definition create_missing :: "string \<Rightarrow> string \<Rightarrow> strmap \<Rightarrow> Devices \<Rightarrow> (lxd_db, unit) dbop" where
  "create_missing name description config devices =
     bindD (attemptD (ProfileGet name)) (\<lambda>r. case r of
       Inr _ \<Rightarrow> returnD ()
     | Inl _ \<Rightarrow> bindD (ProfileCreate name description config devices) (\<lambda>_. returnD ()))"

definition ProfileCreateDefault :: "(lxd_db, unit) dbop" where
  "ProfileCreateDefault = create_missing ''default'' ''Default LXD profile'' []
     [(''eth0'', [(''name'', ''eth0''), (''type'', ''nic''), (''nictype'', ''bridged''), (''parent'', ''lxdbr0'')])]"

definition dbProfileCreateDocker :: "(lxd_db, unit) dbop" where
  "dbProfileCreateDocker = create_missing ''docker'' ''Profile supporting docker in containers''
     [(''security.nesting'', ''true''), (''linux.kernel_modules'', ''overlay, nf_nat'')]
     [(''aadisable'', [(''path'', ''/sys/module/apparmor/parameters/enabled''), (''type'', ''disk''), (''source'', ''/dev/null'')])]"

definition delete_profile :: "int \<Rightarrow> lxd_db \<Rightarrow> lxd_db" where
  "delete_profile i d =
     d\<lparr>profiles := filter (\<lambda>r. pr_id r \<noteq> i) (profiles d),
       of_profiles := drop_owned (\<lambda>own. own = i) (of_profiles d),
       containers_profiles := filter (\<lambda>(c, p, ord). p \<noteq> i) (containers_profiles d)\<rparr>"

definition ProfileDelete :: "string \<Rightarrow> (lxd_db, unit) dbop" where
  "ProfileDelete name = bindD (ProfileGet name) (\<lambda>(i, p). execD (\<lambda>d. Inr (delete_profile i d)))"

definition rename_profiles :: "(profile_row \<Rightarrow> bool) \<Rightarrow> (profile_row \<Rightarrow> profile_row) \<Rightarrow> lxd_db \<Rightarrow> lxd_db" where
  "rename_profiles w f d = d\<lparr>profiles := map (\<lambda>r. if w r then f r else r) (profiles d)\<rparr>"

definition ProfileUpdate :: "string \<Rightarrow> string \<Rightarrow> (lxd_db, unit) dbop" where
  "ProfileUpdate name newName = in_tx (execD (\<lambda>d.
     if name \<noteq> newName \<and> name \<in> set (map pr_name (profiles d)) \<and> newName \<in> set (map pr_name (profiles d))
     then Inl UniqueFailed
     else Inr (rename_profiles (\<lambda>r. pr_name r = name) (\<lambda>r. r\<lparr>pr_name := newName\<rparr>) d)))"

definition ProfileDescriptionUpdate :: "int \<Rightarrow> string \<Rightarrow> (lxd_db, unit) dbop" where
  "ProfileDescriptionUpdate i description =
     execD (\<lambda>d. Inr (rename_profiles (\<lambda>r. pr_id r = i) (\<lambda>r. r\<lparr>pr_description := description\<rparr>) d))"

definition ProfileConfigClear :: "int \<Rightarrow> (lxd_db, unit) dbop" where
  "ProfileConfigClear i =
     bindD (execD (\<lambda>d. let t = of_profiles d in
       Inr (d\<lparr>of_profiles := t\<lparr>config_rows := filter (\<lambda>(own, k, v). own \<noteq> i) (config_rows t)\<rparr>\<rparr>))) (\<lambda>_.
     bindD (execD (\<lambda>d. let t = of_profiles d;
         dead = map fst (filter (\<lambda>(did, own, n, ty). own = i) (device_rows t)) in
       Inr (d\<lparr>of_profiles := t\<lparr>devcfg_rows := filter (\<lambda>(did, k, v). did \<notin> set dead) (devcfg_rows t)\<rparr>\<rparr>))) (\<lambda>_.
     execD (\<lambda>d. Inr (d\<lparr>of_profiles := drop_devices (\<lambda>own. own = i) (of_profiles d)\<rparr>))))"

definition ProfileContainersGet :: "string \<Rightarrow> (lxd_db, string list) dbop" where
  "ProfileContainersGet profile = queryD (\<lambda>d. concat (map (\<lambda>(c, q, ord).
     if profile_name d q = Some profile then map cr_name (filter (\<lambda>r. cr_id r = c) (containers d)) else [])
     (containers_profiles d)))"

section \<open>The requests\<close>

datatype response =
    EmptySyncResponse
  | SyncLocation string
  | BadConfig config_error
  | BadRequest string
  | Conflict
  | SmartError db_error
  | FailedUpdates "(string \<times> string) list"

definition getContainersWithProfile :: "(string \<Rightarrow> bool) \<Rightarrow> string \<Rightarrow> (lxd_db, string list) dbop" where
  "getContainersWithProfile loads profile =
     bindD (attemptD (ProfileContainersGet profile)) (\<lambda>r. returnD (case r of Inl _ \<Rightarrow> [] | Inr names \<Rightarrow> filter loads names))"

record put_profile =
  put_description :: string
  put_config :: "strmap option"
  put_devices :: "Devices option"

text \<open>\<^verbatim>\<open>reflect.DeepEqual\<close> of two maps, and of two maps of maps; a nil map differs from an empty one.\<close>

definition same_map :: "('v \<Rightarrow> 'v \<Rightarrow> bool) \<Rightarrow> ('k, 'v) gomap \<Rightarrow> ('k, 'v) gomap \<Rightarrow> bool" where
  "same_map eq m m2 = list_all (\<lambda>k. case (map_of m k, map_of m2 k) of
     (Some v, Some v2) \<Rightarrow> eq v v2 | _ \<Rightarrow> False) (keys_of m @ keys_of m2)"

definition DeepEqual :: "('v \<Rightarrow> 'v \<Rightarrow> bool) \<Rightarrow> ('k, 'v) gomap \<Rightarrow> ('k, 'v) gomap option \<Rightarrow> bool" where
  "DeepEqual eq m req = (case req of None \<Rightarrow> False | Some m2 \<Rightarrow> same_map eq m m2)"

text \<open>The host, as far as the validation looks at it.\<close>

record daemon_env =
  d_lxc21 :: bool
  d_idmap :: "IdmapSet option"
  d_host :: host_env
  d_loads :: "string \<Rightarrow> bool"
  d_update :: "string \<Rightarrow> lxd_db conn \<Rightarrow> string option \<times> lxd_db conn"

definition or_empty :: "('k, 'v) gomap option \<Rightarrow> ('k, 'v) gomap" where
  "or_empty m = (case m of None \<Rightarrow> [] | Some x \<Rightarrow> x)"

text \<open>The transaction; its result says whether only the description was written.\<close>

definition profile_tx :: "int \<Rightarrow> api_profile \<Rightarrow> put_profile \<Rightarrow> (lxd_db, bool) dbop" where
  "profile_tx i profile req = in_tx (
     bindD (if p_description profile \<noteq> put_description req then ProfileDescriptionUpdate i (put_description req) else returnD ()) (\<lambda>_.
     if DeepEqual (=) (p_config profile) (put_config req)
        \<and> DeepEqual (same_map (=)) (p_devices profile) (put_devices req) then returnD True
     else
       bindD (ProfileConfigClear i) (\<lambda>_.
       bindD (ProfileConfigAdd i (or_empty (put_config req))) (\<lambda>_.
       bindD (DevicesAdd OProfile i (or_empty (put_devices req))) (\<lambda>_. returnD False)))))"

fun update_loop :: "(string \<Rightarrow> lxd_db conn \<Rightarrow> string option \<times> lxd_db conn) \<Rightarrow> string list \<Rightarrow> lxd_db conn
    \<Rightarrow> (string \<times> string) list \<times> lxd_db conn" where
  "update_loop upd [] s = ([], s)"
| "update_loop upd (c # cs) s = (case upd c s of (e, s1) \<Rightarrow> (case update_loop upd cs s1 of (fs, s2) \<Rightarrow>
     ((case e of None \<Rightarrow> fs | Some x \<Rightarrow> (c, x) # fs), s2)))"

definition doProfileUpdate :: "daemon_env \<Rightarrow> string \<Rightarrow> int \<Rightarrow> api_profile \<Rightarrow> put_profile \<Rightarrow> lxd_db conn \<Rightarrow> response \<times> lxd_db conn" where
  "doProfileUpdate env name i profile req s =
     (case containerValidConfig (d_lxc21 env) (d_idmap env) (put_config req) True False of
        Some e \<Rightarrow> (BadConfig e, s)
      | None \<Rightarrow> (case containerValidDevices (d_host env) (put_devices req) True False of
          Some e \<Rightarrow> (BadConfig e, s)
        | None \<Rightarrow> (case getContainersWithProfile (d_loads env) name s of
            (Inl e, s1) \<Rightarrow> (SmartError e, s1)
          | (Inr cs, s1) \<Rightarrow> (case profile_tx i profile req s1 of
              (Inl e, s2) \<Rightarrow> (SmartError e, s2)
            | (Inr True, s2) \<Rightarrow> (EmptySyncResponse, s2)
            | (Inr False, s2) \<Rightarrow> (case update_loop (d_update env) cs s2 of (fs, s3) \<Rightarrow>
                (if fs = [] then EmptySyncResponse else FailedUpdates fs, s3))))))"

definition profilePut :: "daemon_env \<Rightarrow> string \<Rightarrow> put_profile \<Rightarrow> lxd_db conn \<Rightarrow> response \<times> lxd_db conn" where
  "profilePut env name req s = (case ProfileGet name s of
     (Inl e, s1) \<Rightarrow> (SmartError (ProfileUnreadable name), s1)
   | (Inr (i, profile), s1) \<Rightarrow> doProfileUpdate env name i profile req s1)"

definition bad_name :: "string \<Rightarrow> response option" where
  "bad_name name =
     (if CHR ''/'' \<in> set name then Some (BadRequest ''Profile names may not contain slashes'')
      else if StringInSlice name [''.'', ''..''] then Some (BadRequest ''Invalid profile name'')
      else None)"

definition profilesPost :: "daemon_env \<Rightarrow> string \<Rightarrow> put_profile \<Rightarrow> lxd_db conn \<Rightarrow> response \<times> lxd_db conn" where
  "profilesPost env name req s =
     (if name = [] then (BadRequest ''No name provided'', s)
      else (case ProfileGet name s of
        (Inr _, s1) \<Rightarrow> (BadRequest ''The profile already exists'', s1)
      | (Inl _, s1) \<Rightarrow> (case bad_name name of
          Some r \<Rightarrow> (r, s1)
        | None \<Rightarrow> (case containerValidConfig (d_lxc21 env) (d_idmap env) (put_config req) True False of
            Some e \<Rightarrow> (BadConfig e, s1)
          | None \<Rightarrow> (case containerValidDevices (d_host env) (put_devices req) True False of
              Some e \<Rightarrow> (BadConfig e, s1)
            | None \<Rightarrow> (case ProfileCreate name (put_description req) (or_empty (put_config req)) (or_empty (put_devices req)) s1 of
                (Inl e, s2) \<Rightarrow> (SmartError e, s2)
              | (Inr _, s2) \<Rightarrow> (SyncLocation name, s2)))))))"

definition profilePost :: "string \<Rightarrow> string \<Rightarrow> lxd_db conn \<Rightarrow> response \<times> lxd_db conn" where
  "profilePost name newName s =
     (if newName = [] then (BadRequest ''No name provided'', s)
      else (case ProfileGet newName s of (r, s1) \<Rightarrow>
        if (case r of Inl _ \<Rightarrow> -1 | Inr (i, p) \<Rightarrow> i) > (0::int) then (Conflict, s1)
        else (case bad_name newName of
          Some b \<Rightarrow> (b, s1)
        | None \<Rightarrow> (case ProfileUpdate name newName s1 of
            (Inl e, s2) \<Rightarrow> (SmartError e, s2)
          | (Inr _, s2) \<Rightarrow> (SyncLocation newName, s2)))))"

definition profileDelete :: "(string \<Rightarrow> bool) \<Rightarrow> string \<Rightarrow> lxd_db conn \<Rightarrow> response \<times> lxd_db conn" where
  "profileDelete loads name s = (case ProfileGet name s of
     (Inl e, s1) \<Rightarrow> (SmartError e, s1)
   | (Inr _, s1) \<Rightarrow> (case getContainersWithProfile loads name s1 of
       (Inl e, s2) \<Rightarrow> (SmartError e, s2)
     | (Inr clist, s2) \<Rightarrow>
         if clist \<noteq> [] then (BadRequest ''Profile is currently in use'', s2)
         else (case ProfileDelete name s2 of
             (Inl e, s3) \<Rightarrow> (SmartError e, s3)
           | (Inr _, s3) \<Rightarrow> (EmptySyncResponse, s3))))"

section \<open>The invariant\<close>

lemma keeps_delete_profile [keeps_intros]: "keeps db_ok (execD (\<lambda>d. Inr (delete_profile i d)))"
proof (rule keeps_execD)
  fix d d' assume ok: "db_ok d" and d': "Inr (delete_profile i d) = Inr d'"
  let ?ps = "filter (\<lambda>r. pr_id r \<noteq> i) (profiles d)"
  have left: "j = i \<or> j \<in> set (map pr_id ?ps)" if "j \<in> set (map pr_id (profiles d))" for j
    using that by auto
  have "tables_ok (map pr_id ?ps) (drop_owned (\<lambda>own. own = i) (of_profiles d))"
    using ok left by (intro tables_ok_fewer_ids) (auto simp: db_ok_def)
  moreover have "links_ok (map cr_id (containers d)) (map pr_id ?ps) (filter (\<lambda>(c, q, ord). q \<noteq> i) (containers_profiles d))"
    using ok left by (intro links_ok_filter [where P = "\<lambda>c q. q \<noteq> i"]) (auto simp: db_ok_def)
  moreover have "ids_ok (map pr_id ?ps) (map pr_name ?ps) (next_profile d)" using ok by (auto simp: db_ok_def intro: ids_ok_filter)
  ultimately show "db_ok d'" using ok d' by (auto simp: db_ok_def delete_profile_def)
qed

lemma db_ok_profiles:
  assumes "db_ok d" "map pr_id rs = map pr_id (profiles d)" "distinct (map pr_name rs)"
  shows "db_ok (d\<lparr>profiles := rs\<rparr>)"
proof -
  have "ids_ok (map pr_id (profiles d)) (map pr_name rs) (next_profile d)"
    using assms(1,3) unfolding db_ok_def ids_ok_def by blast
  then show ?thesis using assms(1) by (simp add: db_ok_def assms(2))
qed

lemma keeps_insert_profile [keeps_intros]: "keeps db_ok (insert_profile name description)"
proof -
  have more: "tables_ok (ids @ ids2) t" if "tables_ok ids t" for ids ids2 t
    using that by (auto simp: tables_ok_def list_all_iff)
  have more_links: "links_ok cids (ids @ ids2) ls" if "links_ok cids ids ls" for ids ids2 cids ls
    using that by (auto simp: links_ok_def list_all_iff)
  have ids: "ids_ok (ids @ [n]) (names @ [nm]) (n + 1)" if "ids_ok ids names n" "nm \<notin> set names" for ids names n nm
    using that by (auto simp: ids_ok_def list_all_iff)
  show ?thesis unfolding insert_profile_def
  proof (intro keeps_intros keeps_execD, goal_cases)
    case (1 d d')
    have "ids_ok (map pr_id (profiles d) @ [next_profile d]) (map pr_name (profiles d) @ [name]) (next_profile d + 1)"
      by (rule ids) (use 1 in \<open>auto simp: db_ok_def split: if_splits\<close>)
    then show ?case using 1 by (auto simp: db_ok_def more more_links split: if_splits)
  qed
qed

lemma keeps_ProfileConfigClear [keeps_intros]: "keeps db_ok (ProfileConfigClear i)"
  unfolding ProfileConfigClear_def Let_def
  by (intro keeps_intros keeps_execD)
    (auto simp: db_ok_def intro: tables_ok_drop_config tables_ok_drop_devcfg tables_ok_drop_devices)

lemma keeps_description [keeps_intros]: "keeps db_ok (ProfileDescriptionUpdate i description)"
  unfolding ProfileDescriptionUpdate_def
proof (rule keeps_execD)
  fix d d' assume ok: "db_ok d"
    and d': "Inr (rename_profiles (\<lambda>r. pr_id r = i) (\<lambda>r. r\<lparr>pr_description := description\<rparr>) d) = Inr d'"
  let ?rs = "map (\<lambda>r. if pr_id r = i then r\<lparr>pr_description := description\<rparr> else r) (profiles d)"
  have "map pr_id ?rs = map pr_id (profiles d)" "map pr_name ?rs = map pr_name (profiles d)" by auto
  then have "db_ok (d\<lparr>profiles := ?rs\<rparr>)" using db_ok_profiles [OF ok, of ?rs] ok by (metis db_ok_def ids_ok_def)
  then show "db_ok d'" using d' by (simp add: rename_profiles_def)
qed

lemma keeps_ProfileUpdate [keeps_intros]: "keeps db_ok (ProfileUpdate a b)"
proof -
  let ?f = "\<lambda>r. if pr_name r = a then r\<lparr>pr_name := b\<rparr> else r"
  have names: "distinct (map pr_name (map ?f rs))"
    if "distinct (map pr_name rs)" "a = b \<or> a \<notin> pr_name ` set rs \<or> b \<notin> pr_name ` set rs" for rs
  proof -
    have "map pr_name (map ?f rs) = map (\<lambda>n. if n = a then b else n) (map pr_name rs)" by (induction rs) auto
    moreover have "inj_on (\<lambda>n. if n = a then b else n) (set (map pr_name rs))" using that(2) by (auto simp: inj_on_def)
    ultimately show ?thesis using that(1) by (simp only: distinct_map [of "\<lambda>n. if n = a then b else n"])
  qed
  have ids: "map pr_id (map ?f rs) = map pr_id rs" for rs by (induction rs) auto
  show ?thesis unfolding ProfileUpdate_def
  proof (intro keeps_intros keeps_execD, goal_cases)
    case (1 d d')
    let ?rs = "profiles d"
    have new: "a = b \<or> a \<notin> pr_name ` set ?rs \<or> b \<notin> pr_name ` set ?rs" "d' = d\<lparr>profiles := map ?f ?rs\<rparr>"
      using 1(2) by (auto simp: rename_profiles_def split: if_splits)
    show ?case unfolding new(2) using 1(1) names [OF _ new(1)] by (intro db_ok_profiles ids) (simp_all add: db_ok_def ids_ok_def)
  qed
qed

lemma keeps_read_devices [keeps_intros]: "keeps P (read_devices w rows m)"
proof (induction rows arbitrary: m)
  case (Cons r rows)
  then show ?case by (cases r) (auto simp: dbDeviceConfig_def intro!: keeps_intros)
qed (simp add: keeps_intros)

lemma keeps_ProfileGet [keeps_intros]: "keeps P (ProfileGet name)"
  unfolding ProfileGet_def ProfileConfig_def Devices_of_def by (auto intro!: keeps_intros)

lemma keeps_profile_ops [keeps_intros]:
  "keeps db_ok (ProfileConfigAdd i m)" "keeps db_ok (ProfileCreate name description m ds)" "keeps db_ok (ProfileDelete name)"
  "keeps db_ok (profile_tx i p req)"
  unfolding ProfileConfigAdd_def ProfileCreate_def ProfileDelete_def profile_tx_def
  by (auto intro!: keeps_intros)

section \<open>Reading a profile\<close>

lemma profile_named:
  assumes "db_ok d" "r \<in> set (profiles d)"
  shows "owner_named OProfile (pr_name r) d own \<longleftrightarrow> own = pr_id r"
    "find (\<lambda>r2. pr_name r2 = pr_name r) (profiles d) = Some r"
proof -
  have ids: "distinct (map pr_id (profiles d))" "distinct (map pr_name (profiles d))"
    using assms(1) by (simp_all add: db_ok_def ids_ok_def)
  then show "owner_named OProfile (pr_name r) d own \<longleftrightarrow> own = pr_id r"
    using assms(2) by (auto simp: distinct_map inj_on_def)
  obtain r2 where r2: "find (\<lambda>r2. pr_name r2 = pr_name r) (profiles d) = Some r2"
    using assms(2) by (cases "find (\<lambda>r2. pr_name r2 = pr_name r) (profiles d)") (auto simp: find_None_iff)
  then have "r2 = r" using find_SomeD [OF r2] ids(2) assms(2) by (auto simp: distinct_map inj_on_def)
  with r2 show "find (\<lambda>r2. pr_name r2 = pr_name r) (profiles d) = Some r" by simp
qed

lemma ProfileGet_reads:
  assumes "db_ok d" "r \<in> set (profiles d)"
  obtains p where "ProfileGet (pr_name r) (calm d) = (Inr (pr_id r, p), calm d)" "p_description p = pr_description r"
    "map_of (p_config p) = config_of OProfile d (pr_id r)" "abs_devices (p_devices p) = devices_of OProfile d (pr_id r)"
proof -
  let ?rows = "map snd (filter (\<lambda>(own, k, v). own = pr_id r) (config_rows (of_profiles d)))"
  note named = profile_named [OF assms]
  have "distinct (map fst ?rows)" using assms(1) by (intro distinct_own_rows) (simp add: db_ok_def tables_ok_def)
  then have copy: "foldl (\<lambda>m (k, v). AList.update k v m) [] ?rows = ?rows" using foldl_update_rows [of "[]" ?rows] by simp
  have found: "r \<in> set (filter (\<lambda>q. pr_name q = pr_name r) (profiles d))" using assms(2) by simp
  have cfg: "ProfileConfig (pr_name r) (calm d) = (Inr ?rows, calm d)"
  proof (cases "?rows = []")
    case True
    then show ?thesis using copy found
      by (simp add: ProfileConfig_def relabelD_def calm_bind bindD_def named(1) filter_empty_conv del: owner_named.simps)
        (metis assms(2))
  next
    case False
    then show ?thesis using copy
      by (simp add: ProfileConfig_def relabelD_def bindD_def named(1) del: owner_named.simps) 
  qed
  obtain ds where ds: "Devices_of OProfile (pr_name r) (calm d) = (Inr ds, calm d)" "abs_devices ds = devices_of OProfile d (pr_id r)"
    using read_Devices_named [OF assms(1) named(1)] by metis
  let ?p = "\<lparr>p_name = pr_name r, p_description = pr_description r, p_config = ?rows, p_devices = ds\<rparr>"
  have "ProfileGet (pr_name r) (calm d) = (Inr (pr_id r, ?p), calm d)"
    using cfg ds(1) named(2) by (simp add: ProfileGet_def calm_bind)
  then show ?thesis using ds(2) by (intro that [of ?p]) (simp_all add: config_of_def)
qed

lemma steady_liftD [steady_intros]: "steady (liftD r)"
  by (cases r) (simp_all add: liftD_def steady_intros)

lemma steady_read_devices [steady_intros]: "steady (read_devices w rows m)"
proof (induction rows arbitrary: m)
  case (Cons r rows)
  then show ?case by (cases r) (auto simp: dbDeviceConfig_def intro!: steady_intros)
qed (simp add: steady_intros)

lemma steady_ProfileGet: "steady (ProfileGet name)"
  unfolding ProfileGet_def ProfileConfig_def Devices_of_def by (auto intro!: steady_intros)

lemma does_ProfileGet:
  assumes "db_ok d" "does (ProfileGet name) d (i, p) d'"
  obtains r where "r \<in> set (profiles d)" "pr_name r = name" "pr_id r = i" "d' = d" "p_description p = pr_description r"
    "map_of (p_config p) = config_of OProfile d i" "abs_devices (p_devices p) = devices_of OProfile d i"
proof -
  from assms(2) obtain r d0 where "does (rowD (\<lambda>d. find (\<lambda>r. pr_name r = name) (profiles d))) d r d0"
    unfolding ProfileGet_def by (rule does_bindE)
  then have "find (\<lambda>r. pr_name r = name) (profiles d) = Some r" by (rule does_rowE)
  then have r: "r \<in> set (profiles d)" "pr_name r = name" using find_SomeD by fastforce+
  have "ProfileGet name (calm d) = (Inr (i, p), calm d')" by (rule steady_does [OF steady_ProfileGet assms(2)])
  with ProfileGet_reads [OF assms(1) r(1)] r show ?thesis
    by (metis (no_types, lifting) Inr_inject Pair_inject conn.ext_inject calm_def that)
qed

section \<open>Replacing a profile\<close>

lemma same_map_iff: "same_map (=) m m2 \<longleftrightarrow> map_of m = map_of m2"
proof
  assume eq: "same_map (=) m m2"
  have "map_of m k = map_of m2 k" for k
  proof (cases "k \<in> set (keys_of m @ keys_of m2)")
    case True
    then have "case (map_of m k, map_of m2 k) of (Some v, Some v2) \<Rightarrow> v = v2 | _ \<Rightarrow> False"
      using eq unfolding same_map_def list_all_iff by blast
    then show ?thesis by (cases "map_of m k"; cases "map_of m2 k") simp_all
  next
    case False
    then have "map_of m k = None" "map_of m2 k = None" by (simp_all add: map_of_eq_None_iff)
    then show ?thesis by simp
  qed
  then show "map_of m = map_of m2" by (rule ext)
next
  assume eq: "map_of m = map_of m2"
  have "case (map_of m k, map_of m2 k) of (Some v, Some v2) \<Rightarrow> v = v2 | _ \<Rightarrow> False" if "k \<in> set (keys_of m @ keys_of m2)" for k
  proof -
    have "map_of m2 k \<noteq> None" using that eq map_of_eq_None_iff [of m k] map_of_eq_None_iff [of m2 k] by auto
    then show ?thesis using eq by auto
  qed
  then show "same_map (=) m m2" unfolding same_map_def list_all_iff by blast
qed

lemma same_devices:
  assumes "same_map (same_map (=)) ds ds2" shows "abs_devices ds = abs_devices ds2"
proof
  fix k
  show "abs_devices ds k = abs_devices ds2 k"
  proof (cases "k \<in> set (keys_of ds @ keys_of ds2)")
    case True
    then obtain v v2 where "map_of ds k = Some v" "map_of ds2 k = Some v2" "same_map (=) v v2"
      using assms by (fastforce simp: same_map_def [of "same_map (=)"] list_all_iff split: option.splits)
    then show ?thesis by (simp add: abs_devices_def same_map_iff)
  next
    case False
    then have "map_of ds k = None" "map_of ds2 k = None" by (simp_all add: map_of_eq_None_iff)
    then show ?thesis by (simp add: abs_devices_def)
  qed
qed

definition described :: "int \<Rightarrow> string \<Rightarrow> profile_row list \<Rightarrow> profile_row list" where
  "described i description rs = map (\<lambda>r. if pr_id r = i then r\<lparr>pr_description := description\<rparr> else r) rs"

lemma does_profile_clear:
  assumes "does (ProfileConfigClear i) d u d'"
  shows "d' = set_tables OProfile (cleared i (tables OProfile d)) d"
proof -
  from assms obtain u1 d1 u2 d2 where
    d1: "d1 = d\<lparr>of_profiles := (of_profiles d)\<lparr>config_rows := filter (\<lambda>(own, k, v). own \<noteq> i) (config_rows (of_profiles d))\<rparr>\<rparr>"
    and d2: "d2 = d1\<lparr>of_profiles := (of_profiles d1)\<lparr>devcfg_rows := filter (\<lambda>(did, k, v). did \<notin> set (map fst
        (filter (\<lambda>(did, own, n, ty). own = i) (device_rows (of_profiles d1))))) (devcfg_rows (of_profiles d1))\<rparr>\<rparr>"
    and d': "d' = d2\<lparr>of_profiles := drop_devices (\<lambda>own. own = i) (of_profiles d2)\<rparr>"
    unfolding ProfileConfigClear_def Let_def by (elim does_bindE does_execE) blast
  show ?thesis unfolding d' d2 d1 by (simp add: drop_devices_def Let_def cleared_def)
qed

lemma profile_rewritten:
  assumes "db_ok d" "does (bindD (ProfileConfigClear i) (\<lambda>_. bindD (ProfileConfigAdd i config) (\<lambda>_.
      bindD (DevicesAdd OProfile i ds) (\<lambda>_. returnD False)))) d b d'"
  shows "config_of OProfile d' j = (if j = i then map_of config else config_of OProfile d j)"
    "devices_of OProfile d' j = (if j = i then abs_devices ds else devices_of OProfile d j)"
    "config_of OContainer d' = config_of OContainer d" "devices_of OContainer d' = devices_of OContainer d"
    "profiles d' = profiles d" "containers d' = containers d" "containers_profiles d' = containers_profiles d"
proof -
  from assms(2) obtain d1 where m1: "does (ProfileConfigClear i) d () d1"
    and rest1: "does (bindD (ProfileConfigAdd i config) (\<lambda>_. bindD (DevicesAdd OProfile i ds) (\<lambda>_. returnD False))) d1 b d'"
    by (rule does_seq)
  from rest1 obtain d2 where m2: "does (ProfileConfigAdd i config) d1 () d2"
    and rest2: "does (bindD (DevicesAdd OProfile i ds) (\<lambda>_. returnD False)) d2 b d'" by (rule does_seq)
  from rest2 obtain d3 where m3: "does (DevicesAdd OProfile i ds) d2 () d3" and "does (returnD False) d3 b d'" by (rule does_seq)
  then have "d3 = d'" by (auto elim: does_returnE)
  with m3 have dv: "does (eachD (add_device OProfile i) ds) d2 () d'" unfolding DevicesAdd_def
    by (auto dest: does_after_fault)
  from m2 obtain e where "does (relabelD (\<lambda>_. NilStatement) faultD) d1 () e" "does (eachD (insert_config OProfile i) config) e () d2"
    unfolding ProfileConfigAdd_def by (rule does_seq)
  then have c: "does (eachD (insert_config OProfile i) config) d1 () d2" by (auto elim: does_relabelE does_faultE)
  have ok1: "db_ok d1" by (rule does_keeps [OF keeps_ProfileConfigClear m1 assms(1)])
  have ok2: "db_ok d2" by (rule does_keeps [OF keeps_profile_ops(1) m2 ok1])
  have d1: "d1 = set_tables OProfile (cleared i (tables OProfile d)) d" by (rule does_profile_clear [OF m1])
  note clear = cleared_views [OF assms(1), of OProfile i, folded d1]
  note cfg = config_of_inserted [OF c] and devs = add_devices_views [OF ok2 dv]
  show "config_of OProfile d' j = (if j = i then map_of config else config_of OProfile d j)"
    using cfg(1) [of j] devs clear(1) by simp
  show "devices_of OProfile d' j = (if j = i then abs_devices ds else devices_of OProfile d j)"
    using cfg(3) devs clear(2) by (cases "j = i") simp_all
  have "config_of OContainer d1 = config_of OContainer d" "devices_of OContainer d1 = devices_of OContainer d"
    using views_frame [of d1 d OContainer] by (simp_all add: d1 config_of_def devices_of_def fun_eq_iff)
  then show "config_of OContainer d' = config_of OContainer d" "devices_of OContainer d' = devices_of OContainer d"
    using cfg(2) [of OContainer] cfg(3) devs by (simp_all add: fun_eq_iff)
  have "profiles d2 = profiles d \<and> containers d2 = containers d \<and> containers_profiles d2 = containers_profiles d"
    unfolding does_insert_configs [OF c] d1 by simp
  then show "profiles d' = profiles d" "containers d' = containers d" "containers_profiles d' = containers_profiles d"
    using add_devices_rows [OF dv] by simp_all
qed

lemma described_same: "db_ok d \<Longrightarrow> r \<in> set (profiles d) \<Longrightarrow> described (pr_id r) (pr_description r) (profiles d) = profiles d"
proof -
  assume "db_ok d" "r \<in> set (profiles d)"
  then have "q = r" if "q \<in> set (profiles d)" "pr_id q = pr_id r" for q
    using that by (auto simp: db_ok_def ids_ok_def distinct_map inj_on_def)
  then show ?thesis unfolding described_def by (intro map_idI) (metis profile_row.surjective profile_row.update_convs(3))
qed

lemma profile_tx_writes:
  assumes "db_ok d" "r \<in> set (profiles d)" "p_description p = pr_description r"
    and "map_of (p_config p) = config_of OProfile d (pr_id r)" "abs_devices (p_devices p) = devices_of OProfile d (pr_id r)"
    and "does (profile_tx (pr_id r) p req) d b d'"
  shows "config_of OProfile d' j = (if j = pr_id r then map_of (or_empty (put_config req)) else config_of OProfile d j)"
    "devices_of OProfile d' j = (if j = pr_id r then abs_devices (or_empty (put_devices req)) else devices_of OProfile d j)"
    "profiles d' = described (pr_id r) (put_description req) (profiles d)"
    "config_of OContainer d' = config_of OContainer d" "devices_of OContainer d' = devices_of OContainer d"
    "containers d' = containers d" "containers_profiles d' = containers_profiles d"
proof -
  let ?i = "pr_id r" and ?d1 = "d\<lparr>profiles := described (pr_id r) (put_description req) (profiles d)\<rparr>"
  let ?same = "DeepEqual (=) (p_config p) (put_config req) \<and> DeepEqual (same_map (=)) (p_devices p) (put_devices req)"
  let ?rest = "bindD (ProfileConfigClear ?i) (\<lambda>_. bindD (ProfileConfigAdd ?i (or_empty (put_config req))) (\<lambda>_.
      bindD (DevicesAdd OProfile ?i (or_empty (put_devices req))) (\<lambda>_. returnD False)))"
  from assms(6) obtain d1 where first: "does (if p_description p \<noteq> put_description req
      then ProfileDescriptionUpdate ?i (put_description req) else returnD ()) d () d1"
    and then_do: "does (if ?same then returnD True else ?rest) d1 b d'"
    unfolding profile_tx_def by (elim does_txE does_seq)
  have d1: "d1 = ?d1"
  proof (cases "p_description p = put_description req")
    case True
    then have "d1 = d" using first by (auto elim: does_returnE)
    then show ?thesis using True assms(3) described_same [OF assms(1,2)] by simp
  next
    case False
    then have "does (ProfileDescriptionUpdate ?i (put_description req)) d () d1" using first by simp
    then have "Inr (rename_profiles (\<lambda>q. pr_id q = ?i) (\<lambda>q. q\<lparr>pr_description := put_description req\<rparr>) d) = (Inr d1 :: db_error + lxd_db)"
      unfolding ProfileDescriptionUpdate_def by (rule does_execE)
    then show ?thesis by (simp add: rename_profiles_def described_def)
  qed
  have "keeps db_ok (if p_description p \<noteq> put_description req then ProfileDescriptionUpdate ?i (put_description req) else returnD ())"
    by (simp add: keeps_intros)
  then have ok1: "db_ok d1" using first assms(1) by (rule does_keeps)
  have views: "config_of w d1 = config_of w d" "devices_of w d1 = devices_of w d" for w using views_frame [of d1 d w] by (simp_all add: d1)
  have "config_of OProfile d' j = (if j = ?i then map_of (or_empty (put_config req)) else config_of OProfile d j)
    \<and> devices_of OProfile d' j = (if j = ?i then abs_devices (or_empty (put_devices req)) else devices_of OProfile d j)
    \<and> profiles d' = profiles d1 \<and> config_of OContainer d' = config_of OContainer d
    \<and> devices_of OContainer d' = devices_of OContainer d \<and> containers d' = containers d1 \<and> containers_profiles d' = containers_profiles d1"
  proof (cases ?same)
    case True
    then have "d' = d1" using then_do by (auto elim: does_returnE)
    moreover from True have "map_of (or_empty (put_config req)) = map_of (p_config p)"
      "abs_devices (or_empty (put_devices req)) = abs_devices (p_devices p)"
      by (auto simp: DeepEqual_def or_empty_def same_map_iff dest: same_devices split: option.splits)
    ultimately show ?thesis using assms(4,5) views by simp
  next
    case False
    then have "does ?rest d1 b d'" using then_do by (simp only: if_False)
    from profile_rewritten [OF ok1 this] show ?thesis using views by simp
  qed
  then show "config_of OProfile d' j = (if j = pr_id r then map_of (or_empty (put_config req)) else config_of OProfile d j)"
    "devices_of OProfile d' j = (if j = pr_id r then abs_devices (or_empty (put_devices req)) else devices_of OProfile d j)"
    "profiles d' = described (pr_id r) (put_description req) (profiles d)"
    "config_of OContainer d' = config_of OContainer d" "devices_of OContainer d' = devices_of OContainer d"
    "containers d' = containers d" "containers_profiles d' = containers_profiles d" by (simp_all add: d1)
qed

text \<open>
  C13. A profile request is stored completely or not at all: unless it is refused or fails, the profile then has the
  configuration, the devices and the description of the request, and the other profiles keep theirs; otherwise no profile is changed.
  (The updates of its containers do not write the tables of profiles.)
\<close>

theorem profilePut_stores:
  assumes "db_ok (data s)" "profilePut env name req s = (resp, s')"
    and "\<And>c t e t'. d_update env c t = (e, t') \<Longrightarrow> profiles (data t') = profiles (data t) \<and> of_profiles (data t') = of_profiles (data t)"
  shows "if resp = EmptySyncResponse \<or> (\<exists>fs. resp = FailedUpdates fs)
    then \<exists>r \<in> set (profiles (data s)). pr_name r = name
      \<and> profiles (data s') = described (pr_id r) (put_description req) (profiles (data s))
      \<and> config_of OProfile (data s') = (config_of OProfile (data s))(pr_id r := map_of (or_empty (put_config req)))
      \<and> devices_of OProfile (data s') = (devices_of OProfile (data s))(pr_id r := abs_devices (or_empty (put_devices req)))
    else data s' = data s"
proof -
  obtain g s1 where g: "ProfileGet name s = (g, s1)" by (cases "ProfileGet name s")
  have s1: "data s1 = data s" using keepsD [OF keeps_ProfileGet, of "\<lambda>d. d = data s" s] g by blast
  show ?thesis
  proof (cases g)
    case (Inl e)
    then show ?thesis using assms(2) g s1 by (auto simp: profilePut_def)
  next
    case (Inr ip)
    obtain i p where ip: "ip = (i, p)" by (cases ip)
    have run: "doProfileUpdate env name i p req s1 = (resp, s')" using assms(2) g Inr ip by (simp add: profilePut_def)
    have "does (ProfileGet name) (data s) (i, p) (data s1)" using g Inr ip by (auto intro: doesI)
    with assms(1) obtain r where r: "r \<in> set (profiles (data s))" "pr_name r = name" "pr_id r = i" "p_description p = pr_description r"
      "map_of (p_config p) = config_of OProfile (data s) i" "abs_devices (p_devices p) = devices_of OProfile (data s) i"
      by (rule does_ProfileGet)
    obtain c s2 where c: "getContainersWithProfile (d_loads env) name s1 = (c, s2)" by (cases "getContainersWithProfile (d_loads env) name s1")
    have s2: "data s2 = data s1" using keepsD [of "\<lambda>d. d = data s1" "getContainersWithProfile (d_loads env) name" s1] c
      by (auto simp: getContainersWithProfile_def ProfileContainersGet_def intro!: keeps_intros)
    obtain t s3 where t: "profile_tx i p req s2 = (t, s3)" by (cases "profile_tx i p req s2")
    have loop: "profiles (data y) = profiles (data x) \<and> of_profiles (data y) = of_profiles (data x)"
      if "update_loop (d_update env) cs x = (fs, y)" for cs x fs y
      using that by (induction cs arbitrary: x fs) (force split: prod.splits dest: assms(3))+
    have refused: ?thesis if "\<forall>fs. resp \<noteq> FailedUpdates fs" "resp \<noteq> EmptySyncResponse" "data s' = data s" using that by simp
    show ?thesis
    proof (cases "containerValidConfig (d_lxc21 env) (d_idmap env) (put_config req) True False")
      case (Some x)
      then show ?thesis using run s1 by (intro refused) (auto simp: doProfileUpdate_def)
    next
      case valid: None
      show ?thesis
      proof (cases "containerValidDevices (d_host env) (put_devices req) True False")
        case (Some x)
        then show ?thesis using run s1 valid by (intro refused) (auto simp: doProfileUpdate_def)
      next
        case None
        note run2 = run [unfolded doProfileUpdate_def valid None option.case c prod.case]
        obtain cs where cs: "c = Inr cs" using c by (cases "attemptD (ProfileContainersGet name) s1")
            (auto simp: getContainersWithProfile_def bindD_def returnD_def attemptD_def split: prod.splits)
        show ?thesis
        proof (cases t)
          case (Inl x)
          then have "data s3 = data s2" using t failed_tx_unchanged unfolding profile_tx_def by blast
          then show ?thesis using run2 cs t Inl s1 s2 by (intro refused) auto
        next
          case (Inr b)
          obtain fs y where fs: "update_loop (d_update env) cs s3 = (fs, y)" by (cases "update_loop (d_update env) cs s3")
          have "does (profile_tx (pr_id r) p req) (data s) b (data s3)" using t Inr s1 s2 r(3) doesI by metis
          note w = profile_tx_writes [OF assms(1) r(1,4) r(5,6) [folded r(3)] this]
          have resp: "resp = EmptySyncResponse \<or> (\<exists>fs. resp = FailedUpdates fs)"
            "profiles (data s') = profiles (data s3) \<and> of_profiles (data s') = of_profiles (data s3)"
            using run2 cs t Inr fs loop [OF fs] by (cases b; auto split: if_splits)+
          have "config_of OProfile (data s') = config_of OProfile (data s3)" "devices_of OProfile (data s') = devices_of OProfile (data s3)"
            using resp(2) by (simp_all add: config_of_def devices_of_def fun_eq_iff)
          then have "config_of OProfile (data s') = (config_of OProfile (data s))(pr_id r := map_of (or_empty (put_config req)))"
            "devices_of OProfile (data s') = (devices_of OProfile (data s))(pr_id r := abs_devices (or_empty (put_devices req)))"
            using w(1,2) by (simp_all add: fun_eq_iff)
          then show ?thesis using resp r(1,2) w(3) by auto
        qed
      qed
    qed
  qed
qed

section \<open>Deletion and renaming\<close>

lemma delete_profile_names:
  assumes "db_ok d" "r \<in> set (profiles d)"
  shows "profile_names (delete_profile (pr_id r) d) i = filter (\<lambda>n. n \<noteq> pr_name r) (profile_names d i)"
proof -
  let ?d = "delete_profile (pr_id r) d"
  have kept: "profile_name ?d q = profile_name d q" if "q \<noteq> pr_id r" for q
  proof -
    have "find (\<lambda>x. pr_id x = q) (filter (\<lambda>x. pr_id x \<noteq> pr_id r) rs) = find (\<lambda>x. pr_id x = q) rs"
      for rs :: "profile_row list"
      using that by (induction rs) auto
    then show ?thesis by (simp add: profile_name_def delete_profile_def)
  qed
  have "List.map_filter (\<lambda>(c, q, x). profile_name ?d q) (filter (\<lambda>(c, q, x). q \<noteq> pr_id r) ls)
      = filter (\<lambda>n. n \<noteq> pr_name r) (List.map_filter (\<lambda>(c, q, x). profile_name d q) ls)" for ls :: "(int \<times> int \<times> int) list"
  proof (induction ls)
    case (Cons l ls)
    obtain c q x where l: "l = (c, q, x)" by (cases l)
    show ?case
    proof (cases "q = pr_id r")
      case True
      then show ?thesis using Cons profile_name_row [OF assms] by (simp add: l map_filter_simps)
    next
      case False
      have "n \<noteq> pr_name r" if "profile_name d q = Some n" for n
      proof -
        from that obtain y where y: "find (\<lambda>x. pr_id x = q) (profiles d) = Some y" "pr_name y = n" by (auto simp: profile_name_def)
        then have "y \<in> set (profiles d)" "pr_id y = q" using find_SomeD [OF y(1)] by simp_all
        then show ?thesis using assms False y(2) by (auto simp: db_ok_def ids_ok_def distinct_map inj_on_def)
      qed
      then show ?thesis using Cons kept [OF False] False by (auto simp: l map_filter_simps split: option.split)
    qed
  qed (simp add: map_filter_simps)
  moreover have "sort_key (\<lambda>(c, q, x). x) (filter (\<lambda>(c, q, x). c = i) (containers_profiles ?d))
      = filter (\<lambda>(c, q, x). q \<noteq> pr_id r) (sort_key (\<lambda>(c, q, x). x) (filter (\<lambda>(c, q, x). c = i) (containers_profiles d)))"
    by (simp add: delete_profile_def filter_sort conj_commute split_beta)
  ultimately show ?thesis unfolding profile_names_def by simp
qed

lemma in_profile_names:
  assumes "db_ok d" "c \<in> set (containers d)" "name \<in> set (profile_names d (cr_id c))"
  shows "cr_name c \<in> set (concat (map (\<lambda>(c, q, ord).
     if profile_name d q = Some name then map cr_name (filter (\<lambda>r. cr_id r = c) (containers d)) else []) (containers_profiles d)))"
proof -
  from assms(3) obtain q ord where "(cr_id c, q, ord) \<in> set (containers_profiles d)" "profile_name d q = Some name"
    by (auto simp: profile_names_def map_filter_def split: option.splits)
  then show ?thesis using assms(2) by force
qed

text \<open>
  C26. Deleting a profile on a database on which no statement fails: when the request succeeds, every container that used the
  profile is one the daemon could not load.  Those containers lose the profile without notice; all others keep their list.  When
  the query of the users fails, a profile in use is deleted (\<open>failed_query_deletes_profile\<close>).
\<close>

theorem profileDelete_only_unloadable:
  assumes "db_ok d" "profileDelete loads name (calm d) = (EmptySyncResponse, s')"
  shows "name \<notin> set (map pr_name (profiles (data s')))
    \<and> profile_names (data s') i = filter (\<lambda>n. n \<noteq> name) (profile_names d i)
    \<and> (\<forall>c \<in> set (containers d). loads (cr_name c) \<longrightarrow> profile_names (data s') (cr_id c) = profile_names d (cr_id c))"
proof -
  obtain i p s1 where g: "ProfileGet name (calm d) = (Inr (i, p), s1)"
    using assms(2) unfolding profileDelete_def by (auto split: prod.splits sum.splits)
  then have "does (ProfileGet name) (data (calm d)) (i, p) (data s1)" by (rule doesI)
  then have "does (ProfileGet name) d (i, p) (data s1)" by (simp add: calm_def)
  with assms(1) obtain r where r: "r \<in> set (profiles d)" "pr_name r = name" "pr_id r = i"
    "data s1 = d" by (rule does_ProfileGet)
  from ProfileGet_reads [OF assms(1) r(1)] obtain p2 where get: "ProfileGet name (calm d) = (Inr (pr_id r, p2), calm d)"
    using r(2) by metis
  let ?users = "concat (map (\<lambda>(c, q, ord). if profile_name d q = Some name
      then map cr_name (filter (\<lambda>r. cr_id r = c) (containers d)) else []) (containers_profiles d))"
  have users: "getContainersWithProfile loads name (calm d) = (Inr (filter loads ?users), calm d)"
    by (simp add: getContainersWithProfile_def ProfileContainersGet_def attemptD_def bindD_def)
  have del: "ProfileDelete name (calm d) = (Inr (), calm (delete_profile (pr_id r) d))"
    using get by (simp add: ProfileDelete_def bindD_def execD_def faultD_def calm_def)
  have run: "filter loads ?users = []" "s' = calm (delete_profile (pr_id r) d)"
    using assms(2) get users del by (auto simp: profileDelete_def split: if_splits)
  have names: "profile_names (data s') j = filter (\<lambda>n. n \<noteq> name) (profile_names d j)" for j
    using delete_profile_names [OF assms(1) r(1)] r(2) by (simp add: run(2) calm_def)
  have "profile_names (data s') (cr_id c) = profile_names d (cr_id c)" if "c \<in> set (containers d)" "loads (cr_name c)" for c
  proof -
    have "cr_name c \<notin> set ?users" using run(1) that(2) unfolding filter_empty_conv by blast
    then have "name \<notin> set (profile_names d (cr_id c))" using in_profile_names [OF assms(1) that(1)] by blast
    then show ?thesis unfolding names by (metis (mono_tags, lifting) filter_True)
  qed
  moreover have "q = r" if "q \<in> set (profiles d)" "pr_name q = name" for q
    using assms(1) r that by (auto simp: db_ok_def ids_ok_def distinct_map inj_on_def)
  then have "name \<notin> set (map pr_name (profiles (data s')))" by (auto simp: run(2) calm_def delete_profile_def)
  ultimately show ?thesis using names by blast
qed

text \<open>Renaming a profile that does not exist is answered like a success and changes nothing.\<close>

lemma rename_missing_profile:
  assumes "name \<notin> set (map pr_name (profiles d))" "newName \<notin> set (map pr_name (profiles d))"
    and "newName \<noteq> []" "bad_name newName = None"
  shows "profilePost name newName (calm d) = (SyncLocation newName, calm d)"
proof -
  have none: "find (\<lambda>r. pr_name r = newName) (profiles d) = None" using assms(2) by (auto simp: find_None_iff)
  have "map (\<lambda>r. if pr_name r = name then r\<lparr>pr_name := newName\<rparr> else r) (profiles d) = profiles d"
    using assms(1) by (intro map_idI) auto
  then have "ProfileUpdate name newName (calm d) = (Inr (), calm d)"
    using assms(1) by (simp add: ProfileUpdate_def in_tx_def execD_def bindD_def faultD_def calm_def rename_profiles_def)
  then show ?thesis using none assms by (simp add: profilePost_def ProfileGet_def bindD_def)
qed

section \<open>Examples\<close>

definition bare_host :: host_env where
  "bare_host = \<lparr>h_stat = (\<lambda>_. None), h_exists = (\<lambda>_. False), h_isdir = (\<lambda>_. False), h_run = (\<lambda>_. ([], False)),
     h_meminfo = None, h_mountinfo = None, h_abs = (\<lambda>_. None), h_evalsymlinks = (\<lambda>_. None), h_fs = (\<lambda>_. []),
     h_readdir = (\<lambda>_. None), h_readfile = (\<lambda>_. None)\<rparr>"

definition demo_daemon :: daemon_env where
  "demo_daemon = \<lparr>d_lxc21 = True, d_idmap = None, d_host = bare_host, d_loads = (\<lambda>_. False), d_update = (\<lambda>c t. (None, t))\<rparr>"

definition demo_put :: put_profile where
  "demo_put = \<lparr>put_description = ''new'', put_config = Some [(''user.x'', ''1'')],
     put_devices = Some [(''eth0'', [(''type'', ''nic''), (''nictype'', ''p2p'')])]\<rparr>"

theorem profilePut_stores_witness:
  "config_of OProfile (data (snd (profilePut demo_daemon ''default'' demo_put (calm demo_db)))) 1 ''user.x'' = Some ''1''"
proof -
  obtain resp s' where run: "profilePut demo_daemon ''default'' demo_put (calm demo_db) = (resp, s')" by force
  have get: "ProfileGet ''default'' (calm demo_db) = (Inr (1, \<lparr>p_name = ''default'', p_description = [], p_config = [],
      p_devices = []\<rparr>), calm demo_db)"
    by (simp add: ProfileGet_def ProfileConfig_def Devices_of_def bindD_def relabelD_def demo_db_def)
  have "containerValidConfig True None (put_config demo_put) True False = None"
    by (simp add: demo_put_def containerValidConfig_def containerValidConfigKey_def key_switch_def HasPrefix_def)
  moreover have "containerValidDevices bare_host (put_devices demo_put) True False = None"
    by (simp add: demo_put_def containerValidDevices_def check_device_def check_nic_def mget_def containerValidDeviceConfigKey_def)
  ultimately have resp: "resp = EmptySyncResponse"
    using run get by (simp add: profilePut_def doProfileUpdate_def demo_daemon_def getContainersWithProfile_def
        ProfileContainersGet_def db_run_simps profile_tx_def demo_put_def calm_def demo_db_def ProfileDescriptionUpdate_def
        rename_profiles_def DeepEqual_def same_map_def ProfileConfigClear_def drop_devices_def ProfileConfigAdd_def or_empty_def
        DevicesAdd_def mget_def dbDeviceTypeToInt_def)
  have "db_ok (data (calm demo_db))" using demo_ok by (simp add: calm_def)
  note stored = profilePut_stores [OF this run, unfolded resp]
  have "\<exists>r \<in> set (profiles demo_db). pr_name r = ''default''
      \<and> config_of OProfile (data s') = (config_of OProfile demo_db)(pr_id r := map_of (or_empty (put_config demo_put)))"
    using stored by (auto simp: demo_daemon_def calm_def)
  then show ?thesis using run by (auto simp: demo_db_def demo_put_def or_empty_def)
qed

definition used_db :: lxd_db where
  "used_db = demo_db\<lparr>containers := [\<lparr>cr_id = 1, cr_name = ''c1'', cr_architecture = 2, cr_type = 0, cr_ephemeral = 0,
     cr_stateful = 0, cr_creation_date = 0\<rparr>], containers_profiles := [(1, 1, 1)], next_container := 2\<rparr>"

text \<open>
  \<^verbatim>\<open>getContainersWithProfile\<close> drops the error of its query.  When the query fails, the profile counts as unused: it is
  deleted although a container that the daemon can load has it, and the container loses it.
\<close>

lemma failed_query_deletes_profile:
  "let (resp, s') = profileDelete (\<lambda>_. True) ''default'' \<lparr>data = used_db, trouble = [False, False, False, False, True]\<rparr>
   in resp = EmptySyncResponse \<and> profile_names used_db 1 = [''default''] \<and> profile_names (data s') 1 = []"
  by (simp add: profileDelete_def ProfileGet_def ProfileConfig_def Devices_of_def db_run_simps used_db_def demo_db_def
      getContainersWithProfile_def ProfileContainersGet_def ProfileDelete_def profile_name_def delete_profile_def
      profile_names_def map_filter_simps)

theorem profileDelete_only_unloadable_witness:
  "profile_names used_db 1 = [''default'']
   \<and> profile_names (data (snd (profileDelete (\<lambda>_. False) ''default'' (calm used_db)))) 1 = []"
proof -
  obtain resp s' where run: "profileDelete (\<lambda>_. False) ''default'' (calm used_db) = (resp, s')" by force
  have "resp = EmptySyncResponse"
    using run by (simp add: profileDelete_def ProfileGet_def ProfileConfig_def Devices_of_def db_run_simps used_db_def demo_db_def
        calm_def getContainersWithProfile_def ProfileContainersGet_def ProfileDelete_def profile_name_def)
  moreover have "db_ok used_db" by (simp add: used_db_def demo_db_def db_ok_def ids_ok_def tables_ok_def links_ok_def)
  moreover have "profile_names used_db 1 = [''default'']"
    by (simp add: profile_names_def used_db_def demo_db_def profile_name_def map_filter_simps)
  ultimately show ?thesis
    using profileDelete_only_unloadable [of used_db "\<lambda>_. False" "''default''" s' 1] run by simp
qed

end
