(* ===== verification/Names.thy ===== *)
theory Names
  imports Container_Config
begin

text \<open>
  Names: architectures (\<^verbatim>\<open>shared/osarch/architectures.go\<close>), the logical volumes of containers and
  snapshots (\<^verbatim>\<open>lxd/storage_lvm.go\<close>) and the numbers of new snapshots
  (\<^verbatim>\<open>lxd/container_snapshot.go\<close>).
\<close>

section \<open>Architectures\<close>

definition architectureNames :: "(nat, string) gomap" where
  "architectureNames =
     [(1, ''i686''), (2, ''x86_64''), (3, ''armv7l''), (4, ''aarch64''), (5, ''ppc''), (6, ''ppc64''), (7, ''ppc64le''), (8, ''s390x'')]"

definition architectureAliases :: "(nat, string list) gomap" where
  "architectureAliases =
     [(1, [''i386'', ''386'']), (2, [''amd64'']), (3, [''armel'', ''armhf'', ''arm'']), (4, [''arm64'']),
      (5, [''powerpc'']), (6, [''powerpc64'', ''ppc64'']), (7, [''ppc64el''])]"

definition architecturePersonalities :: "(nat, string) gomap" where
  "architecturePersonalities =
     [(1, ''linux32''), (2, ''linux64''), (3, ''linux32''), (4, ''linux64''), (5, ''linux32''), (6, ''linux64''), (7, ''linux64''),
      (8, ''linux64'')]"

definition architectureSupportedPersonalities :: "(nat, nat list) gomap" where
  "architectureSupportedPersonalities = [(1, []), (2, [1]), (3, []), (4, [3]), (5, []), (6, [5]), (7, []), (8, [])]"

text \<open>The error results are \<open>None\<close>.\<close>

definition ArchitectureName :: "nat \<Rightarrow> string option" where
  "ArchitectureName arch = map_of architectureNames arch"

definition ArchitecturePersonality :: "nat \<Rightarrow> string option" where
  "ArchitecturePersonality arch = map_of architecturePersonalities arch"

definition ArchitecturePersonalities :: "nat \<Rightarrow> nat list option" where
  "ArchitecturePersonalities arch = map_of architectureSupportedPersonalities arch"

text \<open>The two loops, over the maps in the order of the iteration.\<close>

fun alias_id :: "(nat, string list) gomap \<Rightarrow> string \<Rightarrow> nat option" where
  "alias_id [] arch = None"
| "alias_id ((i, names) # rest) arch = (if StringInSlice arch names then Some i else alias_id rest arch)"

fun name_id :: "(nat, string) gomap \<Rightarrow> string \<Rightarrow> nat option" where
  "name_id [] arch = None"
| "name_id ((i, name) # rest) arch = (if name = arch then Some i else name_id rest arch)"

definition ArchitectureId :: "(nat, string) gomap \<Rightarrow> (nat, string list) gomap \<Rightarrow> string \<Rightarrow> nat option" where
  "ArchitectureId names aliases arch =
     (case name_id names arch of Some i \<Rightarrow> Some i | None \<Rightarrow> alias_id aliases arch)"

lemma name_id_Some: "name_id m a = Some i \<Longrightarrow> (i, a) \<in> set m"
  by (induction m a rule: name_id.induct) (auto split: if_splits)

lemma name_id_None: "name_id m a = None \<longleftrightarrow> a \<notin> snd ` set m"
  by (induction m a rule: name_id.induct) auto

lemma alias_id_Some: "alias_id m a = Some i \<Longrightarrow> \<exists>l. (i, l) \<in> set m \<and> a \<in> set l"
  by (induction m a rule: alias_id.induct) (auto split: if_splits)

lemma alias_id_None: "alias_id m a = None \<longleftrightarrow> (\<forall>(i, l) \<in> set m. a \<notin> set l)"
  by (induction m a rule: alias_id.induct) auto

text \<open>The pairs of an architecture and one of its names; no name belongs to two architectures.\<close>

definition arch_pairs :: "(string \<times> nat) list" where
  "arch_pairs = map (\<lambda>(i, a). (a, i)) architectureNames @
     remove1 (''ppc64'', 6) (concat (map (\<lambda>(i, l). map (\<lambda>a. (a, i)) l) architectureAliases))"

lemma arch_pairs_distinct: "distinct (map fst arch_pairs)"
  by (simp add: arch_pairs_def architectureNames_def architectureAliases_def)

lemma arch_pairs_name: "(i, a) \<in> set architectureNames \<Longrightarrow> (a, i) \<in> set arch_pairs"
  by (force simp: arch_pairs_def)

lemma arch_pairs_alias: "(i, l) \<in> set architectureAliases \<Longrightarrow> a \<in> set l \<Longrightarrow> (a, i) \<in> set arch_pairs"
proof (cases "(a, i) = (''ppc64'', 6)")
  case True
  have "(6, ''ppc64'') \<in> set architectureNames" by (simp add: architectureNames_def)
  with True show ?thesis by (auto intro: arch_pairs_name)
next
  case False
  assume "(i, l) \<in> set architectureAliases" "a \<in> set l"
  then have "(a, i) \<in> set (concat (map (\<lambda>(i, l). map (\<lambda>a. (a, i)) l) architectureAliases))" by force
  with False show ?thesis by (simp add: arch_pairs_def in_set_remove1 del: set_concat set_map)
qed

lemma arch_pairs_unique: "(a, i) \<in> set arch_pairs \<Longrightarrow> (a, j) \<in> set arch_pairs \<Longrightarrow> i = j"
  using arch_pairs_distinct by (metis eq_key_imp_eq_value)

section \<open>Logical volumes\<close>

definition ReplaceChar :: "char \<Rightarrow> string \<Rightarrow> string \<Rightarrow> string" where
  "ReplaceChar c r s = concat (map (\<lambda>x. if x = c then r else [x]) s)"

definition containerNameToLVName :: "string \<Rightarrow> string" where
  "containerNameToLVName containerName = ReplaceChar CHR ''/'' ''-'' (ReplaceChar CHR ''-'' ''--'' containerName)"

lemma lv_simps [simp]:
  "containerNameToLVName [] = []"
  "containerNameToLVName (x # s) =
    (if x = CHR ''-'' then ''--'' else if x = CHR ''/'' then ''-'' else [x]) @ containerNameToLVName s"
  by (simp_all add: containerNameToLVName_def ReplaceChar_def)

text \<open>A name without a slash is encoded injectively: every run of dashes has an even length.\<close>

lemma lv_inject:
  "containerNameToLVName s = containerNameToLVName t \<Longrightarrow> CHR ''/'' \<notin> set s \<Longrightarrow> CHR ''/'' \<notin> set t \<Longrightarrow> s = t"
proof (induction s arbitrary: t)
  case Nil
  then show ?case by (cases t) (auto split: if_splits)
next
  case (Cons x s)
  then show ?case by (cases t) (auto split: if_splits)
qed

text \<open>Only a container name that consists of dashes is confused with the separator.\<close>

lemma lv_separator:
  assumes "containerNameToLVName (c @ t) = CHR ''-'' # containerNameToLVName s"
    and "CHR ''/'' \<notin> set c" "CHR ''/'' \<notin> set s"
  shows "set c \<subseteq> {CHR ''-''}"
  using assms
proof (induction c arbitrary: s)
  case (Cons x c)
  then have x: "x = CHR ''-''" and e: "CHR ''-'' # containerNameToLVName (c @ t) = containerNameToLVName s"
    by (auto split: if_splits)
  from e Cons.prems(3) obtain s' where "s = CHR ''-'' # s'"
    by (cases s) (auto split: if_splits)
  with e Cons x show ?case by simp
qed simp

definition snapshot_part :: "string \<Rightarrow> bool" where
  "snapshot_part t \<longleftrightarrow> t = [] \<or> hd t = CHR ''/'' \<and> CHR ''/'' \<notin> set (tl t)"

lemma lv_names_inject:
  assumes "containerNameToLVName (c @ t) = containerNameToLVName (c' @ t')"
    and "CHR ''/'' \<notin> set c" "CHR ''/'' \<notin> set c'" "c = [] \<or> last c \<noteq> CHR ''-''" "c' = [] \<or> last c' \<noteq> CHR ''-''"
    and "snapshot_part t" "snapshot_part t'"
  shows "c = c' \<and> t = t'"
  using assms
proof (induction c arbitrary: c')
  case Nil
  show ?case
  proof (cases t)
    case Nil
    with Nil.prems show ?thesis by (cases c'; cases t') (auto split: if_splits)
  next
    case (Cons y s)
    then have t: "t = CHR ''/'' # s" "CHR ''/'' \<notin> set s" using Nil.prems(6) by (auto simp: snapshot_part_def)
    then have "set c' \<subseteq> {CHR ''-''}"
      using lv_separator [of c' t' s] Nil.prems by simp
    then have "c' = []" using Nil.prems(5) last_in_set [of c'] by blast
    with Nil.prems t show ?thesis by (cases t') (auto simp: snapshot_part_def intro: lv_inject)
  qed
next
  case (Cons x c)
  show ?case
  proof (cases c')
    case Nil
    have "t' \<noteq> []"
    proof
      assume "t' = []"
      with Cons.prems(1) Nil show False by (simp split: if_splits)
    qed
    then obtain s where t': "t' = CHR ''/'' # s" "CHR ''/'' \<notin> set s"
      using Cons.prems(7) by (cases t') (simp_all add: snapshot_part_def)
    have "containerNameToLVName (CHR ''/'' # s) = CHR ''-'' # containerNameToLVName s" by simp
    with Cons.prems(1) Nil t'(1) have "containerNameToLVName ((x # c) @ t) = CHR ''-'' # containerNameToLVName s"
      by (simp only: append_Nil)
    then have "set (x # c) \<subseteq> {CHR ''-''}"
      using Cons.prems(2) t'(2) by (rule lv_separator)
    then have False using Cons.prems(4) last_in_set [of "x # c"] by blast
    then show ?thesis ..
  next
    case (Cons y d)
    have ne: "x \<noteq> CHR ''/''" "y \<noteq> CHR ''/''" using Cons.prems(2,3) \<open>c' = y # d\<close> by auto
    have eq: "(if x = CHR ''-'' then ''--'' else [x]) @ containerNameToLVName (c @ t) =
        (if y = CHR ''-'' then ''--'' else [y]) @ containerNameToLVName (d @ t')"
      using Cons.prems(1) ne unfolding \<open>c' = y # d\<close> append_Cons lv_simps by (simp only: if_False)
    then have "x = y" "containerNameToLVName (c @ t) = containerNameToLVName (d @ t')"
      by (cases "x = CHR ''-''"; cases "y = CHR ''-''"; simp)+
    moreover have "c = [] \<or> last c \<noteq> CHR ''-''" "d = [] \<or> last d \<noteq> CHR ''-''"
      using Cons.prems(4,5) \<open>c' = y # d\<close> by (cases "c = []"; simp; cases "d = []"; simp)+
    ultimately show ?thesis using Cons.IH [of d] Cons.prems(2,3,6,7) \<open>c' = y # d\<close> by simp
  qed
qed

section \<open>Numbers of snapshots\<close>

text \<open>\<^verbatim>\<open>fmt.Sscanf\<close> with \<^verbatim>\<open>%d\<close>: white space but no newline, a sign, and as many digits as there are.\<close>

fun skip_space :: "string \<Rightarrow> string option" where
  "skip_space [] = Some []"
| "skip_space (c # cs) =
     (if c = CHR 0x0A then None else if is_space c then skip_space cs else Some (c # cs))"

definition is_digit :: "char \<Rightarrow> bool" where
  "is_digit c \<longleftrightarrow> (let n = of_char c :: nat in 48 \<le> n \<and> n \<le> 57)"

definition Sscanf_d :: "string \<Rightarrow> int option" where
  "Sscanf_d s = (case skip_space s of
     None \<Rightarrow> None
   | Some t \<Rightarrow>
       let sign = (if t \<noteq> [] \<and> (hd t = CHR ''+'' \<or> hd t = CHR ''-'') then [hd t] else []);
           ds = takeWhile is_digit (drop (length sign) t)
       in (if ds = [] then None
           else (case ParseInt (sign @ ds) 10 64 of (i, None) \<Rightarrow> Some i | (i, Some e) \<Rightarrow> None)))"

fun next_loop :: "nat \<Rightarrow> int \<Rightarrow> string list \<Rightarrow> int" where
  "next_loop len mx [] = mx"
| "next_loop len mx (name # names) =
     (if length name \<le> len then next_loop len mx names
      else (case Sscanf_d (drop len name) of
          None \<Rightarrow> next_loop len mx names
        | Some num \<Rightarrow> next_loop len (if mx \<le> num then i64 (num + 1) else mx) names))"

definition snapshot_base :: "string \<Rightarrow> string" where
  "snapshot_base name = name @ ''/'' @ ''snap''"

text \<open>The query selects the names of the snapshots with the base as a prefix; a failing query gives 0.\<close>

definition nextSnapshot :: "string list option \<Rightarrow> string \<Rightarrow> int" where
  "nextSnapshot rows name = (case rows of
     None \<Rightarrow> 0
   | Some names \<Rightarrow> next_loop (length (snapshot_base name)) 0 (filter (\<lambda>n. HasPrefix n (snapshot_base name)) names))"

lemma Sscanf_dec:
  assumes "0 \<le> i" "i < 2 ^ 63"
  shows "Sscanf_d (dec_of_int i) = Some i"
proof -
  have s: "dec_of_int i = dec_of_nat (nat i)" using assms(1) by (simp add: dec_of_int_def)
  have dig: "\<forall>c \<in> set (dec_of_nat (nat i)). is_digit c \<and> \<not> is_space c \<and> c \<noteq> CHR 0x0A"
  proof
    fix c assume "c \<in> set (dec_of_nat (nat i))"
    then obtain d where d: "d < 10" "c = digit_char d" using dec_of_nat_digits by blast
    have "(of_char c :: nat) = 48 + d" using digit_char_code d by simp
    with d(1) show "is_digit c \<and> \<not> is_space c \<and> c \<noteq> CHR 0x0A" by (auto simp: is_digit_def is_space_def Let_def)
  qed
  then obtain c cs where c: "dec_of_nat (nat i) = c # cs" "is_digit c" "\<not> is_space c" "c \<noteq> CHR 0x0A" "c \<noteq> CHR ''+''" "c \<noteq> CHR ''-''"
    using dec_of_nat_hd [of "nat i"] by (cases "dec_of_nat (nat i)") (auto dest: dec_of_nat_not_Nil [THEN notE])
  have tw: "takeWhile is_digit cs = cs" using dig c(1) by (simp add: takeWhile_eq_all_conv)
  with c ParseInt_dec_nonneg [OF assms] s show ?thesis by (simp add: Sscanf_d_def Let_def tw)
qed

lemma next_loop_ge:
  assumes "\<forall>n \<in> set names. Sscanf_d (drop len n) \<noteq> Some (2 ^ 63 - 1)"
  shows "mx \<le> next_loop len mx names
    \<and> (\<forall>n \<in> set names. \<forall>i. len < length n \<longrightarrow> Sscanf_d (drop len n) = Some i \<longrightarrow> i < next_loop len mx names)"
  using assms
proof (induction names arbitrary: mx)
  case (Cons n names)
  show ?case
  proof (cases "len < length n \<and> Sscanf_d (drop len n) \<noteq> None")
    case False
    with Cons show ?thesis by (auto split: option.splits)
  next
    case True
    then obtain num where num: "Sscanf_d (drop len n) = Some num" by auto
    have "in_i64 num"
      using num by (auto simp: Sscanf_d_def Let_def Atoi_def [symmetric] split: option.splits if_splits prod.splits dest: Atoi_in_i64)
    with Cons.prems num have "i64 (num + 1) = num + 1" by (intro i64_small) (auto simp: in_i64_def)
    with Cons.IH [of "if mx \<le> num then i64 (num + 1) else mx"] Cons.prems num True show ?thesis by (fastforce split: if_splits)
  qed
qed simp

lemma next_loop_less: "mx < 2 ^ 63 \<Longrightarrow> next_loop len mx names < 2 ^ 63"
  by (induction len mx names rule: next_loop.induct) (auto simp: i64_def split: option.splits)

lemma ValidHostname_shape:
  assumes "ValidHostname p"
  shows "CHR ''/'' \<notin> set p" and "p = [] \<or> last p \<noteq> CHR ''-''"
proof -
  have a: "list_all is_hostname_char p" "\<not> HasSuffix p ''-''"
    using assms unfolding ValidHostname_def by (metis (full_types))+
  have "\<not> is_hostname_char CHR ''/''" by (simp add: is_hostname_char_def)
  with a(1) show "CHR ''/'' \<notin> set p" by (auto simp: list_all_iff)
  show "p = [] \<or> last p \<noteq> CHR ''-''"
  proof (cases "p = [] \<or> last p \<noteq> CHR ''-''")
    case False
    then have "p = butlast p @ ''-''" by (metis append_butlast_last_id)
    with a(2) HasSuffix_append show ?thesis by metis
  qed
qed

section \<open>The properties\<close>

text \<open>
  The identifier of an architecture does not depend on the order of the iteration over the maps, although a name may be both a
  name and an alias: it is the only architecture that has the name, and it is found again from the architecture's own name.
\<close>

theorem ArchitectureId_deterministic:
  assumes "mset names = mset architectureNames" "mset aliases = mset architectureAliases"
  shows "(ArchitectureId names aliases a = Some i \<longleftrightarrow>
      (i, a) \<in> set architectureNames \<or> (\<exists>l. (i, l) \<in> set architectureAliases \<and> a \<in> set l))
    \<and> (ArchitectureName i = Some a \<longrightarrow> ArchitectureId names aliases a = Some i)"
proof -
  have s: "set names = set architectureNames" "set aliases = set architectureAliases"
    using assms by (metis set_mset_mset)+
  have pair: "(a, j) \<in> set arch_pairs" if "ArchitectureId names aliases a = Some j" for j
    using that s name_id_Some [of names a j] alias_id_Some [of aliases a j] arch_pairs_name arch_pairs_alias
    by (auto simp: ArchitectureId_def split: option.splits)
  have some: "ArchitectureId names aliases a \<noteq> None" if "(i, a) \<in> set architectureNames \<or> (\<exists>l. (i, l) \<in> set architectureAliases \<and> a \<in> set l)"
    using that s name_id_None [of names a] alias_id_None [of aliases a]
    by (auto simp: ArchitectureId_def image_iff split: option.splits)
  have iff: "ArchitectureId names aliases a = Some i \<longleftrightarrow>
      (i, a) \<in> set architectureNames \<or> (\<exists>l. (i, l) \<in> set architectureAliases \<and> a \<in> set l)"
  proof
    assume "ArchitectureId names aliases a = Some i"
    then show "(i, a) \<in> set architectureNames \<or> (\<exists>l. (i, l) \<in> set architectureAliases \<and> a \<in> set l)"
      using s name_id_Some [of names a i] alias_id_Some [of aliases a i] by (auto simp: ArchitectureId_def split: option.splits)
  next
    assume a: "(i, a) \<in> set architectureNames \<or> (\<exists>l. (i, l) \<in> set architectureAliases \<and> a \<in> set l)"
    then have "(a, i) \<in> set arch_pairs" using arch_pairs_name arch_pairs_alias by blast
    with some [OF a] pair arch_pairs_unique show "ArchitectureId names aliases a = Some i" by (metis option.exhaust)
  qed
  then show ?thesis by (auto simp: ArchitectureName_def dest: map_of_SomeD)
qed

theorem ArchitectureId_deterministic_witness:
  "ArchitectureId (rev architectureNames) (rev architectureAliases) ''ppc64'' = Some 6"
  using ArchitectureId_deterministic [of "rev architectureNames" "rev architectureAliases" "''ppc64''" 6]
  by (simp add: ArchitectureName_def architectureNames_def)

text \<open>
  C29. Different containers and snapshots get different logical volumes, as long as the names of the containers are valid and
  those of the snapshots have no slash, which the requests do not ensure (\<open>containerNameToLVName_slash\<close>).
\<close>

theorem containerNameToLVName_injective:
  assumes "containerNameToLVName n = containerNameToLVName n'"
    and "containerGetParentAndSnapshotName n = (c, s, b)" "containerGetParentAndSnapshotName n' = (c', s', b')"
    and "ValidHostname c" "ValidHostname c'" "CHR ''/'' \<notin> set s" "CHR ''/'' \<notin> set s'"
  shows "n = n'"
proof -
  have part: "\<exists>t. m = p @ t \<and> snapshot_part t" if "containerGetParentAndSnapshotName m = (p, q, r)" "CHR ''/'' \<notin> set q" for m p q r
  proof (cases "CHR ''/'' \<in> set m")
    case True
    let ?t = "dropWhile (\<lambda>x. x \<noteq> CHR ''/'') m"
    from True have "?t \<noteq> []" by (simp add: dropWhile_eq_Nil_conv)
    then obtain y r where t: "?t = y # r" by (cases ?t) auto
    then have "y = CHR ''/''" by (metis (mono_tags, lifting) hd_dropWhile list.sel(1) list.distinct(1))
    moreover have "p = takeWhile (\<lambda>x. x \<noteq> CHR ''/'') m" "q = r"
      using that(1) t by (simp_all add: containerGetParentAndSnapshotName_def split2_def)
    moreover have "m = takeWhile (\<lambda>x. x \<noteq> CHR ''/'') m @ ?t" by simp
    ultimately show ?thesis using t that(2) by (intro exI [of _ ?t]) (simp add: snapshot_part_def)
  next
    case False
    then have "dropWhile (\<lambda>x. x \<noteq> CHR ''/'') m = []" by (auto simp: dropWhile_eq_Nil_conv)
    with that(1) show ?thesis by (simp add: containerGetParentAndSnapshotName_def split2_def snapshot_part_def)
  qed
  have host: "CHR ''/'' \<notin> set p" "p = [] \<or> last p \<noteq> CHR ''-''" if "ValidHostname p" for p
    using that ValidHostname_shape [of p] by blast+
  obtain t t' where "n = c @ t" "n' = c' @ t'" "snapshot_part t" "snapshot_part t'"
    using part assms by meson
  with lv_names_inject [of c t c' t'] host assms show ?thesis by simp
qed

text \<open>
  C38. When the query for the snapshots succeeds and none of them has the largest 64-bit number, the name proposed for a new
  snapshot is not in use.  A query that fails gives the number 0, in use or not (\<open>nextSnapshot_failed\<close>); after the
  largest number the count wraps around (\<open>nextSnapshot_wraps\<close>).
\<close>

theorem nextSnapshot_fresh:
  assumes "\<forall>n \<in> set names. Sscanf_d (drop (length (snapshot_base name)) n) \<noteq> Some (2 ^ 63 - 1)"
  shows "0 \<le> nextSnapshot (Some names) name
    \<and> nextSnapshot (Some names) name < 2 ^ 63
    \<and> snapshot_base name @ dec_of_int (nextSnapshot (Some names) name) \<notin> set names"
proof -
  let ?len = "length (snapshot_base name)" and ?ns = "filter (\<lambda>n. HasPrefix n (snapshot_base name)) names"
  have g: "0 \<le> next_loop ?len 0 ?ns"
    "\<And>n i. n \<in> set ?ns \<Longrightarrow> ?len < length n \<Longrightarrow> Sscanf_d (drop ?len n) = Some i \<Longrightarrow> i < next_loop ?len 0 ?ns"
    using next_loop_ge [of ?ns ?len 0] assms by auto
  have b: "next_loop ?len 0 ?ns < 2 ^ 63" by (rule next_loop_less) simp
  have False if m: "snapshot_base name @ dec_of_int (next_loop ?len 0 ?ns) \<in> set names"
  proof -
    let ?n = "snapshot_base name @ dec_of_int (next_loop ?len 0 ?ns)"
    have "dec_of_int (next_loop ?len 0 ?ns) \<noteq> []" by (simp add: dec_of_int_def)
    with g(2) [of ?n] m Sscanf_dec [OF g(1) b] show False by simp
  qed
  with g(1) b show ?thesis by (auto simp: nextSnapshot_def)
qed

theorem containerNameToLVName_injective_witness:
  "containerNameToLVName ''a/-b'' = ''a---b'' \<and> ''a/-b'' = ''a/-b''"
  using containerNameToLVName_injective [of "''a/-b''" "''a/-b''" "''a''" "''-b''" True "''a''" "''-b''" True]
  by (simp add: containerGetParentAndSnapshotName_def split2_def ValidHostname_def HasPrefix_def HasSuffix_def Atoi_def
      ParseInt_def ParseUint_def digit_val_def is_hostname_char_def Let_def)

text \<open>Without the condition on the snapshot or on the container two names meet.\<close>

lemma containerNameToLVName_slash:
  "containerNameToLVName ''a/b/-c'' = containerNameToLVName ''a/b-/c''"
  by simp

lemma containerNameToLVName_collision:
  "containerNameToLVName ''a-/b'' = containerNameToLVName ''a/-b''"
  by simp

theorem nextSnapshot_fresh_witness:
  "snapshot_base ''c1'' @ dec_of_int (nextSnapshot (Some [''c1/snap0'', ''c1/snapx'', ''c1/snap3'']) ''c1'')
    \<notin> set [''c1/snap0'', ''c1/snapx'', ''c1/snap3'']"
proof -
  have scan: "Sscanf_d ''0'' = Some 0" "Sscanf_d ''x'' = None" "Sscanf_d ''3'' = Some 3"
    by (simp_all add: Sscanf_d_def is_space_def is_digit_def ParseInt_def ParseUint_def digit_val_def Let_def)
  have "nextSnapshot (Some [''c1/snap0'', ''c1/snapx'', ''c1/snap3'']) ''c1'' = 4"
    by (simp add: nextSnapshot_def snapshot_base_def HasPrefix_def scan i64_small)
  with nextSnapshot_fresh [of "[''c1/snap0'', ''c1/snapx'', ''c1/snap3'']" "''c1''"] scan
  show ?thesis by (simp add: snapshot_base_def)
qed

lemma nextSnapshot_failed: "nextSnapshot None name = 0"
  by (simp add: nextSnapshot_def)

text \<open>The number after the largest one wraps around, and the numbers seen before it are forgotten.\<close>

lemma nextSnapshot_wraps:
  assumes "Sscanf_d a = Some 6" "Sscanf_d b = Some (2 ^ 63 - 1)" "Sscanf_d d = Some 5" "a \<noteq> []" "b \<noteq> []" "d \<noteq> []"
  shows "nextSnapshot (Some [snapshot_base c @ a, snapshot_base c @ b, snapshot_base c @ d]) c = 6"
  using assms by (simp add: nextSnapshot_def i64_def)

end
