(* ===== verification/Lxc_State.thy ===== *)
theory Lxc_State
  imports Profile_Db Container_Idmap Names
begin

text \<open>
  The container object of \<^verbatim>\<open>lxd/container_lxc.go\<close>: its fields, and the operations on it as functions of a
  state with errors.

  The state holds the fields that change (the configuration and the devices, local and expanded, the cached
  \<^verbatim>\<open>go-lxc\<close> struct and id map), the connection to the database, and the list of the calls made so far to
  the host: liblxc, commands, cgroups, file system, storage driver.  The answer to a call is a function of that history
  and the call, so whatever another process does in between is covered.  The fields that do not change and the host are
  the record \<open>lxc_env\<close>.
\<close>

section \<open>The object and its host\<close>

datatype call =
    NewContainer
  | SetConfigItem string string
  | GetConfigItem string
  | RunningConfigItem string
  | LoadConfigFile string
  | SetLogFile string
  | LxcMonitorState
  | LxcInitPid
  | LxcInterfaces
  | AttachInterface string string
  | DetachInterface string string
  | CgroupItem string
  | SetCgroupItem string string
  | RandomName
  | RandomHwaddr
  | RunCommand "string list"
  | WriteFile string string
  | CreateFile string
  | MakeDir string int
  | RemoveFile string
  | MountDisk string string bool bool
  | InsertMount string string string int
  | RemoveMount string
  | FileExistsIn string
  | Unmount string
  | InsertUnix string Device
  | RemoveUnix Device
  | AAParse
  | AALoad
  | LoadModule string
  | SetQuota int
  | NetInterfaces
  | SchedulerTrigger

text \<open>The calls that act on a running container or on its devices and disks.\<close>

fun live_call :: "call \<Rightarrow> bool" where
  "live_call (AttachInterface dev name) = True"
| "live_call (DetachInterface dev name) = True"
| "live_call (SetCgroupItem key val) = True"
| "live_call (RunCommand command) = True"
| "live_call (WriteFile path text') = True"
| "live_call (CreateFile path) = True"
| "live_call (MakeDir path mode) = True"
| "live_call (RemoveFile path) = True"
| "live_call (MountDisk src dst ro rec) = True"
| "live_call (InsertMount src dst fstype flags) = True"
| "live_call (RemoveMount path) = True"
| "live_call (Unmount path) = True"
| "live_call (InsertUnix name m) = True"
| "live_call (RemoveUnix m) = True"
| "live_call AALoad = True"
| "live_call (LoadModule mdl) = True"
| "live_call c = False"

datatype lxc_error =
    Msg string
  | CallFailed call
  | BadDb db_error
  | Invalid config_error
  | HostError host_error
  | NumError num_error
  | SizeError size_error
  | NoIdmap alloc_error
  | OutOfFuel
  | GoPanic

type_synonym lxc_items = "(string \<times> string) list"

record lxc =
  l_architecture :: int
  l_ephemeral :: bool
  l_config :: strmap
  l_devices :: Devices
  l_profiles :: "string list"
  l_xconfig :: strmap
  l_xdevices :: Devices
  l_shared :: bool
  l_idmapset :: "IdmapSet option"
  l_cc :: "lxc_items option"
  l_building :: "lxc_items option"
  l_calls :: "call list"
  l_db :: "lxd_db conn"

text \<open>
  \<open>l_cc\<close> is \<^verbatim>\<open>c.c\<close>: \<open>None\<close> is nil, otherwise the items it was given, in their order;
  \<open>l_building\<close> is the variable \<^verbatim>\<open>cc\<close> of \<^verbatim>\<open>initLXC\<close>.  \<open>l_shared\<close> says that the
  expanded devices contain the very maps of the local devices, so that a write to one shows in the other: so it is after
  \<^verbatim>\<open>expandDevices\<close>, and no longer after \<^verbatim>\<open>Update\<close> has put back its copies.
\<close>

record lxc_env =
  e_id :: int
  e_name :: string
  e_snapshot :: bool
  e_fromHook :: bool
  e_lxd_dir :: string
  e_execPath :: string
  e_template :: string
  e_hostpath :: "string \<Rightarrow> string"
  e_sha256 :: "string \<Rightarrow> string"
  e_aaProfile :: string
  e_lxc21 :: bool
  e_os_idmap :: "IdmapSet option"
  e_architectures :: "int list"
  e_others :: "call list \<Rightarrow> string list option"
  e_load :: "call list \<Rightarrow> string \<Rightarrow> idmap_ct option"
  e_debug :: bool
  e_verbose :: bool
  e_userns :: bool
  aaStacking :: bool
  aaStacked :: bool
  aaAvailable :: bool
  aaConfined :: bool
  aaAdmin :: bool
  cgBlkio :: bool
  cgCpu :: bool
  cgDevices :: bool
  cgMemory :: bool
  cgNetPrio :: bool
  cgPids :: bool
  cgSwap :: bool
  e_sorter :: device_sorter
  e_entry_sorter :: entry_sorter
  e_path_sorter :: "(Device \<Rightarrow> Device \<Rightarrow> bool) \<Rightarrow> Device list \<Rightarrow> Device list"
  e_fuel :: nat
  e_ninety :: "int \<Rightarrow> string"
  e_unmarshal :: "string \<Rightarrow> IdmapSet option"
  e_host :: "call list \<Rightarrow> host_env"
  e_reply :: "call list \<Rightarrow> call \<Rightarrow> string list option"

text \<open>
  \<open>e_ninety v\<close> prints nine tenths of \<open>v\<close>, computed in floating point; \<open>e_unmarshal\<close> is
  \<^verbatim>\<open>json.Unmarshal\<close> of a list of id map entries; \<open>e_sha256\<close> is the hash in hexadecimal.  \<open>e_fuel\<close> is
  the bound on the nesting of storage pools of \<open>getDiskLimits\<close>; \<open>OutOfFuel\<close> stands for a deeper one.
\<close>

section \<open>Operations on the state\<close>

type_synonym 'a lxc_op = "lxc \<Rightarrow> (lxc_error + 'a) \<times> lxc"

definition returnS :: "'a \<Rightarrow> 'a lxc_op" where
  "returnS x s = (Inr x, s)"

definition failS :: "lxc_error \<Rightarrow> 'a lxc_op" where
  "failS e s = (Inl e, s)"

definition bindS :: "'a lxc_op \<Rightarrow> ('a \<Rightarrow> 'b lxc_op) \<Rightarrow> 'b lxc_op" where
  "bindS m k s = (case m s of (Inl e, s1) \<Rightarrow> (Inl e, s1) | (Inr x, s1) \<Rightarrow> k x s1)"

definition seqS :: "unit lxc_op \<Rightarrow> 'b lxc_op \<Rightarrow> 'b lxc_op" where
  "seqS m k = bindS m (\<lambda>_. k)"

text \<open>An operation whose error is looked at; one whose error is ignored.\<close>

definition attemptS :: "'a lxc_op \<Rightarrow> (lxc_error + 'a) lxc_op" where
  "attemptS m s = (case m s of (r, s1) \<Rightarrow> (Inr r, s1))"

definition ignoreS :: "'a lxc_op \<Rightarrow> unit lxc_op" where
  "ignoreS m = bindS (attemptS m) (\<lambda>_. returnS ())"

definition readS :: "(lxc \<Rightarrow> 'a) \<Rightarrow> 'a lxc_op" where
  "readS f s = (Inr (f s), s)"

definition modifyS :: "(lxc \<Rightarrow> lxc) \<Rightarrow> unit lxc_op" where
  "modifyS f s = (Inr (), f s)"

definition whenS :: "bool \<Rightarrow> unit lxc_op \<Rightarrow> unit lxc_op" where
  "whenS b m = (if b then m else returnS ())"

fun eachS :: "('x \<Rightarrow> unit lxc_op) \<Rightarrow> 'x list \<Rightarrow> unit lxc_op" where
  "eachS f [] = returnS ()"
| "eachS f (x # xs) = seqS (f x) (eachS f xs)"

definition sumS :: "('e \<Rightarrow> lxc_error) \<Rightarrow> 'e + 'a \<Rightarrow> 'a lxc_op" where
  "sumS f r = (case r of Inl e \<Rightarrow> failS (f e) | Inr x \<Rightarrow> returnS x)"

definition numS :: "int \<times> num_error option \<Rightarrow> int lxc_op" where
  "numS r = (case r of (v, None) \<Rightarrow> returnS v | (v, Some e) \<Rightarrow> failS (NumError e))"

definition checkS :: "config_error option \<Rightarrow> unit lxc_op" where
  "checkS r = (case r of None \<Rightarrow> returnS () | Some e \<Rightarrow> failS (Invalid e))"

definition relabelS :: "lxc_error \<Rightarrow> 'a lxc_op \<Rightarrow> 'a lxc_op" where
  "relabelS e m = bindS (attemptS m) (\<lambda>r. case r of Inl _ \<Rightarrow> failS e | Inr x \<Rightarrow> returnS x)"

text \<open>A call to the host, a statement on the database.\<close>

definition callS :: "lxc_env \<Rightarrow> call \<Rightarrow> string list lxc_op" where
  "callS env c s = (case e_reply env (l_calls s) c of None \<Rightarrow> Inl (CallFailed c) | Some r \<Rightarrow> Inr r,
     s\<lparr>l_calls := l_calls s @ [c]\<rparr>)"

definition doS :: "lxc_env \<Rightarrow> call \<Rightarrow> unit lxc_op" where
  "doS env c = bindS (callS env c) (\<lambda>_. returnS ())"

definition dbS :: "(lxd_db, 'a) dbop \<Rightarrow> 'a lxc_op" where
  "dbS m s = (case m (l_db s) of
     (Inl e, d) \<Rightarrow> (Inl (BadDb e), s\<lparr>l_db := d\<rparr>)
   | (Inr x, d) \<Rightarrow> (Inr x, s\<lparr>l_db := d\<rparr>))"

definition hostS :: "lxc_env \<Rightarrow> host_env lxc_op" where
  "hostS env = readS (\<lambda>s. e_host env (l_calls s))"

text \<open>A value of the expanded configuration.\<close>

definition confS :: "string \<Rightarrow> string lxc_op" where
  "confS k = readS (\<lambda>s. mget (l_xconfig s) k)"

section \<open>Guarantees\<close>

text \<open>
  \<open>guar R m\<close>: whatever \<open>m\<close> returns, the state after it is related to the one before.  A guarantee is a
  preorder on states, so it holds of a program when it holds of its parts.
\<close>

definition guar :: "(lxc \<Rightarrow> lxc \<Rightarrow> bool) \<Rightarrow> 'a lxc_op \<Rightarrow> bool" where
  "guar R m \<longleftrightarrow> (\<forall>s. R s (snd (m s)))"

named_theorems guar_intros \<open>rules for guarantees of programs\<close>

lemma guarD: "guar R m \<Longrightarrow> m s = (r, s') \<Longrightarrow> R s s'"
  unfolding guar_def by (metis snd_conv)

lemma guar_weaken: "guar R m \<Longrightarrow> (\<And>s t. R s t \<Longrightarrow> Q s t) \<Longrightarrow> guar Q m"
  by (simp add: guar_def)

lemma bindS_cases:
  assumes "bindS m k s = (r, s2)"
  obtains (first) e where "m s = (Inl e, s2)" "r = Inl e"
    | (both) x s1 where "m s = (Inr x, s1)" "k x s1 = (r, s2)"
proof -
  obtain q s1 where q: "m s = (q, s1)" by (cases "m s")
  show ?thesis
  proof (cases q)
    case (Inl e) then show ?thesis using assms q first by (simp add: bindS_def)
  next
    case (Inr x) then show ?thesis using assms q both by (simp add: bindS_def)
  qed
qed

locale guarantee =
  fixes R :: "lxc \<Rightarrow> lxc \<Rightarrow> bool"
  assumes stays: "R s s"
    and follows: "R s t \<Longrightarrow> R t u \<Longrightarrow> R s u"
begin

lemma guar_pure [guar_intros]:
  "guar R (returnS x)" "guar R (failS e)" "guar R (readS f)" "guar R (sumS w r)" "guar R (numS n)" "guar R (checkS c)"
  by (auto simp: guar_def returnS_def failS_def readS_def sumS_def numS_def checkS_def stays split: sum.split prod.split
      option.split)

lemma guar_bind [guar_intros]:
  assumes "guar R m" "\<And>x. guar R (k x)" shows "guar R (bindS m k)"
  unfolding guar_def
proof
  fix s
  obtain r s2 where run: "bindS m k s = (r, s2)" by (cases "bindS m k s")
  then have "R s s2"
  proof (cases rule: bindS_cases)
    case (first e) then show ?thesis using guarD [OF assms(1)] by blast
  next
    case (both x s1) then show ?thesis using guarD [OF assms(1)] guarD [OF assms(2)] follows by blast
  qed
  then show "R s (snd (bindS m k s))" using run by simp
qed

lemma guar_seq [guar_intros]: "guar R m \<Longrightarrow> guar R k \<Longrightarrow> guar R (seqS m k)"
  unfolding seqS_def by (rule guar_bind)

lemma guar_attempt [guar_intros]: "guar R m \<Longrightarrow> guar R (attemptS m)"
  by (simp add: guar_def attemptS_def split_beta)

lemma guar_ignore [guar_intros]: "guar R m \<Longrightarrow> guar R (ignoreS m)"
  unfolding ignoreS_def by (intro guar_bind guar_attempt guar_pure)

lemma guar_relabel [guar_intros]: "guar R m \<Longrightarrow> guar R (relabelS e m)"
  unfolding relabelS_def by (intro guar_bind guar_attempt) (simp_all add: guar_pure split: sum.split)

lemma guar_when [guar_intros]: "guar R m \<Longrightarrow> guar R (whenS b m)"
  by (simp add: whenS_def guar_pure)

lemma guar_if [guar_intros]: "(b \<Longrightarrow> guar R m) \<Longrightarrow> (\<not> b \<Longrightarrow> guar R k) \<Longrightarrow> guar R (if b then m else k)"
  by simp

lemma guar_each [guar_intros]: "(\<And>x. guar R (f x)) \<Longrightarrow> guar R (eachS f xs)"
  by (induction xs) (auto intro: guar_pure guar_seq)

lemma guar_host [guar_intros]: "guar R (hostS env)" "guar R (confS key)"
  by (simp_all add: hostS_def confS_def guar_pure)

end

text \<open>A guarantee under which the host may be called.\<close>

locale calling = guarantee +
  assumes calls_ok: "R s (s\<lparr>l_calls := l_calls s @ cs\<rparr>)"
begin

lemma guar_call [guar_intros]: "guar R (callS env c)" "guar R (doS env c)"
proof -
  show *: "guar R (callS env c)" by (simp add: guar_def callS_def calls_ok)
  show "guar R (doS env c)" unfolding doS_def by (intro guar_bind guar_pure *)
qed

end

section \<open>Keys, paths and predicates\<close>

text \<open>The names of the keys before version 2.1 of the library.\<close>

definition old_lxc_keys :: "(string, string) gomap" where
  "old_lxc_keys =
     [(''lxc.uts.name'', ''lxc.utsname''), (''lxc.pty.max'', ''lxc.pts''), (''lxc.tty.dir'', ''lxc.devttydir''),
      (''lxc.tty.max'', ''lxc.tty''), (''lxc.apparmor.profile'', ''lxc.aa_profile''),
      (''lxc.apparmor.allow_incomplete'', ''lxc.aa_allow_incomplete''), (''lxc.selinux.context'', ''lxc.se_context''),
      (''lxc.mount.fstab'', ''lxc.mount''), (''lxc.console.path'', ''lxc.console''),
      (''lxc.seccomp.profile'', ''lxc.seccomp''), (''lxc.signal.halt'', ''lxc.haltsignal''),
      (''lxc.signal.reboot'', ''lxc.rebootsignal''), (''lxc.signal.stop'', ''lxc.stopsignal''),
      (''lxc.log.syslog'', ''lxc.syslog''), (''lxc.log.level'', ''lxc.loglevel''), (''lxc.log.file'', ''lxc.logfile''),
      (''lxc.init.cmd'', ''lxc.init_cmd''), (''lxc.init.uid'', ''lxc.init_uid''), (''lxc.init.gid'', ''lxc.init_gid''),
      (''lxc.idmap'', ''lxc.id_map'')]"

definition lxc_key :: "bool \<Rightarrow> string \<Rightarrow> string" where
  "lxc_key lxc21 key = (if lxc21 then key else case map_of old_lxc_keys key of None \<Rightarrow> key | Some k \<Rightarrow> k)"

definition lxcSetConfigItem :: "lxc_env \<Rightarrow> string \<Rightarrow> string \<Rightarrow> unit lxc_op" where
  "lxcSetConfigItem env key value' =
     bindS (readS l_building) (\<lambda>cc. case cc of
       None \<Rightarrow> failS (Msg ''Uninitialized go-lxc struct'')
     | Some items \<Rightarrow>
         let k = lxc_key (e_lxc21 env) key in
         seqS (relabelS (Msg (''Failed to set LXC config: '' @ k @ ''='' @ value')) (doS env (SetConfigItem k value')))
           (modifyS (\<lambda>s. s\<lparr>l_building := Some (items @ [(k, value')])\<rparr>)))"

definition IsPrivileged :: "lxc \<Rightarrow> bool" where
  "IsPrivileged s \<longleftrightarrow> IsTrue (mget (l_xconfig s) ''security.privileged'')"

definition IsNesting :: "lxc \<Rightarrow> bool" where
  "IsNesting s \<longleftrightarrow> IsTrue (mget (l_xconfig s) ''security.nesting'')"

definition DevicesPath :: "lxc_env \<Rightarrow> string" where
  "DevicesPath env = VarPath (e_lxd_dir env) [''devices'', e_name env]"

definition LogFilePath :: "lxc_env \<Rightarrow> string" where
  "LogFilePath env = JoinPath [LogPath (e_lxd_dir env) [e_name env], ''lxc.log'']"

definition RootfsPath :: "lxc_env \<Rightarrow> string" where
  "RootfsPath env = JoinPath [containerPath (e_lxd_dir env) (e_name env) (e_snapshot env), ''rootfs'']"

definition mkApparmorName :: "lxc_env \<Rightarrow> string \<Rightarrow> string" where
  "mkApparmorName env name = (if length name + 7 \<ge> 253 then e_sha256 env name else name)"

definition AANamespace :: "lxc_env \<Rightarrow> string" where
  "AANamespace env =
     (let lxddir = ReplaceChar CHR ''/'' ''-'' (trim_chars ''/'' (VarPath (e_lxd_dir env) [[]]))
      in ''lxd-'' @ e_name env @ ''_<'' @ mkApparmorName env lxddir @ ''>'')"

definition AAProfileFull :: "lxc_env \<Rightarrow> string" where
  "AAProfileFull env = ''lxd-'' @ e_name env @ ''_<'' @ mkApparmorName env (VarPath (e_lxd_dir env) [[]]) @ ''>''"

definition SeccompProfilePath :: "lxc_env \<Rightarrow> string" where
  "SeccompProfilePath env = JoinPath [VarPath (e_lxd_dir env) [''security'', ''seccomp''], e_name env]"

end
