(* ===== verification/Lxc_Init.thy ===== *)
theory Lxc_Init
  imports Lxc_State
begin

text \<open>
  \<^verbatim>\<open>initLXC\<close> of \<^verbatim>\<open>lxd/container_lxc.go\<close>: the configuration of liblxc from the expanded configuration
  and devices of a container, in the sections of the source, each in its order of calls; the names and addresses of network
  devices it fills in and stores (\<^verbatim>\<open>fillNetworkDevice\<close>); the state of a container.
\<close>

section \<open>Names and addresses of network devices\<close>

definition splitn3 :: "char \<Rightarrow> string \<Rightarrow> string list" where
  "splitn3 c s = (case split2 c s of [a, b] \<Rightarrow> a # split2 c b | fs \<Rightarrow> fs)"

text \<open>The parts of a key \<^verbatim>\<open>volatile.<device>.<key>\<close>.\<close>

definition volatile_parts :: "string \<Rightarrow> (string \<times> string) option" where
  "volatile_parts k =
     (if \<not> HasPrefix k ''volatile.'' then None
      else case splitn3 CHR ''.'' k of [_, dev, field] \<Rightarrow> Some (dev, field) | _ \<Rightarrow> None)"

definition add_name :: "string list \<Rightarrow> string \<Rightarrow> string list" where
  "add_name names n = (if StringInSlice n names then names else names @ [n])"

definition static_names :: "lxc_env \<Rightarrow> Devices \<Rightarrow> string list" where
  "static_names env devs =
     foldl (\<lambda>names k. let n = mget (device_or_empty devs k) ''name'' in if n \<noteq> [] then add_name names n else names)
       [] (DeviceNames (e_sorter env) devs)"

definition allocated_names :: "strmap \<Rightarrow> string list \<Rightarrow> string list" where
  "allocated_names config names =
     foldl (\<lambda>names (k, v). case volatile_parts k of
         Some (dev, field) \<Rightarrow> if field = ''name'' then add_name names v else names
       | None \<Rightarrow> names) names config"

definition eth_name :: "nat \<Rightarrow> string" where
  "eth_name i = ''eth'' @ dec_of_nat i"

lemma eth_name_inj: "eth_name i = eth_name j \<Longrightarrow> i = j"
  unfolding eth_name_def
  by (metis append_eq_append_conv le_add1 le_add2 parse_digits_dec_of_nat prod.inject)

function free_eth :: "string list \<Rightarrow> nat \<Rightarrow> string" where
  "free_eth names i = (if StringInSlice (eth_name i) names then free_eth names (i + 1) else eth_name i)"
  by pat_completeness auto

termination free_eth
proof (relation "measure (\<lambda>(names, i). card {j. i \<le> j \<and> eth_name j \<in> set names})")
  fix names :: "string list" and i :: nat
  assume taken: "StringInSlice (eth_name i) names"
  let ?taken = "\<lambda>i. {j. i \<le> j \<and> eth_name j \<in> set names}"
  have fin: "finite (?taken i)"
    by (rule finite_subset [OF _ finite_vimageI [of "set names" eth_name]]) (auto intro: injI eth_name_inj)
  have "i \<in> ?taken i" using taken by (simp add: StringInSlice_set)
  moreover have "?taken (i + 1) \<subseteq> ?taken i - {i}" by auto
  ultimately have "card (?taken (i + 1)) < card (?taken i)"
    using fin by (meson Diff_subset card_Diff1_less card_mono finite_Diff le_less_trans)
  then show "((names, i + 1), (names, i)) \<in> measure (\<lambda>(names, i). card {j. i \<le> j \<and> eth_name j \<in> set names})" by simp
qed simp

declare free_eth.simps [simp del]

definition nextInterfaceName :: "lxc_env \<Rightarrow> string lxc_op" where
  "nextInterfaceName env =
     bindS (readS (\<lambda>s. allocated_names (l_xconfig s) (static_names env (l_xdevices s)))) (\<lambda>names.
     bindS (attemptS (callS env NewContainer)) (\<lambda>cc.
     bindS (case cc of Inl _ \<Rightarrow> returnS (Inr []) | Inr _ \<Rightarrow> attemptS (callS env LxcInterfaces)) (\<lambda>interfaces.
     returnS (free_eth (case interfaces of Inl _ \<Rightarrow> names | Inr ns \<Rightarrow> foldl add_name names ns) 0))))"

text \<open>
  One field that is kept in the configuration: the value found there, or a new one, which is stored in the database first.
  When the insertion fails, the value that another process has stored goes to the configuration, but the new one is
  returned, as in the source.
\<close>

definition set_volatile :: "string \<Rightarrow> string \<Rightarrow> lxc \<Rightarrow> lxc" where
  "set_volatile k v s = s\<lparr>l_config := AList.update k v (l_config s), l_xconfig := AList.update k v (l_xconfig s)\<rparr>"

definition updateKey :: "lxc_env \<Rightarrow> string \<Rightarrow> string \<Rightarrow> unit lxc_op" where
  "updateKey env key val = dbS (in_tx (ContainerConfigInsert (e_id env) [(key, val)]))"

definition fill_key :: "lxc_env \<Rightarrow> string \<Rightarrow> string lxc_op \<Rightarrow> string lxc_op" where
  "fill_key env key generate =
     bindS (readS (\<lambda>s. mget (l_config s) key)) (\<lambda>old.
     if old \<noteq> [] then returnS old
     else
       bindS generate (\<lambda>new.
       bindS (attemptS (updateKey env key new)) (\<lambda>r. case r of
         Inr _ \<Rightarrow> bindS (modifyS (set_volatile key new)) (\<lambda>_. returnS new)
       | Inl e \<Rightarrow>
           bindS (attemptS (dbS (ContainerConfigGet (e_id env) key))) (\<lambda>r1. case r1 of
             Inl _ \<Rightarrow> failS e
           | Inr val \<Rightarrow>
               if val = [] then failS e
               else bindS (modifyS (set_volatile key val)) (\<lambda>_. returnS new)))))"

definition nextHwaddr :: "lxc_env \<Rightarrow> string lxc_op" where
  "nextHwaddr env = bindS (callS env RandomHwaddr) (\<lambda>r. returnS (concat r))"

definition fillNetworkDevice :: "lxc_env \<Rightarrow> string \<Rightarrow> Device \<Rightarrow> Device lxc_op" where
  "fillNetworkDevice env name m =
     bindS (if mget m ''nictype'' \<noteq> ''physical'' \<and> mget m ''hwaddr'' = [] then
         bindS (fill_key env (''volatile.'' @ name @ ''.hwaddr'') (nextHwaddr env)) (\<lambda>v.
         returnS (AList.update ''hwaddr'' v m))
       else returnS m) (\<lambda>m1.
     bindS (if mget m ''name'' = [] then
         bindS (fill_key env (''volatile.'' @ name @ ''.name'') (nextInterfaceName env)) (\<lambda>v.
         returnS (AList.update ''name'' v m1))
       else returnS m1) (\<lambda>m2.
     if mget m ''host_name'' = [] \<and> StringInSlice (mget m ''nictype'') [''bridged'', ''p2p''] then
       bindS (readS (\<lambda>s. mget (l_config s) (''volatile.'' @ name @ ''.host_name''))) (\<lambda>v.
       returnS (AList.update ''host_name'' v m2))
     else returnS m2))"

section \<open>Id maps\<close>

definition idmap_from_json :: "lxc_env \<Rightarrow> string \<Rightarrow> (IdmapSet option) lxc_op" where
  "idmap_from_json env text' = (case e_unmarshal env text' of
     None \<Rightarrow> failS (Msg ''invalid idmap'')
   | Some m \<Rightarrow> returnS (if m = [] then None else Some m))"

definition NextIdmapSet :: "lxc_env \<Rightarrow> (IdmapSet option) lxc_op" where
  "NextIdmapSet env =
     bindS (readS id) (\<lambda>s.
     if mget (l_config s) ''volatile.idmap.next'' \<noteq> [] then idmap_from_json env (mget (l_config s) ''volatile.idmap.next'')
     else if IsPrivileged s then returnS None
     else case e_os_idmap env of
         Some m \<Rightarrow> returnS (Some m)
       | None \<Rightarrow> failS (Msg ''Unable to determine the idmap''))"

definition IdmapSet_of :: "lxc_env \<Rightarrow> (IdmapSet option) lxc_op" where
  "IdmapSet_of env =
     bindS (readS id) (\<lambda>s.
     if l_idmapset s \<noteq> None then returnS (l_idmapset s)
     else if IsPrivileged s then returnS None
     else
       bindS (NextIdmapSet env) (\<lambda>m.
       bindS (modifyS (\<lambda>s. s\<lparr>l_idmapset := m\<rparr>)) (\<lambda>_. returnS m)))"

definition LastIdmapSet :: "lxc_env \<Rightarrow> (IdmapSet option) lxc_op" where
  "LastIdmapSet env =
     bindS (readS (\<lambda>s. mget (l_config s) ''volatile.last_state.idmap'')) (\<lambda>last_map.
     if last_map = [] then IdmapSet_of env else idmap_from_json env last_map)"

section \<open>The sections of initLXC\<close>

text \<open>Capabilities, file systems and bind mounts.\<close>

definition bind_mounts :: "string list" where
  "bind_mounts =
     [''/dev/fuse'', ''/dev/net/tun'', ''/proc/sys/fs/binfmt_misc'', ''/sys/firmware/efi/efivars'', ''/sys/fs/fuse/connections'',
      ''/sys/fs/pstore'', ''/sys/kernel/debug'', ''/sys/kernel/security'']"

definition init_bind_mount :: "lxc_env \<Rightarrow> string \<Rightarrow> unit lxc_op" where
  "init_bind_mount env mnt =
     bindS (hostS env) (\<lambda>h.
     whenS (h_exists h mnt)
       (if h_isdir h mnt
        then lxcSetConfigItem env ''lxc.mount.entry'' (mnt @ '' '' @ TrimPrefix mnt ''/'' @ '' none rbind,create=dir,optional'')
        else lxcSetConfigItem env ''lxc.mount.entry'' (mnt @ '' '' @ TrimPrefix mnt ''/'' @ '' none bind,create=file,optional'')))"

definition init_base :: "lxc_env \<Rightarrow> unit lxc_op" where
  "init_base env =
     seqS (lxcSetConfigItem env ''lxc.cap.drop'' (''sys_time sys_module sys_rawio''
       @ (if \<not> aaStacking env \<or> aaStacked env then '' mac_admin mac_override'' else [])))
     (bindS (readS IsPrivileged) (\<lambda>priv.
     bindS (hostS env) (\<lambda>h.
     seqS (lxcSetConfigItem env ''lxc.mount.auto'' (join_with '' ''
       ((if priv \<and> \<not> e_userns env then [''proc:mixed'', ''sys:mixed''] else [''proc:rw'', ''sys:rw''])
        @ (if \<not> h_exists h ''/proc/self/ns/cgroup'' then [''cgroup:mixed''] else []))))
     (seqS (lxcSetConfigItem env ''lxc.autodev'' ''1'')
     (seqS (lxcSetConfigItem env ''lxc.pty.max'' ''1024'')
     (seqS (whenS (priv \<and> \<not> e_userns env)
       (lxcSetConfigItem env ''lxc.mount.entry'' ''mqueue dev/mqueue mqueue rw,relatime,create=dir,optional''))
     (eachS (init_bind_mount env) (bind_mounts @ (if priv \<and> \<not> e_userns env then [] else [''/dev/mqueue'']))))))))) "

definition init_lxcfs :: "lxc_env \<Rightarrow> unit lxc_op" where
  "init_lxcfs env =
     (let dir = (if e_template env = [] then ''/usr/share/lxc/config'' else e_template env) @ ''/common.conf.d/'' in
      bindS (hostS env) (\<lambda>h. whenS (h_exists h dir) (lxcSetConfigItem env ''lxc.include'' dir)))"

definition allowed_devices :: "string list" where
  "allowed_devices =
     [''b *:* m'', ''c *:* m'', ''c 136:* rwm'', ''c 1:3 rwm'', ''c 1:5 rwm'', ''c 1:7 rwm'', ''c 1:8 rwm'', ''c 1:9 rwm'',
      ''c 5:0 rwm'', ''c 5:1 rwm'', ''c 5:2 rwm'', ''c 10:229 rwm'', ''c 10:200 rwm'']"

definition init_devices_cgroup :: "lxc_env \<Rightarrow> unit lxc_op" where
  "init_devices_cgroup env =
     bindS (readS IsPrivileged) (\<lambda>priv.
     whenS (priv \<and> \<not> e_userns env \<and> cgDevices env)
       (seqS (lxcSetConfigItem env ''lxc.cgroup.devices.deny'' ''a'')
         (eachS (lxcSetConfigItem env ''lxc.cgroup.devices.allow'') allowed_devices)))"

definition init_nesting :: "lxc_env \<Rightarrow> unit lxc_op" where
  "init_nesting env =
     bindS (readS IsNesting) (\<lambda>nesting.
     whenS nesting
       (seqS (lxcSetConfigItem env ''lxc.mount.entry'' ''proc dev/.lxc/proc proc create=dir,optional'')
         (lxcSetConfigItem env ''lxc.mount.entry'' ''sys dev/.lxc/sys sysfs create=dir,optional'')))"

definition init_logging :: "lxc_env \<Rightarrow> unit lxc_op" where
  "init_logging env =
     seqS (doS env (SetLogFile (LogFilePath env)))
       (lxcSetConfigItem env ''lxc.log.level''
         (if e_debug env then ''trace'' else if e_verbose env then ''info'' else ''warn''))"

definition arch_personality :: "int \<Rightarrow> string option" where
  "arch_personality a = (if a < 0 then None else ArchitecturePersonality (nat a))"

definition init_architecture :: "lxc_env \<Rightarrow> unit lxc_op" where
  "init_architecture env =
     bindS (readS l_architecture) (\<lambda>a.
     bindS (case arch_personality a of
         Some p \<Rightarrow> returnS p
       | None \<Rightarrow> (case e_architectures env of
           [] \<Rightarrow> failS GoPanic
         | b # _ \<Rightarrow> (case arch_personality b of
             Some p \<Rightarrow> returnS p
           | None \<Rightarrow> failS (Msg ''Unsupported architecture'')))) (\<lambda>personality.
     lxcSetConfigItem env ''lxc.arch'' personality))"

definition hook_line :: "lxc_env \<Rightarrow> string \<Rightarrow> string" where
  "hook_line env what =
     e_execPath env @ '' callhook '' @ VarPath (e_lxd_dir env) [[]] @ '' '' @ dec_of_int (e_id env) @ '' '' @ what"

definition init_hooks :: "lxc_env \<Rightarrow> unit lxc_op" where
  "init_hooks env =
     seqS (lxcSetConfigItem env ''lxc.hook.pre-start'' (hook_line env ''start''))
     (seqS (lxcSetConfigItem env ''lxc.hook.post-stop'' (hook_line env ''stop''))
     (seqS (lxcSetConfigItem env ''lxc.tty.max'' ''0'')
     (seqS (lxcSetConfigItem env ''lxc.uts.name'' (e_name env))
     (lxcSetConfigItem env ''lxc.mount.entry'' (VarPath (e_lxd_dir env) [''devlxd''] @ '' dev/lxd none bind,create=dir 0 0'')))))"

definition init_security :: "lxc_env \<Rightarrow> unit lxc_op" where
  "init_security env =
     seqS (whenS (aaAvailable env)
       (if aaConfined env \<or> \<not> aaAdmin env
        then lxcSetConfigItem env ''lxc.apparmor.profile'' (TrimSuffix (e_aaProfile env) '' (enforce)'')
        else lxcSetConfigItem env ''lxc.apparmor.profile''
          (if aaStacking env \<and> \<not> aaStacked env then AAProfileFull env @ ''//&:'' @ AANamespace env @ '':''
           else AAProfileFull env)))
     (lxcSetConfigItem env ''lxc.seccomp.profile'' (SeccompProfilePath env))"

definition init_idmap :: "lxc_env \<Rightarrow> unit lxc_op" where
  "init_idmap env =
     bindS (IdmapSet_of env) (\<lambda>m. case m of
       None \<Rightarrow> returnS ()
     | Some es \<Rightarrow> eachS (\<lambda>line. lxcSetConfigItem env ''lxc.idmap'' (TrimSuffix line [char_of (10 :: nat)])) (set_ToLxcString es))"

definition init_environment :: "lxc_env \<Rightarrow> unit lxc_op" where
  "init_environment env =
     bindS (readS l_xconfig) (\<lambda>config.
     eachS (\<lambda>(k, v). whenS (HasPrefix k ''environment.'')
       (lxcSetConfigItem env ''lxc.environment'' (TrimPrefix k ''environment.'' @ ''='' @ v))) config)"

text \<open>Limits.  \<open>memory_bytes\<close> reads a limit of the memory in bytes or as a share of the memory of the host.\<close>

definition memory_bytes :: "lxc_env \<Rightarrow> string \<Rightarrow> int lxc_op" where
  "memory_bytes env memory =
     (if HasSuffix memory ''%'' then
        bindS (numS (ParseInt (TrimSuffix memory ''%'') 10 64)) (\<lambda>percent.
        bindS (hostS env) (\<lambda>h.
        bindS (sumS HostError (deviceTotalMemory h)) (\<lambda>memoryTotal.
        returnS (i64 ((memoryTotal sdiv 100) * percent)))))
      else sumS SizeError (ParseByteSizeString memory))"

definition init_memory_limit :: "lxc_env \<Rightarrow> unit lxc_op" where
  "init_memory_limit env =
     bindS (confS ''limits.memory'') (\<lambda>memory.
     bindS (confS ''limits.memory.enforce'') (\<lambda>memoryEnforce.
     bindS (confS ''limits.memory.swap'') (\<lambda>memorySwap.
     whenS (memory \<noteq> [])
       (bindS (memory_bytes env memory) (\<lambda>valueInt.
        if memoryEnforce = ''soft''
        then lxcSetConfigItem env ''lxc.cgroup.memory.soft_limit_in_bytes'' (dec_of_int valueInt)
        else
          seqS (lxcSetConfigItem env ''lxc.cgroup.memory.limit_in_bytes'' (dec_of_int valueInt))
          (seqS (whenS (cgSwap env \<and> (memorySwap = [] \<or> IsTrue memorySwap))
            (lxcSetConfigItem env ''lxc.cgroup.memory.memsw.limit_in_bytes'' (dec_of_int valueInt)))
          (lxcSetConfigItem env ''lxc.cgroup.memory.soft_limit_in_bytes'' (e_ninety env valueInt))))))))"

definition init_swappiness :: "lxc_env \<Rightarrow> unit lxc_op" where
  "init_swappiness env =
     bindS (confS ''limits.memory.swap'') (\<lambda>memorySwap.
     bindS (confS ''limits.memory.swap.priority'') (\<lambda>memorySwapPriority.
     if memorySwap \<noteq> [] \<and> \<not> IsTrue memorySwap then lxcSetConfigItem env ''lxc.cgroup.memory.swappiness'' ''0''
     else whenS (memorySwapPriority \<noteq> [])
       (bindS (numS (Atoi memorySwapPriority)) (\<lambda>priority.
        lxcSetConfigItem env ''lxc.cgroup.memory.swappiness'' (dec_of_int (i64 (50 + priority)))))))"

definition init_cpu :: "lxc_env \<Rightarrow> unit lxc_op" where
  "init_cpu env =
     bindS (confS ''limits.cpu.priority'') (\<lambda>cpuPriority.
     bindS (confS ''limits.cpu.allowance'') (\<lambda>cpuAllowance.
     whenS ((cpuPriority \<noteq> [] \<or> cpuAllowance \<noteq> []) \<and> cgCpu env)
       (bindS (sumS HostError (deviceParseCPU cpuAllowance cpuPriority)) (\<lambda>(cpuShares, cpuCfsQuota, cpuCfsPeriod).
        seqS (whenS (cpuShares \<noteq> ''1024'') (lxcSetConfigItem env ''lxc.cgroup.cpu.shares'' cpuShares))
        (seqS (whenS (cpuCfsPeriod \<noteq> ''-1'') (lxcSetConfigItem env ''lxc.cgroup.cpu.cfs_period_us'' cpuCfsPeriod))
        (whenS (cpuCfsQuota \<noteq> ''-1'') (lxcSetConfigItem env ''lxc.cgroup.cpu.cfs_quota_us'' cpuCfsQuota)))))))"

text \<open>Disk priority; 10 is the smallest weight.\<close>

definition blkio_weight :: "int \<Rightarrow> int" where
  "blkio_weight priorityInt = (let priority = i64 (priorityInt * 100) in if priority = 0 then 10 else priority)"

text \<open>
  \<^verbatim>\<open>getDiskLimits\<close> on the object.  It writes \<^verbatim>\<open>limits.read\<close> and \<^verbatim>\<open>limits.write\<close> into the
  expanded devices, and so into the local devices that are the same maps.
\<close>

definition share_devices :: "Devices \<Rightarrow> Devices \<Rightarrow> Devices" where
  "share_devices expanded = map (\<lambda>(k, m). (k, case map_of expanded k of None \<Rightarrow> m | Some m' \<Rightarrow> m'))"

definition diskLimitsS :: "lxc_env \<Rightarrow> ((string, deviceBlockLimit) gomap) lxc_op" where
  "diskLimitsS env s =
     (case getDiskLimits (e_sorter env) (e_fuel env) (e_host env (l_calls s)) (e_hostpath env) (RootfsPath env) (l_xdevices s) of
        None \<Rightarrow> (Inl OutOfFuel, s)
      | Some (devs, r) \<Rightarrow>
          (case r of Inl e \<Rightarrow> Inl (HostError e) | Inr limits \<Rightarrow> Inr limits,
           s\<lparr>l_xdevices := devs, l_devices := if l_shared s then share_devices devs (l_devices s) else l_devices s\<rparr>))"

definition has_disk_limits :: "lxc_env \<Rightarrow> Devices \<Rightarrow> bool" where
  "has_disk_limits env devs =
     list_ex (\<lambda>name. let m = device_or_empty devs name in
       mget m ''type'' = ''disk'' \<and> (mget m ''limits.read'' \<noteq> [] \<or> mget m ''limits.write'' \<noteq> [] \<or> mget m ''limits.max'' \<noteq> []))
     (DeviceNames (e_sorter env) devs)"

definition init_throttle :: "lxc_env \<Rightarrow> string \<Rightarrow> string \<Rightarrow> int \<Rightarrow> unit lxc_op" where
  "init_throttle env what block v =
     whenS (0 < v) (lxcSetConfigItem env (''lxc.cgroup.blkio.throttle.'' @ what) (block @ '' '' @ dec_of_int v))"

definition init_disk :: "lxc_env \<Rightarrow> unit lxc_op" where
  "init_disk env =
     whenS (cgBlkio env)
       (bindS (confS ''limits.disk.priority'') (\<lambda>diskPriority.
        seqS (whenS (diskPriority \<noteq> [])
          (bindS (numS (Atoi diskPriority)) (\<lambda>priorityInt.
           lxcSetConfigItem env ''lxc.cgroup.blkio.weight'' (dec_of_int (blkio_weight priorityInt)))))
        (bindS (readS (\<lambda>s. has_disk_limits env (l_xdevices s))) (\<lambda>hasDiskLimits.
         whenS hasDiskLimits
           (bindS (diskLimitsS env) (\<lambda>diskLimits.
            eachS (\<lambda>(block, limit).
              seqS (init_throttle env ''read_bps_device'' block (readBps limit))
              (seqS (init_throttle env ''read_iops_device'' block (readIops limit))
              (seqS (init_throttle env ''write_bps_device'' block (writeBps limit))
              (init_throttle env ''write_iops_device'' block (writeIops limit))))) diskLimits))))))"

definition init_processes :: "lxc_env \<Rightarrow> unit lxc_op" where
  "init_processes env =
     whenS (cgPids env)
       (bindS (confS ''limits.processes'') (\<lambda>processes.
        whenS (processes \<noteq> [])
          (bindS (numS (ParseInt processes 10 64)) (\<lambda>valueInt.
           lxcSetConfigItem env ''lxc.cgroup.pids.max'' (dec_of_int valueInt)))))"

text \<open>Devices.\<close>

definition dev_path :: "lxc_env \<Rightarrow> string \<Rightarrow> string \<Rightarrow> string" where
  "dev_path env kind tgtPath = JoinPath [DevicesPath env, kind @ ReplaceChar CHR ''/'' ''-'' tgtPath]"

definition init_unix_device :: "lxc_env \<Rightarrow> Device \<Rightarrow> unit lxc_op" where
  "init_unix_device env m =
     (let tgtPath = TrimPrefix (mget m ''path'') ''/'' in
      lxcSetConfigItem env ''lxc.mount.entry'' (dev_path env ''unix.'' tgtPath @ '' '' @ tgtPath @ '' none bind,create=file''))"

definition network_key :: "lxc_env \<Rightarrow> int \<Rightarrow> string \<Rightarrow> string" where
  "network_key env idx field =
     (if e_lxc21 env then ''lxc.net'' else ''lxc.network'') @ ''.'' @ dec_of_int idx @ ''.'' @ field"

definition init_nic :: "lxc_env \<Rightarrow> string \<Rightarrow> Device \<Rightarrow> int \<Rightarrow> unit lxc_op" where
  "init_nic env k m0 idx =
     bindS (fillNetworkDevice env k m0) (\<lambda>m.
     let put = (\<lambda>field. lxcSetConfigItem env (network_key env idx field));
         given = (\<lambda>field key. whenS (mget m key \<noteq> []) (put field (mget m key))) in
     seqS (if StringInSlice (mget m ''nictype'') [''bridged'', ''p2p''] then put ''type'' ''veth''
           else if mget m ''nictype'' = ''physical'' then put ''type'' ''phys''
           else whenS (mget m ''nictype'' = ''macvlan'') (seqS (put ''type'' ''macvlan'') (put ''macvlan.mode'' ''bridge'')))
     (seqS (put ''flags'' ''up'')
     (seqS (whenS (StringInSlice (mget m ''nictype'') [''bridged'', ''physical'', ''macvlan'']) (put ''link'' (mget m ''parent'')))
     (seqS (given ''veth.pair'' ''host_name'')
     (seqS (given ''hwaddr'' ''hwaddr'')
     (seqS (given ''mtu'' ''mtu'') (given ''name'' ''name'')))))))"

text \<open>The item \<^verbatim>\<open>lxc.rootfs.backend\<close> is reset when the library does not take it; errors are ignored.\<close>

definition init_rootfs :: "lxc_env \<Rightarrow> Device \<Rightarrow> unit lxc_op" where
  "init_rootfs env m =
     seqS (whenS (\<not> e_lxc21 env)
       (bindS (attemptS (lxcSetConfigItem env ''lxc.rootfs.backend'' ''dir'')) (\<lambda>r. case r of
          Inl _ \<Rightarrow> returnS ()
        | Inr _ \<Rightarrow>
            bindS (attemptS (callS env (GetConfigItem ''lxc.rootfs.backend''))) (\<lambda>answer.
            let items = (case answer of Inl _ \<Rightarrow> [] | Inr vs \<Rightarrow> vs) in
            whenS (items = [] \<or> hd items \<noteq> ''dir'') (ignoreS (lxcSetConfigItem env ''lxc.rootfs.backend'' []))))))
     (seqS (if e_lxc21 env then lxcSetConfigItem env ''lxc.rootfs.path'' (''dir:'' @ RootfsPath env)
            else lxcSetConfigItem env ''lxc.rootfs'' (RootfsPath env))
     (whenS (IsTrue (mget m ''readonly'')) (lxcSetConfigItem env ''lxc.rootfs.options'' ''ro'')))"

definition mount_options :: "bool \<Rightarrow> Device \<Rightarrow> string" where
  "mount_options isFile m =
     join_with '','' ((if IsTrue (mget m ''readonly'') then [''ro''] else [])
       @ (if IsTrue (mget m ''optional'') then [''optional''] else [])
       @ [if isFile then ''create=file'' else ''create=dir''])"

definition init_disk_device :: "lxc_env \<Rightarrow> Device \<Rightarrow> unit lxc_op" where
  "init_disk_device env m =
     bindS (hostS env) (\<lambda>h.
     let srcPath = e_hostpath env (mget m ''source'');
         tgtPath = TrimPrefix (mget m ''path'') ''/'';
         isFile = (\<not> h_isdir h srcPath \<and> \<not> deviceIsBlockdev h srcPath) in
     if tgtPath = [] then init_rootfs env m
     else lxcSetConfigItem env ''lxc.mount.entry''
       (dev_path env ''disk.'' tgtPath @ '' '' @ tgtPath @ '' none '' @ (if IsTrue (mget m ''recursive'') then ''r'' else [])
        @ ''bind,'' @ mount_options isFile m))"

fun init_devices :: "lxc_env \<Rightarrow> string list \<Rightarrow> int \<Rightarrow> unit lxc_op" where
  "init_devices env [] networkidx = returnS ()"
| "init_devices env (k # ks) networkidx =
     bindS (readS (\<lambda>s. device_or_empty (l_xdevices s) k)) (\<lambda>m.
     if StringInSlice (mget m ''type'') [''unix-char'', ''unix-block''] then
       seqS (init_unix_device env m) (init_devices env ks networkidx)
     else if mget m ''type'' = ''nic'' then
       seqS (init_nic env k m networkidx) (init_devices env ks (networkidx + 1))
     else if mget m ''type'' = ''disk'' then
       seqS (init_disk_device env m) (init_devices env ks networkidx)
     else init_devices env ks networkidx)"

text \<open>The last section; the configuration of the user goes through a temporary file.\<close>

definition init_raw_lxc :: "lxc_env \<Rightarrow> unit lxc_op" where
  "init_raw_lxc env =
     seqS (lxcSetConfigItem env ''lxc.mount.entry''
       (VarPath (e_lxd_dir env) [''shmounts'', e_name env] @ '' dev/.lxd-mounts none bind,create=dir 0 0''))
     (bindS (readS (\<lambda>s. map_of (l_xconfig s) ''raw.lxc'')) (\<lambda>raw. case raw of
        None \<Rightarrow> returnS ()
      | Some lxcConfig \<Rightarrow> relabelS (Msg ''Failed to load raw.lxc'') (doS env (LoadConfigFile lxcConfig))))"

definition init_sections :: "lxc_env \<Rightarrow> unit lxc_op" where
  "init_sections env =
     seqS (init_base env)
     (seqS (init_lxcfs env)
     (seqS (init_devices_cgroup env)
     (seqS (init_nesting env)
     (seqS (init_logging env)
     (seqS (init_architecture env)
     (seqS (init_hooks env)
     (seqS (init_security env)
     (seqS (init_idmap env)
     (seqS (init_environment env)
     (seqS (whenS (cgMemory env) (seqS (init_memory_limit env) (init_swappiness env)))
     (seqS (init_cpu env)
     (seqS (init_disk env)
     (seqS (init_processes env)
     (seqS (bindS (readS (\<lambda>s. DeviceNames (e_sorter env) (l_xdevices s))) (\<lambda>names. init_devices env names 0))
     (init_raw_lxc env)))))))))))))))"

definition init_build :: "lxc_env \<Rightarrow> unit lxc_op" where
  "init_build env =
     seqS (doS env NewContainer)
     (seqS (modifyS (\<lambda>s. s\<lparr>l_building := Some []\<rparr>))
     (seqS (init_sections env)
     (modifyS (\<lambda>s. s\<lparr>l_cc := l_building s\<rparr>))))"

definition initLXC :: "lxc_env \<Rightarrow> unit lxc_op" where
  "initLXC env =
     (if e_snapshot env then returnS ()
      else if e_fromHook env then failS (Msg ''Called from a hook'')
      else bindS (readS l_cc) (\<lambda>cc. if cc \<noteq> None then returnS () else init_build env))"

section \<open>The state of the container\<close>

definition State_of :: "lxc_env \<Rightarrow> string lxc_op" where
  "State_of env =
     bindS (attemptS (initLXC env)) (\<lambda>r. case r of
       Inl _ \<Rightarrow> returnS ''Broken''
     | Inr _ \<Rightarrow>
         if e_snapshot env then returnS ''STOPPED''
         else bindS (attemptS (callS env LxcMonitorState)) (\<lambda>st. case st of
             Inl _ \<Rightarrow> returnS ''Error''
           | Inr words \<Rightarrow> returnS (concat words)))"

definition IsRunning :: "lxc_env \<Rightarrow> bool lxc_op" where
  "IsRunning env = bindS (State_of env) (\<lambda>st. returnS (st \<noteq> ''BROKEN'' \<and> st \<noteq> ''STOPPED''))"

definition InitPID :: "lxc_env \<Rightarrow> int lxc_op" where
  "InitPID env =
     bindS (attemptS (initLXC env)) (\<lambda>r. case r of
       Inl _ \<Rightarrow> returnS (-1)
     | Inr _ \<Rightarrow> bindS (attemptS (callS env LxcInitPid)) (\<lambda>pid. case pid of
         Inl _ \<Rightarrow> returnS (-1)
       | Inr words \<Rightarrow> returnS (fst (Atoi (concat words)))))"

definition CGroupGet :: "lxc_env \<Rightarrow> string \<Rightarrow> string lxc_op" where
  "CGroupGet env key =
     seqS (initLXC env)
     (bindS (IsRunning env) (\<lambda>running.
      if \<not> running then failS (Msg ''Cannot get cgroups on a stopped container'')
      else bindS (attemptS (callS env (CgroupItem key))) (\<lambda>r.
        returnS (case r of Inl _ \<Rightarrow> [] | Inr lines \<Rightarrow> join_with [char_of (10 :: nat)] lines))))"

definition CGroupSet :: "lxc_env \<Rightarrow> string \<Rightarrow> string \<Rightarrow> unit lxc_op" where
  "CGroupSet env key val =
     seqS (initLXC env)
     (bindS (IsRunning env) (\<lambda>running.
      if \<not> running then failS (Msg ''Cannot set cgroups on a stopped container'')
      else doS env (SetCgroupItem key val)))"

section \<open>The calls and writes of initLXC\<close>

text \<open>
  What \<^verbatim>\<open>initLXC\<close> needs of a guarantee: its parts that change the state or call the host.  None of its calls acts
  on a running container.
\<close>

locale preparing = guarantee R for R :: "lxc \<Rightarrow> lxc \<Rightarrow> bool" +
  fixes env :: lxc_env
  assumes asks: "\<not> live_call c \<Longrightarrow> guar R (callS env c)"
    and building: "guar R (modifyS (\<lambda>s. s\<lparr>l_building := Some items\<rparr>))"
    and handing: "guar R (modifyS (\<lambda>s. s\<lparr>l_cc := l_building s\<rparr>))"
    and caching: "guar R (modifyS (\<lambda>s. s\<lparr>l_idmapset := m\<rparr>))"
    and fills: "guar R (fillNetworkDevice env name dev)"
    and disks: "guar R (diskLimitsS env)"
begin

lemma guar_do: "\<not> live_call c \<Longrightarrow> guar R (doS env c)"
  unfolding doS_def by (intro guar_bind guar_pure asks)

lemma guar_item [guar_intros]: "guar R (lxcSetConfigItem env k v)"
  unfolding lxcSetConfigItem_def Let_def by (auto intro!: guar_intros guar_do building split: option.split)

lemma guar_idmap [guar_intros]: "guar R (NextIdmapSet env)" "guar R (IdmapSet_of env)"
proof -
  show *: "guar R (NextIdmapSet env)"
    unfolding NextIdmapSet_def idmap_from_json_def by (auto intro!: guar_intros split: option.split)
  show "guar R (IdmapSet_of env)" unfolding IdmapSet_of_def by (intro guar_intros * caching)
qed

lemma guar_sections [guar_intros]:
  "guar R (init_base env)" "guar R (init_lxcfs env)" "guar R (init_devices_cgroup env)" "guar R (init_nesting env)"
  "guar R (init_hooks env)" "guar R (init_security env)" "guar R (init_processes env)" "guar R (init_swappiness env)"
  unfolding init_base_def init_bind_mount_def init_lxcfs_def init_devices_cgroup_def init_nesting_def
    init_hooks_def init_security_def init_processes_def init_swappiness_def Let_def
  by (intro guar_intros)+

lemma guar_logging [guar_intros]: "guar R (init_logging env)"
  unfolding init_logging_def by (intro guar_intros guar_do) simp

lemma guar_architecture [guar_intros]: "guar R (init_architecture env)"
  unfolding init_architecture_def by (auto intro!: guar_intros split: option.split list.split)

lemma guar_init_idmap [guar_intros]: "guar R (init_idmap env)"
  unfolding init_idmap_def by (auto intro!: guar_intros split: option.split)

lemma guar_environment [guar_intros]: "guar R (init_environment env)"
  unfolding init_environment_def by (auto intro!: guar_intros split: prod.split)

lemma guar_memory [guar_intros]: "guar R (memory_bytes env m)" "guar R (init_memory_limit env)"
proof -
  show *: "guar R (memory_bytes env m)" for m unfolding memory_bytes_def by (intro guar_intros)
  show "guar R (init_memory_limit env)" unfolding init_memory_limit_def by (intro guar_intros *)
qed

lemma guar_cpu [guar_intros]: "guar R (init_cpu env)"
  unfolding init_cpu_def by (auto intro!: guar_intros split: prod.split)

lemma guar_init_disk [guar_intros]: "guar R (init_disk env)"
  unfolding init_disk_def init_throttle_def by (auto intro!: guar_intros disks split: prod.split)

lemma guar_rootfs [guar_intros]: "guar R (init_rootfs env m)"
  unfolding init_rootfs_def Let_def by (auto intro!: guar_intros asks split: sum.split)

lemma guar_init_device [guar_intros]:
  "guar R (init_unix_device env m)" "guar R (init_disk_device env m)" "guar R (init_nic env k m idx)"
  unfolding init_unix_device_def init_disk_device_def init_nic_def Let_def by (intro guar_intros fills)+

lemma guar_devices [guar_intros]: "guar R (init_devices env ks idx)"
  by (induction ks arbitrary: idx) (auto intro!: guar_intros)

lemma guar_raw [guar_intros]: "guar R (init_raw_lxc env)"
  unfolding init_raw_lxc_def by (auto intro!: guar_intros guar_do split: option.split)

lemma guar_init_sections [guar_intros]: "guar R (init_sections env)"
  unfolding init_sections_def by (intro guar_intros)

lemma guar_initLXC [guar_intros]: "guar R (initLXC env)"
  unfolding initLXC_def init_build_def by (intro guar_intros guar_do building handing) simp

lemma guar_state [guar_intros]: "guar R (State_of env)" "guar R (IsRunning env)" "guar R (InitPID env)"
proof -
  show *: "guar R (State_of env)" unfolding State_of_def by (auto intro!: guar_intros asks split: sum.split)
  show "guar R (IsRunning env)" unfolding IsRunning_def by (intro guar_intros *)
  show "guar R (InitPID env)" unfolding InitPID_def by (auto intro!: guar_intros asks split: sum.split)
qed

end

section \<open>What initLXC changes\<close>

text \<open>
  \<open>settles env s s'\<close>: between the two states the object was only made usable.  The database has got new rows
  \<^verbatim>\<open>volatile.<device>.hwaddr\<close> and \<^verbatim>\<open>volatile.<device>.name\<close> of this container; the configuration
  has got values for such keys that had none; disk devices with \<^verbatim>\<open>limits.max\<close> have got the two other limits.
\<close>

definition nic_key :: "string \<Rightarrow> bool" where
  "nic_key k \<longleftrightarrow> HasPrefix k ''volatile.'' \<and> (HasSuffix k ''.hwaddr'' \<or> HasSuffix k ''.name'')"

definition filled :: "strmap \<Rightarrow> strmap \<Rightarrow> bool" where
  "filled c c' \<longleftrightarrow> (\<forall>k. map_of c' k = map_of c k \<or> nic_key k \<and> mget c k = [])"

definition nic_changes :: "strmap \<Rightarrow> strmap \<Rightarrow> bool" where
  "nic_changes c c' \<longleftrightarrow> (\<forall>k. map_of c' k = map_of c k \<or> nic_key k)"

definition maxed :: "Devices \<Rightarrow> Devices \<Rightarrow> bool" where
  "maxed d d' \<longleftrightarrow> (\<forall>k. map_of d' k = map_of d k
     \<or> (\<exists>m. map_of d k = Some m \<and> mget m ''type'' = ''disk'' \<and> map_of d' k = Some (apply_max m)))"

definition nic_rows :: "int \<Rightarrow> lxd_db \<Rightarrow> lxd_db \<Rightarrow> bool" where
  "nic_rows i d d' \<longleftrightarrow> (\<exists>new. d' = d\<lparr>of_containers := (of_containers d)\<lparr>config_rows := config_rows (of_containers d) @ new\<rparr>\<rparr>
     \<and> (\<forall>(own, k, v) \<in> set new. own = i \<and> nic_key k)) \<and> (db_ok d \<longrightarrow> db_ok d')"

text \<open>The local devices that are the same maps as expanded ones have the same contents.\<close>

definition linked :: "lxc \<Rightarrow> bool" where
  "linked s \<longleftrightarrow> (l_shared s \<longrightarrow> (\<forall>k m. map_of (l_devices s) k = Some m \<longrightarrow> map_of (l_xdevices s) k = Some m))"

definition settles :: "lxc_env \<Rightarrow> lxc \<Rightarrow> lxc \<Rightarrow> bool" where
  "settles env s s' \<longleftrightarrow>
     l_architecture s' = l_architecture s \<and> l_ephemeral s' = l_ephemeral s \<and> l_profiles s' = l_profiles s
     \<and> l_shared s' = l_shared s \<and> filled (l_config s) (l_config s') \<and> nic_changes (l_xconfig s) (l_xconfig s')
     \<and> maxed (l_xdevices s) (l_xdevices s')
     \<and> (linked s \<longrightarrow> linked s' \<and> maxed (l_devices s) (l_devices s')) \<and> (\<not> l_shared s \<longrightarrow> l_devices s' = l_devices s)
     \<and> nic_rows (e_id env) (data (l_db s)) (data (l_db s'))"

lemma filled_refl [simp]: "filled c c" and nic_changes_refl [simp]: "nic_changes c c" and maxed_refl [simp]: "maxed d d"
  by (auto simp: filled_def nic_changes_def maxed_def)

lemma nic_rows_refl [simp]: "nic_rows i r r"
  unfolding nic_rows_def by (intro conjI exI [of _ "[]"]) simp_all

lemma mget_eq: "map_of c k = map_of c' k \<Longrightarrow> mget c k = mget c' k"
  by (simp add: mget_def)

lemma filled_trans: "filled a b \<Longrightarrow> filled b c \<Longrightarrow> filled a c"
  unfolding filled_def by (metis mget_eq)

lemma nic_changes_trans: "nic_changes a b \<Longrightarrow> nic_changes b c \<Longrightarrow> nic_changes a c"
  unfolding nic_changes_def by metis

lemma apply_max_type [simp]: "mget (apply_max m) ''type'' = mget m ''type''"
  by (simp add: apply_max_def mget_def update_conv')

lemma update_same: "map_of m k = Some v \<Longrightarrow> AList.update k v m = m"
  by (induction m) auto

lemma apply_max_idem [simp]: "apply_max (apply_max m) = apply_max m"
proof (cases "mget m ''limits.max'' = []")
  case False
  let ?x = "mget m ''limits.max''"
  let ?r = "AList.update ''limits.read'' ?x m" and ?w = "AList.update ''limits.write'' ?x (AList.update ''limits.read'' ?x m)"
  have x: "mget ?w ''limits.max'' = ?x" by (simp add: mget_def update_conv')
  have "AList.update ''limits.read'' ?x ?w = ?w" by (rule update_same) (simp add: update_conv')
  moreover have "AList.update ''limits.write'' ?x ?w = ?w" by (rule update_same) (simp add: update_conv')
  ultimately show ?thesis using False x by (simp add: apply_max_def)
qed (simp add: apply_max_def)

lemma maxed_trans: "maxed a b \<Longrightarrow> maxed b c \<Longrightarrow> maxed a c"
  unfolding maxed_def by (metis apply_max_idem apply_max_type option.inject)

lemma nic_rows_trans: "nic_rows i a b \<Longrightarrow> nic_rows i b c \<Longrightarrow> nic_rows i a c"
  unfolding nic_rows_def by (fastforce simp: append_assoc)

interpretation settling: calling "settles env" for env
proof
  fix s t u
  show "settles env s s" by (simp add: settles_def)
  show "settles env s u" if st: "settles env s t" and tu: "settles env t u"
    unfolding settles_def
  proof (intro conjI)
    show "filled (l_config s) (l_config u)" using st tu filled_trans unfolding settles_def by blast
    show "nic_changes (l_xconfig s) (l_xconfig u)" using st tu nic_changes_trans unfolding settles_def by blast
    show "maxed (l_xdevices s) (l_xdevices u)" using st tu maxed_trans unfolding settles_def by blast
    show "linked s \<longrightarrow> linked u \<and> maxed (l_devices s) (l_devices u)"
      using st tu maxed_trans unfolding settles_def by blast
    show "nic_rows (e_id env) (data (l_db s)) (data (l_db u))" using st tu nic_rows_trans unfolding settles_def by blast
  qed (use st tu in \<open>simp_all add: settles_def\<close>)
  show "settles env s (s\<lparr>l_calls := l_calls s @ cs\<rparr>)" for cs by (simp add: settles_def linked_def)
qed

lemma settles_fields:
  assumes "l_architecture s' = l_architecture s" "l_ephemeral s' = l_ephemeral s" "l_profiles s' = l_profiles s"
    "l_shared s' = l_shared s" "l_config s' = l_config s" "l_xconfig s' = l_xconfig s" "l_xdevices s' = l_xdevices s"
    "l_devices s' = l_devices s" "data (l_db s') = data (l_db s)"
  shows "settles env s s'"
  using assms by (simp add: settles_def linked_def)

lemma guar_building [guar_intros]:
  "guar (settles env) (modifyS (\<lambda>s. s\<lparr>l_building := v s\<rparr>))"
  "guar (settles env) (modifyS (\<lambda>s. s\<lparr>l_cc := v s\<rparr>))"
  "guar (settles env) (modifyS (\<lambda>s. s\<lparr>l_idmapset := w s\<rparr>))"
  by (auto simp: guar_def modifyS_def intro!: settles_fields)

text \<open>Operations that only call the host.\<close>

definition only_calls :: "lxc \<Rightarrow> lxc \<Rightarrow> bool" where
  "only_calls s s' \<longleftrightarrow> (\<exists>cs. s' = s\<lparr>l_calls := cs\<rparr>)"

interpretation asking: calling only_calls
proof
  fix s t u :: lxc
  show "only_calls s s" unfolding only_calls_def by (rule exI [of _ "l_calls s"]) simp
  show "only_calls s u" if "only_calls s t" "only_calls t u" using that by (auto simp: only_calls_def)
  show "only_calls s (s\<lparr>l_calls := l_calls s @ cs\<rparr>)" for cs by (auto simp: only_calls_def)
qed

lemma only_calls_settles: "only_calls s s' \<Longrightarrow> settles env s s'"
  unfolding only_calls_def by (auto intro!: settles_fields)

lemma asks_hwaddr [guar_intros]: "guar only_calls (nextHwaddr env)"
  unfolding nextHwaddr_def by (intro guar_intros)

lemma asks_name [guar_intros]: "guar only_calls (nextInterfaceName env)"
  unfolding nextInterfaceName_def by (auto intro!: guar_intros split: sum.split)

text \<open>A row that \<^verbatim>\<open>updateKey\<close> has tried to insert.\<close>

lemma dbS_run: "dbS m s = (r, s') \<Longrightarrow> \<exists>q. m (l_db s) = (q, l_db s') \<and> s' = s\<lparr>l_db := l_db s'\<rparr>
    \<and> (case q of Inl e \<Rightarrow> r = Inl (BadDb e) | Inr x \<Rightarrow> r = Inr x)"
  by (auto simp: dbS_def split: prod.splits sum.splits)

lemma insert_row_data:
  "data (snd (in_tx (ContainerConfigInsert i [(k, v)]) c)) \<in> {data c,
     (data c)\<lparr>of_containers := (of_containers (data c))\<lparr>config_rows := config_rows (of_containers (data c)) @ [(i, k, v)]\<rparr>\<rparr>}"
proof -
  let ?rows = "\<lambda>d. d = data c \<or> d = (data c)\<lparr>of_containers := (of_containers (data c))
      \<lparr>config_rows := config_rows (of_containers (data c)) @ [(i, k, v)]\<rparr>\<rparr>"
  have "keeps ?rows (insert_config OContainer i (k, v))"
    unfolding insert_config_def by (rule keeps_execD) (auto simp: Let_def split: if_splits)
  then have "keeps ?rows (in_tx (ContainerConfigInsert i [(k, v)]))"
    unfolding ContainerConfigInsert_def eachD.simps by (intro keeps_intros)
  then show ?thesis by (simp add: keeps_def)
qed

lemma updateKey_run:
  assumes "updateKey env k v s = (r, s')" "nic_key k"
  shows "\<exists>c. s' = s\<lparr>l_db := c\<rparr> \<and> nic_rows (e_id env) (data (l_db s)) (data c)"
proof -
  obtain q where q: "in_tx (ContainerConfigInsert (e_id env) [(k, v)]) (l_db s) = (q, l_db s')" "s' = s\<lparr>l_db := l_db s'\<rparr>"
    using dbS_run assms(1) unfolding updateKey_def by blast
  have "keeps db_ok (in_tx (ContainerConfigInsert (e_id env) [(k, v)]))" by (intro keeps_intros keeps_container_ops)
  then have ok: "db_ok (data (l_db s)) \<longrightarrow> db_ok (data (l_db s'))" using keepsD [of db_ok "in_tx (ContainerConfigInsert (e_id env) [(k, v)])"] q(1) by blast
  have "nic_rows (e_id env) (data (l_db s)) (data (l_db s'))"
  proof -
    have "data (l_db s') \<in> {data (l_db s), (data (l_db s))\<lparr>of_containers := (of_containers (data (l_db s)))
        \<lparr>config_rows := config_rows (of_containers (data (l_db s))) @ [(e_id env, k, v)]\<rparr>\<rparr>}"
      using insert_row_data [of "e_id env" k v "l_db s"] unfolding q(1) by simp
    then show ?thesis
    proof
      assume "data (l_db s') = data (l_db s)" then show ?thesis by simp
    next
      assume "data (l_db s') \<in> {(data (l_db s))\<lparr>of_containers := (of_containers (data (l_db s)))
        \<lparr>config_rows := config_rows (of_containers (data (l_db s))) @ [(e_id env, k, v)]\<rparr>\<rparr>}"
      then show ?thesis unfolding nic_rows_def using assms(2) ok by (intro conjI exI [of _ "[(e_id env, k, v)]"]) auto
    qed
  qed
  with q(2) show ?thesis by blast
qed

lemma filled_update: "nic_key k \<Longrightarrow> mget c k = [] \<Longrightarrow> filled c (AList.update k v c)"
  by (auto simp: filled_def update_conv')

lemma nic_changes_update: "nic_key k \<Longrightarrow> nic_changes c (AList.update k v c)"
  by (auto simp: nic_changes_def update_conv')

lemma settles_set_volatile:
  assumes "nic_key k" "mget (l_config s) k = []" "nic_rows (e_id env) (data (l_db s)) (data c)"
  shows "settles env s (set_volatile k v (s\<lparr>l_db := c, l_calls := cs\<rparr>))"
  using assms by (simp add: settles_def set_volatile_def filled_update nic_changes_update linked_def)

lemma settles_db: "nic_rows (e_id env) (data (l_db s)) (data c) \<Longrightarrow> settles env s (s\<lparr>l_db := c, l_calls := cs\<rparr>)"
  by (simp add: settles_def linked_def)

lemma ContainerConfigGet_data: "data (snd (ContainerConfigGet i key c)) = data c"
  by (simp add: ContainerConfigGet_def rowD_def queryD_def bindD_def faultD_def returnD_def failD_def
      split: prod.splits sum.splits option.splits)

lemma only_calls_same: "only_calls s s' \<Longrightarrow> l_config s' = l_config s"
  by (auto simp: only_calls_def)

lemma guar_fill_key [guar_intros]:
  assumes "nic_key key" "guar only_calls generate"
  shows "guar (settles env) (fill_key env key generate)"
  unfolding guar_def
proof
  fix s
  show "settles env s (snd (fill_key env key generate s))"
  proof (cases "mget (l_config s) key = []")
    case False then show ?thesis by (simp add: fill_key_def bindS_def readS_def returnS_def settling.stays)
  next
    case old: True
    obtain g s1 where g: "generate s = (g, s1)" by (cases "generate s")
    then have s1: "only_calls s s1" by (rule guarD [OF assms(2)])
    show ?thesis
    proof (cases g)
      case (Inl e)
      then show ?thesis using old g only_calls_settles [OF s1] by (simp add: fill_key_def bindS_def readS_def)
    next
      case (Inr new)
      obtain cs where cs: "s1 = s\<lparr>l_calls := cs\<rparr>" using s1 by (auto simp: only_calls_def)
      obtain u s2 where u: "updateKey env key new s1 = (u, s2)" by (cases "updateKey env key new s1")
      then obtain c where c: "s2 = s\<lparr>l_db := c, l_calls := cs\<rparr>" "nic_rows (e_id env) (data (l_db s)) (data c)"
        using updateKey_run [OF u assms(1)] cs by force
      show ?thesis
      proof (cases u)
        case (Inr w)
        have "fill_key env key generate s = (Inr new, set_volatile key new s2)"
          using old g u \<open>g = Inr new\<close> Inr
          by (simp add: fill_key_def bindS_def readS_def attemptS_def modifyS_def returnS_def)
        then show ?thesis using settles_set_volatile [OF assms(1) old c(2)] c(1) by simp
      next
        case (Inl e)
        obtain q s3 where q: "dbS (ContainerConfigGet (e_id env) key) s2 = (q, s3)" by (cases "dbS (ContainerConfigGet (e_id env) key) s2")
        have s3: "s3 = s2\<lparr>l_db := l_db s3\<rparr>" using dbS_run [OF q] by blast
        have "data (l_db s3) = data c"
          using dbS_run [OF q] ContainerConfigGet_data [of "e_id env" key "l_db s2"] c(1) by auto
        moreover have "s3 = s\<lparr>l_db := l_db s3, l_calls := cs\<rparr>" by (subst s3) (simp add: c(1))
        ultimately obtain d where d: "s3 = s\<lparr>l_db := d, l_calls := cs\<rparr>" "nic_rows (e_id env) (data (l_db s)) (data d)"
          using c(2) by metis
        have "snd (fill_key env key generate s) \<in> {s3} \<union> range (\<lambda>v. set_volatile key v s3)"
          using old g u \<open>g = Inr new\<close> Inl q
          by (cases q) (auto simp: fill_key_def bindS_def readS_def attemptS_def modifyS_def returnS_def failS_def)
        then show ?thesis using settles_set_volatile [OF assms(1) old d(2)] settles_db [OF d(2)] d(1) by auto
      qed
    qed
  qed
qed

lemma nic_key_field [simp]: "nic_key (''volatile.'' @ name @ ''.hwaddr'')" "nic_key (''volatile.'' @ name @ ''.name'')"
proof -
  have p: "HasPrefix (''volatile.'' @ t) ''volatile.''" for t by (rule HasPrefix_append)
  have s: "HasSuffix (''volatile.'' @ name @ t) t" for t using HasSuffix_append [of "''volatile.'' @ name" t] by simp
  show "nic_key (''volatile.'' @ name @ ''.hwaddr'')" "nic_key (''volatile.'' @ name @ ''.name'')"
    unfolding nic_key_def using p s by blast+
qed

lemma guar_fill [guar_intros]: "guar (settles env) (fillNetworkDevice env name m)"
  unfolding fillNetworkDevice_def by (intro guar_intros nic_key_field)

lemma maxed_update:
  assumes "mget (device_or_empty devs k) ''type'' = ''disk''"
  shows "maxed devs (AList.update k (apply_max (device_or_empty devs k)) devs)"
proof -
  have "map_of devs k = Some (device_or_empty devs k)"
    using assms by (cases "map_of devs k") (auto simp: device_or_empty_def)
  then show ?thesis using assms by (auto simp: maxed_def update_conv')
qed

lemma disk_limit_loop_maxed:
  "disk_limit_loop fuel h hp rootfs valid ks devs bl = Some (devs', r) \<Longrightarrow> maxed devs devs'"
proof (induction ks arbitrary: devs bl)
  case (Cons k ks)
  let ?m = "device_or_empty devs k"
  show ?case
  proof (cases "mget ?m ''type'' = ''disk''")
    case False
    then show ?thesis using Cons by (simp add: Let_def)
  next
    case True
    have rec: "maxed devs devs'" if "disk_limit_loop fuel h hp rootfs valid ks (AList.update k (apply_max ?m) devs) b = Some (devs', r)" for b
      using maxed_trans [OF maxed_update [OF True] Cons.IH [OF that]] .
    show ?thesis
      using Cons.prems True maxed_update [OF True]
      by (auto simp: Let_def dest: rec split: sum.splits option.splits if_splits)
  qed
qed simp

lemma getDiskLimits_maxed: "getDiskLimits srt fuel h hp rootfs devs = Some (devs', r) \<Longrightarrow> maxed devs devs'"
  by (auto simp: getDiskLimits_def dest: disk_limit_loop_maxed split: option.splits sum.splits)

lemma map_of_share: "map_of (share_devices xd ld) k =
    (case map_of ld k of None \<Rightarrow> None | Some m \<Rightarrow> Some (case map_of xd k of None \<Rightarrow> m | Some m' \<Rightarrow> m'))"
  by (induction ld) (auto simp: share_devices_def split: option.splits)

lemma maxed_share:
  assumes "maxed xd xd'" "\<And>k m. map_of ld k = Some m \<Longrightarrow> map_of xd k = Some m"
  shows "maxed ld (share_devices xd' ld)" "map_of (share_devices xd' ld) k = Some m \<Longrightarrow> map_of xd' k = Some m"
proof -
  have "map_of (share_devices xd' ld) k = map_of ld k
     \<or> (\<exists>m. map_of ld k = Some m \<and> mget m ''type'' = ''disk'' \<and> map_of (share_devices xd' ld) k = Some (apply_max m))" for k
  proof (cases "map_of ld k")
    case (Some m)
    with assms(2) have "map_of xd k = Some m" by blast
    with assms(1) have "map_of xd' k = Some m \<or> mget m ''type'' = ''disk'' \<and> map_of xd' k = Some (apply_max m)"
      unfolding maxed_def by (metis option.inject)
    with Some show ?thesis by (auto simp: map_of_share)
  qed (simp add: map_of_share)
  then show "maxed ld (share_devices xd' ld)" by (simp add: maxed_def)
  show "map_of xd' k = Some m" if got: "map_of (share_devices xd' ld) k = Some m"
  proof -
    obtain m0 where m0: "map_of ld k = Some m0" using got by (auto simp: map_of_share split: option.splits)
    then have "map_of xd k = Some m0" by (rule assms(2))
    then obtain m1 where "map_of xd' k = Some m1" using assms(1) unfolding maxed_def by (metis (no_types))
    then show ?thesis using got m0 by (simp add: map_of_share)
  qed
qed

lemma guar_disk_limits [guar_intros]: "guar (settles env') (diskLimitsS env)"
  unfolding guar_def
proof
  fix s
  show "settles env' s (snd (diskLimitsS env s))"
  proof (cases "getDiskLimits (e_sorter env) (e_fuel env) (e_host env (l_calls s)) (e_hostpath env) (RootfsPath env) (l_xdevices s)")
    case None then show ?thesis by (simp add: diskLimitsS_def settling.stays)
  next
    case (Some p)
    obtain devs r where p: "p = (devs, r)" by (cases p)
    have m: "maxed (l_xdevices s) devs" by (rule getDiskLimits_maxed) (use Some p in simp)
    show ?thesis
    proof (cases "l_shared s")
      case True
      have "linked s \<longrightarrow> (\<forall>k m. map_of (share_devices devs (l_devices s)) k = Some m \<longrightarrow> map_of devs k = Some m)
          \<and> maxed (l_devices s) (share_devices devs (l_devices s))"
        using maxed_share [OF m] True unfolding linked_def by blast
      then show ?thesis using Some p m True by (simp add: diskLimitsS_def settles_def linked_def)
    next
      case False
      then show ?thesis using Some p m by (simp add: diskLimitsS_def settles_def linked_def)
    qed
  qed
qed

interpretation settling_init: preparing "settles env" env for env
  by unfold_locales (intro guar_intros)+

lemma guar_cgroup [guar_intros]: "guar (settles env) (CGroupGet env k)" "guar (settles env) (CGroupSet env k v)"
  unfolding CGroupGet_def CGroupSet_def by (intro guar_intros)+

end
