(* ===== verification/Container_Update.thy ===== *)
theory Container_Update
  imports Lxc_Init
begin

text \<open>
  \<^verbatim>\<open>Update\<close> of \<^verbatim>\<open>lxd/container_lxc.go\<close>: a request for a new configuration is validated, the object is
  changed and expanded anew, the changes are applied to a running container, and the configuration is written to the database;
  on an error the object gets its old fields back.  With the operations on network and disk devices that it uses.
\<close>

section \<open>Network devices\<close>

definition run_or :: "lxc_env \<Rightarrow> string list \<Rightarrow> string \<Rightarrow> unit lxc_op" where
  "run_or env command failed = relabelS (Msg failed) (doS env (RunCommand command))"

definition deviceRemoveInterface :: "lxc_env \<Rightarrow> string \<Rightarrow> unit lxc_op" where
  "deviceRemoveInterface env nic = ignoreS (doS env (RunCommand [''ip'', ''link'', ''del'', ''dev'', nic]))"

definition deviceNextVeth :: "lxc_env \<Rightarrow> string lxc_op" where
  "deviceNextVeth env = bindS (attemptS (callS env RandomName)) (\<lambda>r.
     returnS (''veth'' @ (case r of Inl _ \<Rightarrow> ''00000000'' | Inr words \<Rightarrow> concat words)))"

text \<open>A command after whose failure an interface is removed.\<close>

definition run_else_remove :: "lxc_env \<Rightarrow> string list \<Rightarrow> string \<Rightarrow> string \<Rightarrow> unit lxc_op" where
  "run_else_remove env command nic failed =
     bindS (attemptS (doS env (RunCommand command))) (\<lambda>r. case r of
       Inr _ \<Rightarrow> returnS ()
     | Inl _ \<Rightarrow> seqS (deviceRemoveInterface env nic) (failS (Msg failed)))"

definition create_veth :: "lxc_env \<Rightarrow> Device \<Rightarrow> string \<Rightarrow> string lxc_op" where
  "create_veth env m n1 =
     bindS (deviceNextVeth env) (\<lambda>n2.
     seqS (run_or env [''ip'', ''link'', ''add'', ''dev'', n1, ''type'', ''veth'', ''peer'', ''name'', n2]
       ''Failed to create the veth interface'')
     (seqS (run_or env [''ip'', ''link'', ''set'', ''dev'', n1, ''up''] ''Failed to bring up the veth interface'')
     (seqS (whenS (mget m ''nictype'' = ''bridged'')
       (bindS (hostS env) (\<lambda>h.
        seqS (run_else_remove env
          (if h_exists h (''/sys/class/net/'' @ mget m ''parent'' @ ''/bridge'')
           then [''ip'', ''link'', ''set'', ''dev'', n1, ''master'', mget m ''parent'']
           else [''ovs-vsctl'', ''add-port'', mget m ''parent'', n1]) n2 ''Failed to add interface to bridge'')
        (bindS (hostS env) (\<lambda>h.
        let knob = ''/proc/sys/net/ipv6/conf/'' @ n1 @ ''/disable_ipv6'' in
        whenS (h_exists h knob) (ignoreS (doS env (WriteFile knob ''1'')))))))) (returnS n2))))"

definition createNetworkDevice :: "lxc_env \<Rightarrow> Device \<Rightarrow> string lxc_op" where
  "createNetworkDevice env m =
     (let nictype = mget m ''nictype'' in
      bindS (if StringInSlice nictype [''bridged'', ''p2p'', ''macvlan''] \<and> mget m ''host_name'' = []
             then deviceNextVeth env else returnS (mget m ''host_name'')) (\<lambda>n1.
      bindS (if StringInSlice nictype [''bridged'', ''p2p''] then create_veth env m n1
             else if nictype = ''physical'' then returnS (mget m ''parent'')
             else if nictype = ''macvlan'' then
               seqS (run_or env [''ip'', ''link'', ''add'', ''dev'', n1, ''link'', mget m ''parent'', ''type'', ''macvlan'', ''mode'', ''bridge'']
                 ''Failed to create the new macvlan interface'') (returnS n1)
             else returnS []) (\<lambda>dev.
      seqS (whenS (mget m ''hwaddr'' \<noteq> [])
        (run_else_remove env [''ip'', ''link'', ''set'', ''dev'', dev, ''address'', mget m ''hwaddr''] dev ''Failed to set the MAC address''))
      (seqS (run_else_remove env [''ip'', ''link'', ''set'', ''dev'', dev, ''up''] dev ''Failed to bring up the interface'')
      (returnS dev)))))"

text \<open>Both return without an error when the struct or the device cannot be prepared.\<close>

definition prepared :: "lxc_env \<Rightarrow> string \<Rightarrow> Device \<Rightarrow> (Device \<Rightarrow> unit lxc_op) \<Rightarrow> unit lxc_op" where
  "prepared env name m k =
     bindS (attemptS (seqS (initLXC env) (fillNetworkDevice env name m))) (\<lambda>r. case r of
       Inl _ \<Rightarrow> returnS ()
     | Inr m' \<Rightarrow> k m')"

definition need_running :: "lxc_env \<Rightarrow> string \<Rightarrow> unit lxc_op" where
  "need_running env failed = bindS (IsRunning env) (\<lambda>running. if running then returnS () else failS (Msg failed))"

definition insertNetworkDevice :: "lxc_env \<Rightarrow> string \<Rightarrow> Device \<Rightarrow> unit lxc_op" where
  "insertNetworkDevice env name m0 = prepared env name m0 (\<lambda>m.
     bindS (hostS env) (\<lambda>h.
     if mget m ''parent'' \<noteq> [] \<and> \<not> h_exists h (''/sys/class/net/'' @ mget m ''parent'')
     then failS (Msg (''Missing parent device '' @ mget m ''parent''))
     else
       seqS (need_running env ''Cannot insert device into stopped container'')
       (bindS (createNetworkDevice env m) (\<lambda>devName.
        relabelS (Msg (''Failed to attach interface: '' @ devName)) (doS env (AttachInterface devName (mget m ''name'')))))))"

definition removeNetworkDevice :: "lxc_env \<Rightarrow> string \<Rightarrow> Device \<Rightarrow> unit lxc_op" where
  "removeNetworkDevice env name m0 = prepared env name m0 (\<lambda>m.
     seqS (need_running env ''Cannot insert device into stopped container'')
     (bindS (if mget m ''nictype'' = ''physical'' then returnS (mget m ''parent'') else deviceNextVeth env) (\<lambda>hostName.
     seqS (doS env NewContainer)
     (seqS (relabelS (Msg (''Failed to detach interface: '' @ mget m ''name''))
        (doS env (DetachInterface (mget m ''name'') hostName)))
     (whenS (mget m ''nictype'' \<noteq> ''physical'') (deviceRemoveInterface env hostName))))))"

section \<open>Disk devices\<close>

definition createDiskDevice :: "lxc_env \<Rightarrow> Device \<Rightarrow> string lxc_op" where
  "createDiskDevice env m =
     bindS (hostS env) (\<lambda>h.
     let srcPath = e_hostpath env (mget m ''source'');
         devPath = dev_path env ''disk.'' (TrimPrefix (mget m ''path'') ''/'');
         isFile = (\<not> h_isdir h srcPath \<and> \<not> deviceIsBlockdev h srcPath) in
     if \<not> h_exists h srcPath then
       (if IsTrue (mget m ''optional'') then returnS [] else failS (Msg (''Missing source path '' @ srcPath)))
     else
       seqS (whenS (\<not> h_exists h (DevicesPath env)) (doS env (MakeDir (DevicesPath env) 457)))
       (bindS (hostS env) (\<lambda>h.
       seqS (whenS (h_exists h devPath) (doS env (RemoveFile devPath)))
       (seqS (doS env (if isFile then CreateFile devPath else MakeDir devPath 448))
       (seqS (doS env (MountDisk srcPath devPath (IsTrue (mget m ''readonly'')) (IsTrue (mget m ''recursive''))))
       (returnS devPath))))))"

definition insertDiskDevice :: "lxc_env \<Rightarrow> Device \<Rightarrow> unit lxc_op" where
  "insertDiskDevice env m =
     seqS (need_running env ''Cannot insert device into stopped container'')
     (bindS (relabelS (Msg ''Failed to setup device'') (createDiskDevice env m)) (\<lambda>devPath.
     let flags = (if IsTrue (mget m ''recursive'') then 4096 + 16384 else 4096) in
     relabelS (Msg ''Failed to add mount for device'')
       (doS env (InsertMount devPath (TrimSuffix (mget m ''path'') ''/'') ''none'' flags))))"

definition path_less :: "Device \<Rightarrow> Device \<Rightarrow> bool" where
  "path_less a b = str_less (mget a ''path'') (mget b ''path'')"

text \<open>\<^verbatim>\<open>addDiskDevices\<close> sorts the devices by their path; the sorter is a parameter.\<close>

definition addDiskDevices :: "((Device \<Rightarrow> Device \<Rightarrow> bool) \<Rightarrow> Device list \<Rightarrow> Device list) \<Rightarrow> Devices \<Rightarrow>
    (Device \<Rightarrow> unit lxc_op) \<Rightarrow> unit lxc_op" where
  "addDiskDevices srt devices handler = eachS handler (srt path_less (map snd devices))"

definition removeDiskDevice :: "lxc_env \<Rightarrow> Device \<Rightarrow> unit lxc_op" where
  "removeDiskDevice env m =
     bindS (InitPID env) (\<lambda>pid.
     if pid = -1 then failS (Msg ''Cannot remove device from stopped container'')
     else
       bindS (hostS env) (\<lambda>h.
       let tgtPath = TrimPrefix (mget m ''path'') ''/''; devPath = dev_path env ''disk.'' tgtPath in
       if \<not> h_exists h devPath then returnS ()
       else
         bindS (attemptS (doS env (FileExistsIn tgtPath))) (\<lambda>r.
         seqS (case r of
             Inl _ \<Rightarrow> returnS ()
           | Inr _ \<Rightarrow> relabelS (Msg ''Error unmounting the device'') (doS env (RemoveMount (mget m ''path''))))
         (seqS (doS env (Unmount devPath)) (doS env (RemoveFile devPath))))))"
section \<open>Network limits\<close>

definition set_priorities :: "lxc_env \<Rightarrow> int \<Rightarrow> string list \<Rightarrow> bool lxc_op" where
  "set_priorities env networkInt netifs =
     foldl (\<lambda>acc netif. bindS acc (\<lambda>success.
       bindS (attemptS (CGroupSet env ''net_prio.ifpriomap'' (netif @ '' '' @ dec_of_int networkInt))) (\<lambda>r.
       returnS (case r of Inl _ \<Rightarrow> success | Inr _ \<Rightarrow> True)))) (returnS False) netifs"

definition setNetworkPriority :: "lxc_env \<Rightarrow> unit lxc_op" where
  "setNetworkPriority env =
     seqS (need_running env ''Cannot set network priority on stopped container'')
     (whenS (cgNetPrio env)
       (bindS (confS ''limits.network.priority'') (\<lambda>networkPriority.
        bindS (numS (Atoi (if networkPriority = [] then ''0'' else networkPriority))) (\<lambda>networkInt.
        bindS (callS env NetInterfaces) (\<lambda>netifs.
        bindS (set_priorities env networkInt netifs) (\<lambda>success.
        if success then returnS () else failS (Msg ''Failed to set network device priority'')))))))"

text \<open>The running configuration is searched first, by index; an empty answer is an index out of range.\<close>

definition running_item :: "lxc_env \<Rightarrow> nat \<Rightarrow> string \<Rightarrow> string lxc_op" where
  "running_item env i field =
     bindS (attemptS (callS env (RunningConfigItem (network_key env (int i) field)))) (\<lambda>r. case r of
       Inr (x # _) \<Rightarrow> returnS x | _ \<Rightarrow> failS GoPanic)"

fun running_veth :: "lxc_env \<Rightarrow> string \<Rightarrow> nat list \<Rightarrow> (string option) lxc_op" where
  "running_veth env name [] = returnS None"
| "running_veth env name (i # is) =
     bindS (running_item env i ''name'') (\<lambda>nicName.
     if nicName \<noteq> name then running_veth env name is
     else
       bindS (running_item env i ''veth.pair'') (\<lambda>veth.
       if veth \<noteq> [] then returnS (Some veth) else running_veth env name is))"

fun configured_veth :: "lxc_env \<Rightarrow> string \<Rightarrow> string list \<Rightarrow> string lxc_op" where
  "configured_veth env name [] = returnS []"
| "configured_veth env name (k # ks) =
     bindS (readS (\<lambda>s. device_or_empty (l_xdevices s) k)) (\<lambda>dev.
     if mget dev ''type'' \<noteq> ''nic'' then configured_veth env name ks
     else
       bindS (attemptS (fillNetworkDevice env k dev)) (\<lambda>r.
       let m = (case r of Inl _ \<Rightarrow> dev | Inr m \<Rightarrow> m) in
       if mget m ''name'' \<noteq> name then configured_veth env name ks else returnS (mget m ''host_name'')))"

definition getHostInterface :: "lxc_env \<Rightarrow> string \<Rightarrow> string lxc_op" where
  "getHostInterface env name =
     bindS (IsRunning env) (\<lambda>running.
     bindS (if running then
         bindS (attemptS (callS env (GetConfigItem (if e_lxc21 env then ''lxc.net'' else ''lxc.network'')))) (\<lambda>r.
         running_veth env name [0..<(case r of Inl _ \<Rightarrow> 0 | Inr items \<Rightarrow> length items)])
       else returnS None) (\<lambda>found. case found of
         Some veth \<Rightarrow> returnS veth
       | None \<Rightarrow>
           bindS (readS (\<lambda>s. DeviceNames (e_sorter env) (l_xdevices s))) (\<lambda>ks. configured_veth env name ks)))"

definition limits_of :: "Device \<Rightarrow> string \<times> string" where
  "limits_of m = (if mget m ''limits.max'' \<noteq> [] then (mget m ''limits.max'', mget m ''limits.max'')
     else (mget m ''limits.ingress'', mget m ''limits.egress''))"

definition bit_rate :: "string \<Rightarrow> int lxc_op" where
  "bit_rate limit = (if limit \<noteq> [] then sumS SizeError (ParseBitSizeString limit) else returnS 0)"

definition set_ingress :: "lxc_env \<Rightarrow> string \<Rightarrow> int \<Rightarrow> unit lxc_op" where
  "set_ingress env veth rate =
     seqS (run_or env [''tc'', ''qdisc'', ''add'', ''dev'', veth, ''root'', ''handle'', ''1:0'', ''htb'', ''default'', ''10'']
       ''Failed to create root tc qdisc'')
     (seqS (run_or env [''tc'', ''class'', ''add'', ''dev'', veth, ''parent'', ''1:0'', ''classid'', ''1:10'', ''htb'', ''rate'',
         dec_of_int rate @ ''bit''] ''Failed to create limit tc class'')
     (run_or env [''tc'', ''filter'', ''add'', ''dev'', veth, ''parent'', ''1:0'', ''protocol'', ''all'', ''u32'', ''match'', ''u32'',
         ''0'', ''0'', ''flowid'', ''1:1''] ''Failed to create tc filter''))"

definition set_egress :: "lxc_env \<Rightarrow> string \<Rightarrow> int \<Rightarrow> unit lxc_op" where
  "set_egress env veth rate =
     seqS (run_or env [''tc'', ''qdisc'', ''add'', ''dev'', veth, ''handle'', ''ffff:0'', ''ingress'']
       ''Failed to create ingress tc qdisc'')
     (run_or env [''tc'', ''filter'', ''add'', ''dev'', veth, ''parent'', ''ffff:0'', ''protocol'', ''all'', ''u32'', ''match'',
         ''u32'', ''0'', ''0'', ''police'', ''rate'', dec_of_int rate @ ''bit'', ''burst'', ''1024k'', ''mtu'', ''64kb'', ''drop'',
         ''flowid'', '':1''] ''Failed to create ingress tc qdisc'')"

text \<open>A device that cannot be filled ends the operation without an error.\<close>

definition setNetworkLimits :: "lxc_env \<Rightarrow> string \<Rightarrow> Device \<Rightarrow> unit lxc_op" where
  "setNetworkLimits env name m0 =
     (if mget m0 ''nictype'' \<noteq> ''bridged'' \<and> mget m0 ''nictype'' \<noteq> ''p2p''
      then failS (Msg ''Network limits are only supported on bridged and p2p interfaces'')
      else
        seqS (initLXC env)
        (seqS (need_running env ''Cannot set network limits on stopped container'')
        (bindS (attemptS (fillNetworkDevice env name m0)) (\<lambda>r. case r of
           Inl _ \<Rightarrow> returnS ()
         | Inr m \<Rightarrow>
             bindS (getHostInterface env (mget m ''name'')) (\<lambda>veth.
             if veth = [] then failS (Msg ''Cannot find host side veth name'')
             else
               let (ingress, egress) = limits_of m in
               bindS (bit_rate ingress) (\<lambda>ingressInt.
               bindS (bit_rate egress) (\<lambda>egressInt.
               seqS (ignoreS (doS env (RunCommand [''tc'', ''qdisc'', ''del'', ''dev'', veth, ''root''])))
               (seqS (ignoreS (doS env (RunCommand [''tc'', ''qdisc'', ''del'', ''dev'', veth, ''ingress''])))
               (seqS (whenS (ingress \<noteq> []) (set_ingress env veth ingressInt))
               (whenS (egress \<noteq> []) (set_egress env veth egressInt)))))))))))"

section \<open>Live changes of the configuration\<close>

definition cgroup_or_empty :: "lxc_env \<Rightarrow> string \<Rightarrow> string lxc_op" where
  "cgroup_or_empty env key = bindS (attemptS (CGroupGet env key)) (\<lambda>r. returnS (case r of Inl _ \<Rightarrow> [] | Inr v \<Rightarrow> v))"

definition restore_cgroup :: "lxc_env \<Rightarrow> string \<Rightarrow> string \<Rightarrow> unit lxc_op" where
  "restore_cgroup env key old = whenS (old \<noteq> []) (ignoreS (CGroupSet env key old))"

text \<open>\<^verbatim>\<open>revertMemory\<close>, and an operation after whose failure it runs.\<close>

definition revertMemory :: "lxc_env \<Rightarrow> string \<Rightarrow> string \<Rightarrow> string \<Rightarrow> unit lxc_op" where
  "revertMemory env oldMemswLimit oldLimit oldSoftLimit =
     seqS (restore_cgroup env ''memory.soft_limit_in_bytes'' oldSoftLimit)
     (seqS (restore_cgroup env ''memory.limit_in_bytes'' oldLimit)
     (restore_cgroup env ''memory.memsw.limit_in_bytes'' oldMemswLimit))"

definition reverting :: "unit lxc_op \<Rightarrow> unit lxc_op \<Rightarrow> unit lxc_op" where
  "reverting revert m = bindS (attemptS m) (\<lambda>r. case r of
     Inr _ \<Rightarrow> returnS () | Inl e \<Rightarrow> seqS revert (failS e))"

text \<open>The steps between the two, in their order; each is followed by the next only when it succeeds.\<close>

definition memory_writes :: "lxc_env \<Rightarrow> string \<Rightarrow> string \<Rightarrow> string \<Rightarrow> unit lxc_op" where
  "memory_writes env memory memoryEnforce memorySwap =
     seqS (whenS (cgSwap env) (CGroupSet env ''memory.memsw.limit_in_bytes'' ''-1''))
     (seqS (CGroupSet env ''memory.limit_in_bytes'' ''-1'')
     (seqS (CGroupSet env ''memory.soft_limit_in_bytes'' ''-1'')
     (if memoryEnforce = ''soft'' then CGroupSet env ''memory.soft_limit_in_bytes'' memory
      else
        seqS (CGroupSet env ''memory.limit_in_bytes'' memory)
        (seqS (whenS (cgSwap env \<and> (memorySwap = [] \<or> IsTrue memorySwap))
          (CGroupSet env ''memory.memsw.limit_in_bytes'' memory))
        (bindS (numS (ParseInt memory 10 64)) (\<lambda>valueInt.
         CGroupSet env ''memory.soft_limit_in_bytes'' (e_ninety env valueInt)))))))"

definition live_memory_string :: "lxc_env \<Rightarrow> string \<Rightarrow> string lxc_op" where
  "live_memory_string env memory =
     (if memory = [] then returnS ''-1'' else bindS (memory_bytes env memory) (\<lambda>v. returnS (dec_of_int v)))"

definition live_memory :: "lxc_env \<Rightarrow> unit lxc_op" where
  "live_memory env =
     bindS (confS ''limits.memory'') (\<lambda>memory0.
     bindS (confS ''limits.memory.enforce'') (\<lambda>memoryEnforce.
     bindS (confS ''limits.memory.swap'') (\<lambda>memorySwap.
     bindS (live_memory_string env memory0) (\<lambda>memory.
     bindS (if cgSwap env then cgroup_or_empty env ''memory.memsw.limit_in_bytes'' else returnS []) (\<lambda>oldMemswLimit.
     bindS (cgroup_or_empty env ''memory.limit_in_bytes'') (\<lambda>oldLimit.
     bindS (cgroup_or_empty env ''memory.soft_limit_in_bytes'') (\<lambda>oldSoftLimit.
     reverting (revertMemory env oldMemswLimit oldLimit oldSoftLimit) (memory_writes env memory memoryEnforce memorySwap))))))))"

definition live_swappiness :: "lxc_env \<Rightarrow> unit lxc_op" where
  "live_swappiness env =
     bindS (confS ''limits.memory.swap'') (\<lambda>memorySwap.
     bindS (confS ''limits.memory.swap.priority'') (\<lambda>memorySwapPriority.
     if memorySwap \<noteq> [] \<and> \<not> IsTrue memorySwap then CGroupSet env ''memory.swappiness'' ''0''
     else
       bindS (if memorySwapPriority \<noteq> [] then numS (Atoi memorySwapPriority) else returnS 0) (\<lambda>priority.
       CGroupSet env ''memory.swappiness'' (dec_of_int (i64 (50 + priority))))))"

definition live_disk_priority :: "lxc_env \<Rightarrow> unit lxc_op" where
  "live_disk_priority env =
     bindS (confS ''limits.disk.priority'') (\<lambda>diskPriority.
     bindS (if diskPriority \<noteq> [] then numS (Atoi diskPriority) else returnS 5) (\<lambda>priorityInt.
     CGroupSet env ''blkio.weight'' (dec_of_int (blkio_weight priorityInt))))"

definition live_cpu :: "lxc_env \<Rightarrow> unit lxc_op" where
  "live_cpu env =
     bindS (confS ''limits.cpu.allowance'') (\<lambda>allowance.
     bindS (confS ''limits.cpu.priority'') (\<lambda>priority.
     bindS (sumS HostError (deviceParseCPU allowance priority)) (\<lambda>(cpuShares, cpuCfsQuota, cpuCfsPeriod).
     seqS (CGroupSet env ''cpu.shares'' cpuShares)
     (seqS (CGroupSet env ''cpu.cfs_period_us'' cpuCfsPeriod)
     (CGroupSet env ''cpu.cfs_quota_us'' cpuCfsQuota)))))"

definition live_processes :: "lxc_env \<Rightarrow> string \<Rightarrow> unit lxc_op" where
  "live_processes env val =
     (if val = [] then CGroupSet env ''pids.max'' ''max''
      else bindS (numS (ParseInt val 10 64)) (\<lambda>valueInt. CGroupSet env ''pids.max'' (dec_of_int valueInt)))"

definition schedulerTrigger :: "lxc_env \<Rightarrow> unit lxc_op" where
  "schedulerTrigger env = ignoreS (doS env SchedulerTrigger)"

definition load_modules :: "lxc_env \<Rightarrow> string \<Rightarrow> unit lxc_op" where
  "load_modules env val =
     eachS (\<lambda>mdl. let mdl' = TrimPrefix mdl '' '' in
       relabelS (Msg (''Failed to load kernel module '' @ mdl')) (doS env (LoadModule mdl'))) (split_on CHR '','' val)"

definition live_key_change :: "lxc_env \<Rightarrow> string \<Rightarrow> unit lxc_op" where
  "live_key_change env key =
     bindS (confS key) (\<lambda>val.
     if key = ''raw.apparmor'' \<or> key = ''security.nesting'' then doS env AALoad
     else if key = ''linux.kernel_modules'' \<and> val \<noteq> [] then load_modules env val
     else if key = ''limits.disk.priority'' then whenS (cgBlkio env) (live_disk_priority env)
     else if key = ''limits.memory'' \<or> HasPrefix key ''limits.memory.'' then
       whenS (cgMemory env)
         (seqS (live_memory env)
           (whenS (key = ''limits.memory.swap'' \<or> key = ''limits.memory.swap.priority'') (live_swappiness env)))
     else if key = ''limits.network.priority'' then setNetworkPriority env
     else if key = ''limits.cpu'' then schedulerTrigger env
     else if key = ''limits.cpu.priority'' \<or> key = ''limits.cpu.allowance'' then whenS (cgCpu env) (live_cpu env)
     else if key = ''limits.processes'' then whenS (cgPids env) (live_processes env val)
     else returnS ())"

section \<open>The new configuration\<close>

fun merge_profiles :: "(string \<Rightarrow> (lxd_db, ('k, 'v) gomap) dbop) \<Rightarrow> string list \<Rightarrow> ('k, 'v) gomap \<Rightarrow>
    ('k, 'v) gomap lxc_op" where
  "merge_profiles load [] acc = returnS acc"
| "merge_profiles load (p # ps) acc = bindS (dbS (load p)) (\<lambda>m. merge_profiles load ps (assign_all acc m))"

definition expandConfigS :: "unit lxc_op" where
  "expandConfigS =
     bindS (readS l_profiles) (\<lambda>ps.
     bindS (merge_profiles ProfileConfig ps []) (\<lambda>config.
     modifyS (\<lambda>s. s\<lparr>l_xconfig := assign_all config (l_config s)\<rparr>)))"

definition expandDevicesS :: "unit lxc_op" where
  "expandDevicesS =
     bindS (readS l_profiles) (\<lambda>ps.
     bindS (merge_profiles (Devices_of OProfile) ps []) (\<lambda>devices.
     modifyS (\<lambda>s. s\<lparr>l_xdevices := assign_all devices (l_devices s), l_shared := True\<rparr>)))"

definition changed_keys :: "strmap \<Rightarrow> strmap \<Rightarrow> string list" where
  "changed_keys old new =
     foldl (\<lambda>acc k. if mget old k \<noteq> mget new k \<and> \<not> StringInSlice k acc then acc @ [k] else acc) []
       (keys_of old @ keys_of new)"

text \<open>The checks before anything is changed.\<close>

definition volatile_unchanged :: "strmap \<Rightarrow> strmap \<Rightarrow> bool" where
  "volatile_unchanged old new \<longleftrightarrow>
     list_all (\<lambda>(k, v). HasPrefix k ''volatile.'' \<longrightarrow> mget old k = v) new
     \<and> list_all (\<lambda>(k, v). HasPrefix k ''volatile.'' \<longrightarrow> mget new k = v) old"

definition update_checks :: "lxc_env \<Rightarrow> ContainerArgs \<Rightarrow> bool \<Rightarrow> unit lxc_op" where
  "update_checks env args userRequested =
     seqS (checkS (containerValidConfig (e_lxc21 env) (e_os_idmap env) (Some (Config args)) False False))
     (bindS (hostS env) (\<lambda>h.
     seqS (checkS (containerValidDevices h (Some (ct_Devices args)) False False))
     (bindS (dbS Profiles_list) (\<lambda>profiles.
     seqS (eachS (\<lambda>name. if StringInSlice name profiles then returnS () else failS (Msg (''Missing profile '' @ name)))
       (Profiles args))
     (seqS (whenS (Architecture args \<noteq> 0)
       (if Architecture args < 0 \<or> ArchitectureName (nat (Architecture args)) = None
        then failS (Msg ''Invalid architecture id'') else returnS ()))
     (bindS (readS l_config) (\<lambda>config.
     if userRequested \<and> \<not> volatile_unchanged config (Config args) then failS (Msg ''Volatile keys are read-only.'')
     else returnS ()))))))) "

definition update_fields :: "ContainerArgs \<Rightarrow> lxc \<Rightarrow> lxc" where
  "update_fields args s =
     s\<lparr>l_architecture := Architecture args, l_ephemeral := Ephemeral args, l_config := Config args,
       l_devices := ct_Devices args, l_profiles := Profiles args, l_shared := False\<rparr>"

text \<open>\<^verbatim>\<open>json.Marshal\<close> of the entries.\<close>

definition json_entry :: "IdmapEntry \<Rightarrow> string" where
  "json_entry e =
     (let q = [char_of (34 :: nat)];
          flag = (\<lambda>name b. q @ name @ q @ '':'' @ (if b then ''true'' else ''false''));
          number = (\<lambda>name v. q @ name @ q @ '':'' @ dec_of_int v)
      in ''{'' @ join_with '','' [flag ''Isuid'' (Isuid e), flag ''Isgid'' (Isgid e), number ''Hostid'' (Hostid e),
           number ''Nsid'' (Nsid e), number ''Maprange'' (Maprange e)] @ ''}'')"

definition json_idmap :: "IdmapSet \<Rightarrow> string" where
  "json_idmap m = ''['' @ join_with '','' (map json_entry m) @ '']''"

definition idmap_keys :: "string list" where
  "idmap_keys = [''security.idmap.isolated'', ''security.idmap.base'', ''security.idmap.size'', ''raw.idmap'',
     ''security.privileged'']"

definition new_idmap :: "lxc_env \<Rightarrow> ((IdmapSet \<times> int) option) lxc_op" where
  "new_idmap env =
     bindS (readS id) (\<lambda>s.
     if IsPrivileged s then returnS None
     else case e_os_idmap env of
       None \<Rightarrow> failS GoPanic
     | Some os \<Rightarrow>
         bindS (sumS NoIdmap (findIdmap (e_entry_sorter env)
           \<lparr>os_idmap = os, al_names = e_others env (l_calls s), al_load = e_load env (l_calls s)\<rparr> (e_name env)
           (mget (l_xconfig s) ''security.idmap.isolated'') (mget (l_xconfig s) ''security.idmap.base'')
           (mget (l_xconfig s) ''security.idmap.size'') (mget (l_xconfig s) ''raw.idmap''))) (\<lambda>r. returnS (Some r)))"

definition update_idmap :: "lxc_env \<Rightarrow> string list \<Rightarrow> unit lxc_op" where
  "update_idmap env changed =
     whenS (list_ex (\<lambda>k. StringInSlice k changed) idmap_keys)
       (bindS (new_idmap env) (\<lambda>found.
        modifyS (\<lambda>s. s\<lparr>l_config :=
            AList.update ''volatile.idmap.base'' (dec_of_int (case found of None \<Rightarrow> 0 | Some (m, base) \<Rightarrow> base))
              (AList.update ''volatile.idmap.next'' (case found of None \<Rightarrow> ''[]'' | Some (m, base) \<Rightarrow> json_idmap m) (l_config s)),
          l_idmapset := None\<rparr>)))"

definition is_root :: "Device \<Rightarrow> bool" where
  "is_root m \<longleftrightarrow> mget m ''type'' = ''disk'' \<and> mget m ''path'' = ''/''"

definition first_root :: "Devices \<Rightarrow> Device" where
  "first_root devs = (case find (\<lambda>(k, m). is_root m) devs of None \<Rightarrow> [] | Some (k, m) \<Rightarrow> m)"

definition update_quota :: "lxc_env \<Rightarrow> Devices \<Rightarrow> Devices \<Rightarrow> unit lxc_op" where
  "update_quota env oldDevices addDevices =
     eachS (\<lambda>(k, m). whenS (is_root m \<and> mget m ''size'' \<noteq> mget (first_root oldDevices) ''size'')
       (bindS (sumS SizeError (ParseByteSizeString (mget m ''size''))) (\<lambda>bytes. doS env (SetQuota bytes)))) addDevices"

section \<open>Live changes of the devices\<close>

definition live_remove :: "lxc_env \<Rightarrow> string \<times> Device \<Rightarrow> unit lxc_op" where
  "live_remove env km = (case km of (k, m) \<Rightarrow>
     if StringInSlice (mget m ''type'') [''unix-char'', ''unix-block''] then doS env (RemoveUnix m)
     else if mget m ''type'' = ''disk'' \<and> mget m ''path'' \<noteq> ''/'' then removeDiskDevice env m
     else if mget m ''type'' = ''nic'' then removeNetworkDevice env k m
     else returnS ())"

definition is_data_disk :: "Device \<Rightarrow> bool" where
  "is_data_disk m \<longleftrightarrow> mget m ''type'' = ''disk'' \<and> mget m ''path'' \<noteq> ''/''"

definition live_add :: "lxc_env \<Rightarrow> string \<times> Device \<Rightarrow> unit lxc_op" where
  "live_add env km = (case km of (k, m) \<Rightarrow>
     if StringInSlice (mget m ''type'') [''unix-char'', ''unix-block''] then doS env (InsertUnix k m)
     else if is_data_disk m then returnS ()
     else if mget m ''type'' = ''nic'' then insertNetworkDevice env k m
     else returnS ())"

definition live_update :: "lxc_env \<Rightarrow> string list \<Rightarrow> string \<times> Device \<Rightarrow> unit lxc_op" where
  "live_update env diff km = (case km of (k, m) \<Rightarrow>
     whenS (mget m ''type'' = ''nic'' \<and> list_ex (\<lambda>v. StringInSlice v diff) containerNetworkLimitKeys)
       (setNetworkLimits env k m))"

definition live_disk_limits :: "lxc_env \<Rightarrow> unit lxc_op" where
  "live_disk_limits env =
     bindS (diskLimitsS env) (\<lambda>diskLimits.
     eachS (\<lambda>(block, limit).
       seqS (CGroupSet env ''blkio.throttle.read_bps_device'' (block @ '' '' @ dec_of_int (readBps limit)))
       (seqS (CGroupSet env ''blkio.throttle.read_iops_device'' (block @ '' '' @ dec_of_int (readIops limit)))
       (seqS (CGroupSet env ''blkio.throttle.write_bps_device'' (block @ '' '' @ dec_of_int (writeBps limit)))
       (CGroupSet env ''blkio.throttle.write_iops_device'' (block @ '' '' @ dec_of_int (writeIops limit)))))) diskLimits)"

definition live_devices :: "lxc_env \<Rightarrow> device_changes \<Rightarrow> unit lxc_op" where
  "live_devices env ch =
     seqS (eachS (live_remove env) (rmlist ch))
     (seqS (eachS (live_add env) (addlist ch))
     (seqS (addDiskDevices (e_path_sorter env) (filter (\<lambda>(k, m). is_data_disk m) (addlist ch)) (insertDiskDevice env))
     (seqS (eachS (live_update env (updateDiff ch)) (updatelist ch))
     (whenS (list_ex (\<lambda>(k, m). mget m ''type'' = ''disk'') (updatelist ch) \<and> cgBlkio env) (live_disk_limits env)))))"

definition update_live :: "lxc_env \<Rightarrow> Devices \<Rightarrow> string list \<Rightarrow> device_changes \<Rightarrow> unit lxc_op" where
  "update_live env oldDevices changed ch =
     bindS (IsRunning env) (\<lambda>running.
     whenS running
       (bindS (readS l_xdevices) (\<lambda>devs.
        let newRootfs = (case find (\<lambda>k. is_root (device_or_empty devs k)) (DeviceNames (e_sorter env) devs) of
              None \<Rightarrow> [] | Some k \<Rightarrow> device_or_empty devs k) in
        if mget (first_root oldDevices) ''source'' \<noteq> mget newRootfs ''source''
        then failS (Msg ''Cannot change the rootfs path of a running container'')
        else seqS (eachS (live_key_change env) changed) (live_devices env ch))))"

section \<open>The end of the update\<close>

text \<open>The keys of devices that are gone, or that no longer need them.\<close>

definition stale_key :: "lxc_env \<Rightarrow> Devices \<Rightarrow> string \<Rightarrow> bool" where
  "stale_key env devs k = (case volatile_parts k of
     None \<Rightarrow> False
   | Some (dev, field) \<Rightarrow>
       let netNames = filter (\<lambda>n. mget (device_or_empty devs n) ''type'' = ''nic'') (DeviceNames (e_sorter env) devs) in
       StringInSlice field [''name'', ''hwaddr'', ''host_name'']
       \<and> \<not> (StringInSlice dev netNames \<and> mget (device_or_empty devs dev) field = []))"

definition clean_volatile :: "lxc_env \<Rightarrow> unit lxc_op" where
  "clean_volatile env = modifyS (\<lambda>s.
     let gone = filter (stale_key env (l_xdevices s)) (keys_of (l_config s)) in
     s\<lparr>l_config := filter (\<lambda>(k, v). k \<notin> set gone) (l_config s), l_xconfig := filter (\<lambda>(k, v). k \<notin> set gone) (l_xconfig s)\<rparr>)"

definition write_back :: "int \<Rightarrow> lxc \<Rightarrow> (lxd_db, unit) dbop" where
  "write_back i s = in_tx (
     bindD (ContainerConfigClear i) (\<lambda>_.
     bindD (ContainerConfigInsert i (l_config s)) (\<lambda>_.
     bindD (ContainerProfilesInsert i (l_profiles s)) (\<lambda>_.
     bindD (DevicesAdd OContainer i (l_devices s)) (\<lambda>_.
     ContainerUpdate i (l_architecture s) (l_ephemeral s))))))"

definition update_store :: "lxc_env \<Rightarrow> unit lxc_op" where
  "update_store env = bindS (readS id) (\<lambda>s. dbS (write_back (e_id env) s))"

definition update_changes :: "lxc_env \<Rightarrow> lxc \<Rightarrow> unit lxc_op" where
  "update_changes env old =
     bindS (readS id) (\<lambda>s.
     let changed = changed_keys (l_xconfig old) (l_xconfig s);
         ch = Device_Lists.Update (l_xdevices old) (l_xdevices s) in
     seqS (checkS (containerValidConfig (e_lxc21 env) (e_os_idmap env) (Some (l_xconfig s)) False True))
     (bindS (hostS env) (\<lambda>h.
     seqS (checkS (containerValidDevices h (Some (l_xdevices s)) False True))
     (seqS (modifyS (\<lambda>s. s\<lparr>l_cc := None\<rparr>))
     (seqS (initLXC env)
     (seqS (whenS (StringInSlice ''raw.apparmor'' changed \<or> StringInSlice ''security.nesting'' changed) (doS env AAParse))
     (seqS (update_idmap env changed)
     (seqS (update_quota env (l_xdevices old) (addlist ch))
     (seqS (update_live env (l_xdevices old) changed ch)
     (clean_volatile env))))))))))"

definition update_body :: "lxc_env \<Rightarrow> ContainerArgs \<Rightarrow> lxc \<Rightarrow> unit lxc_op" where
  "update_body env args old =
     seqS (modifyS (update_fields args))
     (seqS expandConfigS
     (seqS expandDevicesS
     (seqS (update_changes env old)
     (update_store env))))"

text \<open>The deferred function: the copies are put back, which share no maps.\<close>

definition restore_fields :: "lxc \<Rightarrow> lxc \<Rightarrow> lxc" where
  "restore_fields old s =
     s\<lparr>l_architecture := l_architecture old, l_ephemeral := l_ephemeral old, l_xconfig := l_xconfig old,
       l_xdevices := l_xdevices old, l_config := l_config old, l_devices := l_devices old, l_profiles := l_profiles old,
       l_shared := False, l_cc := None\<rparr>"

definition undoChanges :: "lxc_env \<Rightarrow> lxc \<Rightarrow> unit lxc_op" where
  "undoChanges env old =
     seqS (modifyS (restore_fields old)) (seqS (ignoreS (initLXC env)) (schedulerTrigger env))"

definition with_defaults :: "ContainerArgs \<Rightarrow> lxc \<Rightarrow> ContainerArgs" where
  "with_defaults args s = (if Architecture args = 0 then args\<lparr>Architecture := l_architecture s\<rparr> else args)"

definition Update_container :: "lxc_env \<Rightarrow> ContainerArgs \<Rightarrow> bool \<Rightarrow> unit lxc_op" where
  "Update_container env args0 userRequested s =
     (let args = with_defaults args0 s in
      case update_checks env args userRequested s of
        (Inl e, s1) \<Rightarrow> (Inl e, s1)
      | (Inr _, s1) \<Rightarrow> (case update_body env args s1 s1 of
          (Inr _, s2) \<Rightarrow> (Inr (), s2)
        | (Inl e, s2) \<Rightarrow> (Inl e, snd (undoChanges env s1 s2))))"

text \<open>One key, which is set in the object before the update starts.\<close>

definition ConfigKeySet :: "lxc_env \<Rightarrow> string \<Rightarrow> string \<Rightarrow> unit lxc_op" where
  "ConfigKeySet env key val =
     seqS (modifyS (\<lambda>s. s\<lparr>l_config := AList.update key val (l_config s)\<rparr>))
     (bindS (readS id) (\<lambda>s. Update_container env
       \<lparr>Id = 0, Architecture = l_architecture s, BaseImage = [], Config = l_config s, CreationDate = 0, Ctype = 0,
        ct_Devices = l_devices s, Ephemeral = l_ephemeral s, Name = [], Profiles = l_profiles s, Stateful = False\<rparr> False))"

section \<open>Guarantees of the operations on a running container\<close>

text \<open>None of them changes more of the object than \<open>initLXC\<close> does.\<close>

lemma guar_need_running [guar_intros]: "guar (settles env) (need_running env failed)"
  unfolding need_running_def by (intro guar_intros)

lemma guar_commands [guar_intros]:
  "guar (settles env') (run_or env c failed)" "guar (settles env') (deviceRemoveInterface env nic)"
  "guar (settles env') (deviceNextVeth env)"
  unfolding run_or_def deviceRemoveInterface_def deviceNextVeth_def by (intro guar_intros)+

lemma guar_run_else [guar_intros]: "guar (settles env') (run_else_remove env c nic failed)"
  unfolding run_else_remove_def by (auto intro!: guar_intros split: sum.split)

lemma guar_create_nic [guar_intros]:
  "guar (settles env') (create_veth env m n)" "guar (settles env') (createNetworkDevice env m)"
proof -
  show *: "guar (settles env') (create_veth env m n)" for n unfolding create_veth_def Let_def by (intro guar_intros)
  show "guar (settles env') (createNetworkDevice env m)" unfolding createNetworkDevice_def Let_def by (intro guar_intros *)
qed

lemma guar_prepared [guar_intros]: "(\<And>m. guar (settles env) (k m)) \<Longrightarrow> guar (settles env) (prepared env name m0 k)"
  unfolding prepared_def by (auto intro!: guar_intros split: sum.split)

lemma guar_network [guar_intros]:
  "guar (settles env) (insertNetworkDevice env name m)" "guar (settles env) (removeNetworkDevice env name m)"
  unfolding insertNetworkDevice_def removeNetworkDevice_def by (intro guar_intros)+

lemma guar_disk [guar_intros]:
  "guar (settles env') (createDiskDevice env m)" "guar (settles env) (insertDiskDevice env m)"
  "guar (settles env) (removeDiskDevice env m)"
proof -
  show *: "guar (settles env') (createDiskDevice env m)" for env' unfolding createDiskDevice_def Let_def by (intro guar_intros)
  show "guar (settles env) (insertDiskDevice env m)" unfolding insertDiskDevice_def Let_def by (intro guar_intros *)
  show "guar (settles env) (removeDiskDevice env m)"
    unfolding removeDiskDevice_def Let_def by (auto intro!: guar_intros split: sum.split)
qed

lemma guar_foldl: "(\<And>acc x. guar R acc \<Longrightarrow> guar R (f acc x)) \<Longrightarrow> guar R acc \<Longrightarrow> guar R (foldl f acc xs)"
  by (induction xs arbitrary: acc) simp_all

lemma guar_priorities [guar_intros]: "guar (settles env) (set_priorities env n netifs)"
  unfolding set_priorities_def by (rule guar_foldl) (intro guar_intros, assumption, intro guar_intros)

lemma guar_priority [guar_intros]: "guar (settles env) (setNetworkPriority env)"
  unfolding setNetworkPriority_def by (intro guar_intros)

lemma guar_running_veth [guar_intros]: "guar (settles env') (running_veth env name is)"
  by (induction env name "is" rule: running_veth.induct)
    (auto intro!: guar_intros simp: running_item_def split: sum.split list.split)

lemma guar_configured_veth [guar_intros]: "guar (settles env) (configured_veth env name ks)"
  by (induction env name ks rule: configured_veth.induct) (auto intro!: guar_intros simp: Let_def)

lemma guar_host_interface [guar_intros]: "guar (settles env) (getHostInterface env name)"
  unfolding getHostInterface_def by (auto intro!: guar_intros split: option.split)

lemma guar_tc [guar_intros]:
  "guar (settles env') (bit_rate l)" "guar (settles env') (set_ingress env v n)" "guar (settles env') (set_egress env v n)"
  unfolding bit_rate_def set_ingress_def set_egress_def by (intro guar_intros)+

lemma guar_network_limits [guar_intros]: "guar (settles env) (setNetworkLimits env name m)"
  unfolding setNetworkLimits_def Let_def by (auto intro!: guar_intros split: sum.split prod.split)

lemma guar_reverting [guar_intros]: "guar (settles env) rv \<Longrightarrow> guar (settles env) m \<Longrightarrow> guar (settles env) (reverting rv m)"
  unfolding reverting_def by (auto intro!: guar_intros split: sum.split)

lemma guar_memory_parts [guar_intros]:
  "guar (settles env) (cgroup_or_empty env k)" "guar (settles env) (revertMemory env a b c)"
  "guar (settles env) (memory_writes env m en sw)" "guar (settles env) (live_memory_string env m)"
  unfolding cgroup_or_empty_def revertMemory_def restore_cgroup_def memory_writes_def live_memory_string_def
  by (intro guar_intros)+

lemma guar_live_parts [guar_intros]:
  "guar (settles env) (live_memory env)" "guar (settles env) (live_swappiness env)"
  "guar (settles env) (live_disk_priority env)" "guar (settles env) (live_processes env v)"
  "guar (settles env') (schedulerTrigger env)" "guar (settles env') (load_modules env v)"
  unfolding live_memory_def live_swappiness_def live_disk_priority_def live_processes_def schedulerTrigger_def
    load_modules_def Let_def
  by (intro guar_intros)+

lemma guar_live_cpu [guar_intros]: "guar (settles env) (live_cpu env)"
  unfolding live_cpu_def by (auto intro!: guar_intros split: prod.split)

lemma guar_live_key [guar_intros]: "guar (settles env) (live_key_change env key)"
  unfolding live_key_change_def by (intro guar_intros)

lemma guar_live_disk_limits [guar_intros]: "guar (settles env) (live_disk_limits env)"
  unfolding live_disk_limits_def by (auto intro!: guar_intros split: prod.split)

lemma guar_live_device [guar_intros]:
  "guar (settles env) (live_remove env km)" "guar (settles env) (live_add env km)"
  "guar (settles env) (live_update env diff km)"
  by (cases km; simp add: live_remove_def live_add_def live_update_def guar_intros)+

lemma guar_live_devices [guar_intros]: "guar (settles env) (live_devices env ch)"
  unfolding live_devices_def addDiskDevices_def by (intro guar_intros)

lemma guar_live [guar_intros]: "guar (settles env) (update_live env old changed ch)"
  unfolding update_live_def Let_def by (intro guar_intros)

lemma guar_quota [guar_intros]: "guar (settles env') (update_quota env old add)"
  unfolding update_quota_def by (auto intro!: guar_intros split: prod.split)

section \<open>Failed updates\<close>

text \<open>Operations that look at the host and the database.\<close>

definition looks :: "lxc \<Rightarrow> lxc \<Rightarrow> bool" where
  "looks s s' \<longleftrightarrow> (\<exists>cs c. s' = s\<lparr>l_calls := cs, l_db := c\<rparr> \<and> data c = data (l_db s))"

interpretation looking: calling looks
proof
  fix s t u :: lxc
  show "looks s s" unfolding looks_def by (intro exI [of _ "l_calls s"] exI [of _ "l_db s"]) simp
  show "looks s u" if st: "looks s t" and tu: "looks t u"
  proof -
    from st obtain cs c where 1: "t = s\<lparr>l_calls := cs, l_db := c\<rparr>" "data c = data (l_db s)" by (auto simp: looks_def)
    from tu obtain cs' c' where 2: "u = t\<lparr>l_calls := cs', l_db := c'\<rparr>" "data c' = data (l_db t)" by (auto simp: looks_def)
    have "u = s\<lparr>l_calls := cs', l_db := c'\<rparr>" "data c' = data (l_db s)" using 1 2 by simp_all
    then show ?thesis unfolding looks_def by blast
  qed
  show "looks s (s\<lparr>l_calls := l_calls s @ cs\<rparr>)" for cs
    unfolding looks_def by (intro exI [of _ "l_calls s @ cs"] exI [of _ "l_db s"]) simp
qed

text \<open>The database has at most the new rows of network devices.\<close>

definition adds_rows :: "lxc_env \<Rightarrow> lxc \<Rightarrow> lxc \<Rightarrow> bool" where
  "adds_rows env s s' \<longleftrightarrow> nic_rows (e_id env) (data (l_db s)) (data (l_db s'))"

interpretation adding: calling "adds_rows env" for env
proof
  fix s t u
  show "adds_rows env s s" by (simp add: adds_rows_def)
  show "adds_rows env s u" if "adds_rows env s t" "adds_rows env t u" using that nic_rows_trans unfolding adds_rows_def by blast
  show "adds_rows env s (s\<lparr>l_calls := l_calls s @ cs\<rparr>)" for cs by (simp add: adds_rows_def)
qed

lemma settles_adds: "guar (settles env) m \<Longrightarrow> guar (adds_rows env) m"
  by (erule guar_weaken) (simp add: settles_def adds_rows_def)

lemma guar_db_read:
  assumes "\<And>P. keeps P m" shows "guar looks (dbS m)" "guar (adds_rows env) (dbS m)"
proof -
  have "data (snd (m c)) = data c" for c using assms [of "\<lambda>d. d = data c"] by (simp add: keeps_def)
  then have same: "data (l_db (snd (dbS m s))) = data (l_db s) \<and> snd (dbS m s) = s\<lparr>l_db := l_db (snd (dbS m s))\<rparr>" for s
    by (cases "m (l_db s)"; cases "fst (m (l_db s))") (simp_all add: dbS_def, metis snd_conv, metis snd_conv)
  show "guar looks (dbS m)"
    unfolding guar_def looks_def
    using same by (metis lxc.surjective lxc.update_convs(12) lxc.update_convs(13))
  show "guar (adds_rows env) (dbS m)" using same by (simp add: guar_def adds_rows_def)
qed

lemma keeps_reads:
  "keeps P Profiles_list" "keeps P (ProfileConfig p)" "keeps P (Devices_of w p)"
proof -
  show "keeps P Profiles_list" unfolding Profiles_list_def by (intro keeps_intros)
  show "keeps P (ProfileConfig p)" unfolding ProfileConfig_def by (auto intro!: keeps_intros)
  have cfg: "keeps P (dbDeviceConfig w i)" for w i unfolding dbDeviceConfig_def by (intro keeps_intros)
  have "keeps P (read_devices w rows m)" for rows m
    by (induction w rows m rule: read_devices.induct)
      (auto intro!: keeps_intros cfg simp: liftD_def split: sum.split)
  then show "keeps P (Devices_of w p)" unfolding Devices_of_def by (intro keeps_intros)
qed

lemma guar_update_checks [guar_intros]: "guar looks (update_checks env args user)"
  unfolding update_checks_def by (intro guar_intros guar_db_read keeps_reads)

lemma guar_merge [guar_intros]: "(\<And>p P. keeps P (load p)) \<Longrightarrow> guar (adds_rows env) (merge_profiles load ps acc)"
  by (induction load ps acc rule: merge_profiles.induct) (auto intro!: guar_intros guar_db_read)

lemma guar_adds_modify:
  "(\<And>s. data (l_db (f s)) = data (l_db s)) \<Longrightarrow> guar (adds_rows env) (modifyS f)"
  by (simp add: guar_def modifyS_def adds_rows_def)

lemma guar_expand [guar_intros]: "guar (adds_rows env) expandConfigS" "guar (adds_rows env) expandDevicesS"
  unfolding expandConfigS_def expandDevicesS_def by (intro guar_intros guar_adds_modify keeps_reads; simp)+

lemma guar_update_idmap [guar_intros]: "guar (adds_rows env') (update_idmap env changed)"
  unfolding update_idmap_def new_idmap_def
  by (auto intro!: guar_intros guar_adds_modify split: option.split)

lemma guar_update_changes [guar_intros]: "guar (adds_rows env) (update_changes env old)"
  unfolding update_changes_def clean_volatile_def Let_def
  by (intro guar_intros guar_adds_modify; (simp; fail | rule settles_adds, intro guar_intros)?)

lemma write_back_fails: "dbS (write_back i s0) s = (Inl e, s') \<Longrightarrow> data (l_db s') = data (l_db s)"
  by (auto simp: dbS_def write_back_def dest: failed_tx_unchanged split: prod.splits sum.splits)

lemma guar_update_fields [guar_intros]: "guar (adds_rows env) (modifyS (update_fields args))"
  by (rule guar_adds_modify) (simp add: update_fields_def)

lemma update_body_fails:
  assumes "update_body env args old s = (Inl e, s')"
  shows "nic_rows (e_id env) (data (l_db s)) (data (l_db s'))"
proof -
  let ?m = "seqS (modifyS (update_fields args)) (seqS expandConfigS (seqS expandDevicesS (update_changes env old)))"
  have assoc: "update_body env args old = seqS ?m (update_store env)"
    by (auto simp: update_body_def seqS_def bindS_def fun_eq_iff split: prod.splits sum.splits)
  have "adds_rows env t (snd (?m t))" for t using guar_def [of "adds_rows env" ?m] by (auto intro!: guar_intros)
  then have m: "adds_rows env t t'" if "?m t = (r, t')" for t r t' using that by (metis snd_conv)
  from assms have "adds_rows env s s'"
    unfolding assoc seqS_def [of ?m]
  proof (cases rule: bindS_cases)
    case (first e') show ?thesis by (rule m [OF first(1)])
  next
    case (both u s1)
    then have "data (l_db s') = data (l_db s1)"
      using write_back_fails by (auto simp: update_store_def bindS_def readS_def)
    then show ?thesis using m [OF both(1)] by (simp add: adds_rows_def)
  qed
  then show ?thesis by (simp add: adds_rows_def)
qed

lemma undo_run:
  assumes "undoChanges env old s = (r, s')"
  shows "settles env (restore_fields old s) s'"
proof -
  have "guar (settles env) (seqS (ignoreS (initLXC env)) (schedulerTrigger env))" by (intro guar_intros)
  moreover have "seqS (ignoreS (initLXC env)) (schedulerTrigger env) (restore_fields old s) = (r, s')"
    using assms by (simp add: undoChanges_def seqS_def bindS_def modifyS_def)
  ultimately show ?thesis by (rule guarD)
qed

text \<open>The object after a failed update.\<close>

lemma failed_update:
  assumes "Update_container env args user s = (Inl e, s')"
  shows "l_architecture s' = l_architecture s \<and> l_ephemeral s' = l_ephemeral s \<and> l_profiles s' = l_profiles s
    \<and> l_devices s' = l_devices s \<and> maxed (l_xdevices s) (l_xdevices s') \<and> filled (l_config s) (l_config s')
    \<and> nic_changes (l_xconfig s) (l_xconfig s') \<and> nic_rows (e_id env) (data (l_db s)) (data (l_db s'))"
proof -
  let ?a = "with_defaults args s"
  obtain r1 s1 where c: "update_checks env ?a user s = (r1, s1)" by (cases "update_checks env ?a user s")
  then have "looks s s1" by (rule guarD [OF guar_update_checks])
  then obtain cs db where s1: "s1 = s\<lparr>l_calls := cs, l_db := db\<rparr>" "data db = data (l_db s)" by (auto simp: looks_def)
  show ?thesis
  proof (cases r1)
    case (Inl e1)
    then have "s' = s1" using assms c by (simp add: Update_container_def Let_def)
    then show ?thesis using s1 by simp
  next
    case (Inr u)
    obtain r2 s2 where b: "update_body env ?a s1 s1 = (r2, s2)" by (cases "update_body env ?a s1 s1")
    with Inr assms c have r2: "r2 = Inl e" "s' = snd (undoChanges env s1 s2)"
      by (cases r2; simp add: Update_container_def Let_def)+
    have rows: "nic_rows (e_id env) (data (l_db s)) (data (l_db s2))"
      using update_body_fails [of env ?a s1 s1 e s2] b r2(1) s1 by simp
    obtain r3 where "undoChanges env s1 s2 = (r3, s')" using r2(2) by (cases "undoChanges env s1 s2") simp
    then have "settles env (restore_fields s1 s2) s'" by (rule undo_run)
    then have "settles env (s2\<lparr>l_architecture := l_architecture s, l_ephemeral := l_ephemeral s, l_xconfig := l_xconfig s,
        l_xdevices := l_xdevices s, l_config := l_config s, l_devices := l_devices s, l_profiles := l_profiles s,
        l_shared := False, l_cc := None\<rparr>) s'"
      by (simp add: restore_fields_def s1)
    then show ?thesis using nic_rows_trans [OF rows] by (simp add: settles_def)
  qed
qed

section \<open>Successful updates\<close>

lemma bindS_Inr:
  assumes "bindS m k s = (Inr x, s2)" obtains y s1 where "m s = (Inr y, s1)" "k y s1 = (Inr x, s2)"
  using assms by (cases rule: bindS_cases) auto

lemma seqS_Inr:
  assumes "seqS m k s = (Inr x, s2)" obtains s1 where "m s = (Inr (), s1)" "k s1 = (Inr x, s2)"
  using assms unfolding seqS_def by (elim bindS_Inr) simp

lemma modifyS_Inr: "modifyS f s = (Inr x, s') \<Longrightarrow> s' = f s"
  by (simp add: modifyS_def)

lemma readS_Inr: "bindS (readS f) k s = k (f s) s"
  by (simp add: bindS_def readS_def)

text \<open>The keys of network devices, and what an update does to the requested configuration.\<close>

definition nic_field_key :: "string \<Rightarrow> bool" where
  "nic_field_key k \<longleftrightarrow> (case volatile_parts k of
     None \<Rightarrow> False | Some (dev, field) \<Rightarrow> field \<in> {''name'', ''hwaddr'', ''host_name''})"

definition kept :: "strmap \<Rightarrow> strmap \<Rightarrow> bool" where
  "kept c c' \<longleftrightarrow> (\<forall>k. map_of c' k = map_of c k
     \<or> k \<in> {''volatile.idmap.next'', ''volatile.idmap.base''}
     \<or> nic_key k \<and> mget c k = [] \<or> nic_field_key k \<and> map_of c' k = None)"

lemma map_of_without: "map_of (filter (\<lambda>(k, v). k \<notin> S) m) k = (if k \<in> S then None else map_of m k)"
  by (induction m) auto

lemma stale_device_key: "stale_key env devs k \<Longrightarrow> nic_field_key k"
  by (auto simp: stale_key_def nic_field_key_def Let_def StringInSlice_set split: option.splits)

lemma kept_chain:
  assumes "filled c0 c1" "\<And>k. k \<notin> {''volatile.idmap.next'', ''volatile.idmap.base''} \<Longrightarrow> map_of c2 k = map_of c1 k"
    and "filled c2 c3" "\<And>k. k \<in> S \<Longrightarrow> nic_field_key k"
  shows "kept c0 (filter (\<lambda>(k, v). k \<notin> S) c3)"
  unfolding kept_def
proof (intro allI)
  fix k
  let ?c4 = "filter (\<lambda>(k, v). k \<notin> S) c3"
  show "map_of ?c4 k = map_of c0 k \<or> k \<in> {''volatile.idmap.next'', ''volatile.idmap.base''}
     \<or> nic_key k \<and> mget c0 k = [] \<or> nic_field_key k \<and> map_of ?c4 k = None"
  proof (cases "k \<in> S \<or> k \<in> {''volatile.idmap.next'', ''volatile.idmap.base''}")
    case True then show ?thesis using assms(4) by (auto simp: map_of_without)
  next
    case False
    have 4: "map_of ?c4 k = map_of c3 k" using False by (simp add: map_of_without)
    have 2: "map_of c2 k = map_of c1 k" using assms(2) False by blast
    have 3: "map_of c3 k = map_of c2 k \<or> nic_key k \<and> mget c2 k = []" using assms(3) unfolding filled_def by blast
    have 1: "map_of c1 k = map_of c0 k \<or> nic_key k \<and> mget c0 k = []" using assms(1) unfolding filled_def by blast
    show ?thesis using 1 2 3 4 by (metis mget_eq)
  qed
qed

text \<open>What the part between the expansion and the write to the database does when it succeeds.\<close>

definition idmap_set :: "lxc \<Rightarrow> lxc \<Rightarrow> bool" where
  "idmap_set s s' \<longleftrightarrow> (\<exists>c m. s' = s\<lparr>l_config := c, l_idmapset := m\<rparr>
     \<and> (\<forall>k. k \<notin> {''volatile.idmap.next'', ''volatile.idmap.base''} \<longrightarrow> map_of c k = map_of (l_config s) k))"

lemma update_idmap_Inr:
  assumes "update_idmap env changed s = (Inr u, s')" shows "idmap_set s s'"
proof (cases "list_ex (\<lambda>k. StringInSlice k changed) idmap_keys")
  case False
  then have "s' = s" using assms by (auto simp: update_idmap_def whenS_def returnS_def)
  then show ?thesis unfolding idmap_set_def by (intro exI [of _ "l_config s"] exI [of _ "l_idmapset s"]) simp
next
  case True
  have same: "s1 = s" if "new_idmap env s = (r, s1)" for r s1
    using that by (auto simp: new_idmap_def bindS_def readS_def returnS_def failS_def sumS_def split: if_splits option.splits
        sum.splits prod.splits)
  from assms True obtain found s1 where "new_idmap env s = (Inr found, s1)"
    and "modifyS (\<lambda>s. s\<lparr>l_config :=
            AList.update ''volatile.idmap.base'' (dec_of_int (case found of None \<Rightarrow> 0 | Some (m, base) \<Rightarrow> base))
              (AList.update ''volatile.idmap.next'' (case found of None \<Rightarrow> ''[]'' | Some (m, base) \<Rightarrow> json_idmap m) (l_config s)),
          l_idmapset := None\<rparr>) s1 = (Inr u, s')"
    unfolding update_idmap_def whenS_def by (simp only: if_True) (erule bindS_Inr)
  then obtain b n where "s' = s\<lparr>l_config := AList.update ''volatile.idmap.base'' b (AList.update ''volatile.idmap.next'' n (l_config s)),
      l_idmapset := None\<rparr>"
    using same modifyS_Inr by blast
  then show ?thesis unfolding idmap_set_def
    by (intro exI [of _ "AList.update ''volatile.idmap.base'' b (AList.update ''volatile.idmap.next'' n (l_config s))"]
        exI [of _ None]) (simp add: update_conv')
qed

lemma seqS_settles:
  assumes "seqS m k s = (Inr x, s2)" "guar (settles env) m" "settles env s0 s"
  obtains s1 where "settles env s0 s1" "k s1 = (Inr x, s2)"
proof -
  from assms(1) obtain s1 where "m s = (Inr (), s1)" "k s1 = (Inr x, s2)" by (rule seqS_Inr)
  with guarD [OF assms(2)] settling.follows [OF assms(3)] that show ?thesis by blast
qed

lemma update_changes_run:
  assumes "update_changes env old s = (Inr u, s')"
  obtains s1 s2 s3 where "settles env s s1" "idmap_set s1 s2" "settles env s2 s3"
    "s' = snd (clean_volatile env s3)"
proof -
  let ?changed = "changed_keys (l_xconfig old) (l_xconfig s)"
  let ?ch = "Device_Lists.Update (l_xdevices old) (l_xdevices s)"
  let ?rest = "seqS (update_quota env (l_xdevices old) (addlist ?ch))
    (seqS (update_live env (l_xdevices old) ?changed ?ch) (clean_volatile env))"
  let ?k5 = "seqS (update_idmap env ?changed) ?rest"
  let ?k4 = "seqS (whenS (StringInSlice ''raw.apparmor'' ?changed \<or> StringInSlice ''security.nesting'' ?changed) (doS env AAParse)) ?k5"
  let ?k3 = "seqS (modifyS (\<lambda>s. s\<lparr>l_cc := None\<rparr>)) (seqS (initLXC env) ?k4)"
  let ?k2 = "bindS (hostS env) (\<lambda>h. seqS (checkS (containerValidDevices h (Some (l_xdevices s)) False True)) ?k3)"
  have "seqS (checkS (containerValidConfig (e_lxc21 env) (e_os_idmap env) (Some (l_xconfig s)) False True)) ?k2 s = (Inr u, s')"
    using assms unfolding update_changes_def readS_Inr Let_def id_def by simp
  then obtain t1 where t1: "settles env s t1" "?k2 t1 = (Inr u, s')"
    by (rule seqS_settles [OF _ settling.guar_pure(6) settling.stays])
  from t1(2) have "seqS (checkS (containerValidDevices (e_host env (l_calls t1)) (Some (l_xdevices s)) False True)) ?k3 t1 = (Inr u, s')"
    by (simp add: hostS_def readS_Inr)
  then obtain t2 where t2: "settles env s t2" "?k3 t2 = (Inr u, s')"
    by (rule seqS_settles [OF _ settling.guar_pure(6) t1(1)])
  from t2(2) obtain t3 where t3: "settles env s t3" "seqS (initLXC env) ?k4 t3 = (Inr u, s')"
    by (rule seqS_settles [OF _ guar_building(2) t2(1)])
  from t3(2) obtain t4 where t4: "settles env s t4" "?k4 t4 = (Inr u, s')"
    by (rule seqS_settles [OF _ settling_init.guar_initLXC t3(1)])
  have "guar (settles env) (whenS b (doS env AAParse))" for b by (intro guar_intros)
  with t4 obtain t5 where t5: "settles env s t5" "?k5 t5 = (Inr u, s')" by (blast intro: seqS_settles)
  from t5(2) obtain t6 where t6: "update_idmap env ?changed t5 = (Inr (), t6)" "?rest t6 = (Inr u, s')" by (rule seqS_Inr)
  from t6(2) obtain t7 where t7: "settles env t6 t7" "seqS (update_live env (l_xdevices old) ?changed ?ch) (clean_volatile env) t7 = (Inr u, s')"
    by (rule seqS_settles [OF _ guar_quota settling.stays])
  from t7(2) obtain t8 where t8: "settles env t6 t8" "clean_volatile env t8 = (Inr u, s')"
    by (rule seqS_settles [OF _ guar_live t7(1)])
  show ?thesis by (rule that [OF t5(1) update_idmap_Inr [OF t6(1)] t8(1)]) (simp add: t8(2))
qed

lemma write_back_stores:
  assumes "db_ok d" "does (write_back i s) d u d'"
  shows "config_of OContainer d' j = (if j = i then map_of (l_config s) else config_of OContainer d j)"
    "devices_of OContainer d' j = (if j = i then abs_devices (l_devices s) else devices_of OContainer d j)"
    "profile_names d' j = (if j = i then l_profiles s else profile_names d j)"
    "containers d' = map (\<lambda>r. if cr_id r = i
       then r\<lparr>cr_architecture := l_architecture s, cr_ephemeral := if l_ephemeral s then 1 else 0\<rparr> else r) (containers d)"
    "config_of OProfile d' = config_of OProfile d" "devices_of OProfile d' = devices_of OProfile d" "profiles d' = profiles d"
proof -
  let ?rest = "bindD (ContainerConfigInsert i (l_config s)) (\<lambda>_. bindD (ContainerProfilesInsert i (l_profiles s)) (\<lambda>_.
     bindD (DevicesAdd OContainer i (l_devices s)) (\<lambda>_. ContainerUpdate i (l_architecture s) (l_ephemeral s))))"
  have "does (bindD (ContainerConfigClear i) (\<lambda>_. ?rest)) d u d'"
    using assms(2) unfolding write_back_def by (rule does_txE)
  then obtain d1 where d1: "does (ContainerConfigClear i) d () d1" and rest: "does ?rest d1 u d'" by (rule does_seq)
  have ok1: "db_ok d1" by (rule does_keeps [OF keeps_ContainerConfigClear d1 assms(1)])
  note cl = clear_views [OF assms(1) d1]
  have "config_of OContainer d1 i = Map.empty" "devices_of OContainer d1 i = Map.empty" using cl(1,2) by simp_all
  from this cl(6) rest obtain d2 where k: "does (ContainerUpdate i (l_architecture s) (l_ephemeral s)) d2 u d'"
    and v: "containers d2 = containers d1" "profiles d2 = profiles d1"
      "\<And>j. config_of OContainer d2 j = (if j = i then map_of (l_config s) else config_of OContainer d1 j)"
      "\<And>j. devices_of OContainer d2 j = (if j = i then abs_devices (l_devices s) else devices_of OContainer d1 j)"
      "\<And>j. profile_names d2 j = (if j = i then l_profiles s else profile_names d1 j)"
      "config_of OProfile d2 = config_of OProfile d1" "devices_of OProfile d2 = devices_of OProfile d1"
    by (rule sections_written [OF ok1]) blast
  have d': "d' = update_containers (\<lambda>r. cr_id r = i)
      (\<lambda>r. r\<lparr>cr_architecture := l_architecture s, cr_ephemeral := if l_ephemeral s then 1 else 0\<rparr>) d2"
    using does_after_fault [OF k [unfolded ContainerUpdate_def]] by (auto elim: does_execE)
  have same: "config_of w d' = config_of w d2 \<and> devices_of w d' = devices_of w d2" for w
    by (rule views_frame) (simp_all add: d' update_containers_def)
  have names: "profile_names d' = profile_names d2" by (rule profile_names_frame) (simp_all add: d' update_containers_def)
  show "config_of OContainer d' j = (if j = i then map_of (l_config s) else config_of OContainer d j)"
    "devices_of OContainer d' j = (if j = i then abs_devices (l_devices s) else devices_of OContainer d j)"
    "profile_names d' j = (if j = i then l_profiles s else profile_names d j)"
    using same v cl names by simp_all
  show "config_of OProfile d' = config_of OProfile d" "devices_of OProfile d' = devices_of OProfile d"
    using same v cl by simp_all
  show "profiles d' = profiles d" using v cl by (simp add: d' update_containers_def)
  show "containers d' = map (\<lambda>r. if cr_id r = i
       then r\<lparr>cr_architecture := l_architecture s, cr_ephemeral := if l_ephemeral s then 1 else 0\<rparr> else r) (containers d)"
    using v cl by (simp add: d' update_containers_def)
qed

lemma nic_rows_others:
  assumes "nic_rows i d d'"
  shows "w = OProfile \<or> j \<noteq> i \<Longrightarrow> config_of w d' j = config_of w d j" "devices_of w d' = devices_of w d"
    "profile_names d' = profile_names d" "containers d' = containers d" "profiles d' = profiles d" "db_ok d \<Longrightarrow> db_ok d'"
proof -
  obtain new where d': "d' = d\<lparr>of_containers := (of_containers d)\<lparr>config_rows := config_rows (of_containers d) @ new\<rparr>\<rparr>"
    and new: "\<forall>(own, k, v) \<in> set new. own = i \<and> nic_key k"
    using assms by (auto simp: nic_rows_def)
  have none: "filter (\<lambda>(own, k, v). own = j) new = []" if "j \<noteq> i" for j using new that by (fastforce simp: filter_empty_conv)
  show "config_of w d' j = config_of w d j" if "w = OProfile \<or> j \<noteq> i"
    using that none by (cases w) (auto simp: config_of_def d')
  have "device_map (t\<lparr>config_rows := x\<rparr>) = device_map t" for t :: owner_tables and x
    by (simp add: device_map_def fun_eq_iff)
  then show "devices_of w d' = devices_of w d"
    by (intro ext, cases w) (simp_all add: devices_of_def own_devices_def d')
  show "profile_names d' = profile_names d" by (rule profile_names_frame) (simp_all add: d')
  show "containers d' = containers d" "profiles d' = profiles d" by (simp_all add: d')
  show "db_ok d'" if "db_ok d" using that assms by (simp add: nic_rows_def)
qed

lemma merge_profiles_looks: "(\<And>p P. keeps P (load p)) \<Longrightarrow> guar looks (merge_profiles load ps acc)"
  by (induction load ps acc rule: merge_profiles.induct) (auto intro!: guar_intros guar_db_read)

lemma expand_run:
  assumes "expandConfigS s = (Inr u, s1)" "expandDevicesS s1 = (Inr u', s2)"
  obtains xc ds cs c where "s2 = s\<lparr>l_xconfig := xc, l_xdevices := assign_all ds (l_devices s), l_shared := True,
      l_calls := cs, l_db := c\<rparr>" "data c = data (l_db s)"
proof -
  from assms(1) obtain m t where m: "merge_profiles ProfileConfig (l_profiles s) [] s = (Inr m, t)"
    and "modifyS (\<lambda>s. s\<lparr>l_xconfig := assign_all m (l_config s)\<rparr>) t = (Inr u, s1)"
    unfolding expandConfigS_def readS_Inr by (rule bindS_Inr)
  then have s1: "s1 = t\<lparr>l_xconfig := assign_all m (l_config t)\<rparr>" by (simp add: modifyS_def)
  have "looks s t" by (rule guarD [OF merge_profiles_looks m]) (rule keeps_reads)
  then obtain cs c where t: "t = s\<lparr>l_calls := cs, l_db := c\<rparr>" "data c = data (l_db s)" by (auto simp: looks_def)
  from assms(2) obtain ds t' where ds: "merge_profiles (Devices_of OProfile) (l_profiles s1) [] s1 = (Inr ds, t')"
    and "modifyS (\<lambda>s. s\<lparr>l_xdevices := assign_all ds (l_devices s), l_shared := True\<rparr>) t' = (Inr u', s2)"
    unfolding expandDevicesS_def readS_Inr by (rule bindS_Inr)
  then have s2: "s2 = t'\<lparr>l_xdevices := assign_all ds (l_devices t'), l_shared := True\<rparr>" by (simp add: modifyS_def)
  have "looks s1 t'" by (rule guarD [OF merge_profiles_looks ds]) (rule keeps_reads)
  then obtain cs' c' where t': "t' = s1\<lparr>l_calls := cs', l_db := c'\<rparr>" "data c' = data (l_db s1)" by (auto simp: looks_def)
  show ?thesis
    by (rule that [where xc = "assign_all m (l_config t)" and ds = ds and cs = cs' and c = c'])
      (use t t' s1 s2 in simp_all)
qed

lemma dbS_Inr: "dbS m s = (Inr x, s') \<Longrightarrow> does m (data (l_db s)) x (data (l_db s')) \<and> s' = s\<lparr>l_db := l_db s'\<rparr>"
  by (auto simp: dbS_def intro: doesI split: prod.splits sum.splits)

lemma bindS_looks:
  assumes "bindS m k s = (Inr x, s2)" "guar looks m" "looks s0 s"
  obtains y s1 where "looks s0 s1" "k y s1 = (Inr x, s2)"
proof -
  from assms(1) obtain y s1 where "m s = (Inr y, s1)" "k y s1 = (Inr x, s2)" by (rule bindS_Inr)
  with guarD [OF assms(2)] looking.follows [OF assms(3)] that show ?thesis by blast
qed

lemma checked_volatile:
  assumes "update_checks env args user s = (Inr u, s')"
  shows "user \<longrightarrow> volatile_unchanged (l_config s) (Config args)"
proof -
  note run = assms [unfolded update_checks_def seqS_def]
  obtain s1 where 1: "looks s s1" "bindS (hostS env) (\<lambda>h.
      bindS (checkS (containerValidDevices h (Some (ct_Devices args)) False False)) (\<lambda>_.
      bindS (dbS Profiles_list) (\<lambda>profiles.
      bindS (eachS (\<lambda>name. if StringInSlice name profiles then returnS () else failS (Msg (''Missing profile '' @ name)))
        (Profiles args)) (\<lambda>_.
      bindS (whenS (Architecture args \<noteq> 0)
        (if Architecture args < 0 \<or> ArchitectureName (nat (Architecture args)) = None
         then failS (Msg ''Invalid architecture id'') else returnS ())) (\<lambda>_.
      bindS (readS l_config) (\<lambda>config.
      if user \<and> \<not> volatile_unchanged config (Config args) then failS (Msg ''Volatile keys are read-only.'')
      else returnS ())))))) s1 = (Inr u, s')"
    using run by (rule bindS_looks [OF _ looking.guar_pure(6) looking.stays]) blast
  from 1(2) obtain h s2 where 2: "looks s s2" "bindS (checkS (containerValidDevices h (Some (ct_Devices args)) False False)) (\<lambda>_.
      bindS (dbS Profiles_list) (\<lambda>profiles.
      bindS (eachS (\<lambda>name. if StringInSlice name profiles then returnS () else failS (Msg (''Missing profile '' @ name)))
        (Profiles args)) (\<lambda>_.
      bindS (whenS (Architecture args \<noteq> 0)
        (if Architecture args < 0 \<or> ArchitectureName (nat (Architecture args)) = None
         then failS (Msg ''Invalid architecture id'') else returnS ())) (\<lambda>_.
      bindS (readS l_config) (\<lambda>config.
      if user \<and> \<not> volatile_unchanged config (Config args) then failS (Msg ''Volatile keys are read-only.'')
      else returnS ()))))) s2 = (Inr u, s')"
    by (rule bindS_looks [OF _ looking.guar_host(1) 1(1)]) blast
  have each: "guar looks (eachS (\<lambda>name. if StringInSlice name ps then returnS () else failS (Msg (''Missing profile '' @ name))) names)"
    "guar looks (whenS b (if c then failS (Msg t) else returnS ()))" "guar looks (dbS Profiles_list)" for ps names b c t
    by (intro guar_intros guar_db_read keeps_reads)+
  obtain s3 where 3: "looks s s3" "bindS (readS l_config) (\<lambda>config.
      if user \<and> \<not> volatile_unchanged config (Config args) then failS (Msg ''Volatile keys are read-only.'')
      else returnS ()) s3 = (Inr u, s')"
    using 2(2)
    by (elim bindS_looks [OF _ looking.guar_pure(6) 2(1)], elim bindS_looks [OF _ each(3)] bindS_looks [OF _ each(1)]
        bindS_looks [OF _ each(2)]) blast+
  then show ?thesis by (auto simp: readS_Inr looks_def failS_def split: if_splits)
qed

text \<open>The whole run of an update that succeeds: what is in memory, and what was written.\<close>

lemma container_update_run:
  assumes "Update_container env args user s = (Inr u, s')" "gomap_ok (ct_Devices args)"
  obtains s4 where "kept (Config args) (l_config s4)" "maxed (ct_Devices args) (l_devices s4)"
    "l_architecture s4 = Architecture (with_defaults args s)" "l_ephemeral s4 = Ephemeral args" "l_profiles s4 = Profiles args"
    "nic_rows (e_id env) (data (l_db s)) (data (l_db s4))"
    "s' = s4\<lparr>l_db := l_db s'\<rparr>" "does (write_back (e_id env) s4) (data (l_db s4)) () (data (l_db s'))"
    "user \<longrightarrow> volatile_unchanged (l_config s) (Config args)"
proof -
  let ?a = "with_defaults args s"
  have a: "Config ?a = Config args" "ct_Devices ?a = ct_Devices args" "Profiles ?a = Profiles args" "Ephemeral ?a = Ephemeral args"
    by (simp_all add: with_defaults_def)
  obtain r1 s1 where c: "update_checks env ?a user s = (r1, s1)" by (cases "update_checks env ?a user s")
  with assms(1) have r1: "r1 = Inr ()" by (cases r1) (simp_all add: Update_container_def Let_def)
  obtain r2 s2 where b: "update_body env ?a s1 s1 = (r2, s2)" by (cases "update_body env ?a s1 s1")
  with assms(1) c r1 have "r2 = Inr ()" "s2 = s'" by (cases r2; simp add: Update_container_def Let_def)+
  with b have body: "update_body env ?a s1 s1 = (Inr (), s')" by simp
  from c have "looks s s1" by (rule guarD [OF guar_update_checks])
  then obtain cs db where s1: "s1 = s\<lparr>l_calls := cs, l_db := db\<rparr>" "data db = data (l_db s)" by (auto simp: looks_def)
  from body obtain t1 where "modifyS (update_fields ?a) s1 = (Inr (), t1)"
    and e: "seqS expandConfigS (seqS expandDevicesS (seqS (update_changes env s1) (update_store env))) t1 = (Inr (), s')"
    unfolding update_body_def by (rule seqS_Inr)
  then have t1: "t1 = update_fields ?a s1" by (simp add: modifyS_Inr)
  from e obtain t2 where e1: "expandConfigS t1 = (Inr (), t2)"
    and e2: "seqS expandDevicesS (seqS (update_changes env s1) (update_store env)) t2 = (Inr (), s')" by (rule seqS_Inr)
  from e2 obtain t3 where e3: "expandDevicesS t2 = (Inr (), t3)"
    and e4: "seqS (update_changes env s1) (update_store env) t3 = (Inr (), s')" by (rule seqS_Inr)
  from e4 obtain s4 where ch: "update_changes env s1 t3 = (Inr (), s4)" and st: "update_store env s4 = (Inr (), s')" by (rule seqS_Inr)
  from e1 e3 obtain xc ds cs' c' where t3: "t3 = t1\<lparr>l_xconfig := xc, l_xdevices := assign_all ds (l_devices t1), l_shared := True,
      l_calls := cs', l_db := c'\<rparr>" "data c' = data (l_db t1)" by (rule expand_run)
  have f: "l_config t3 = Config args" "l_devices t3 = ct_Devices args" "l_architecture t3 = Architecture ?a"
    "l_ephemeral t3 = Ephemeral args" "l_profiles t3 = Profiles args" "l_shared t3" "l_xdevices t3 = assign_all ds (ct_Devices args)"
    "data (l_db t3) = data (l_db s)"
    using t3 s1 by (simp_all add: t1 update_fields_def a)
  have linked: "linked t3" using assms(2) by (simp add: linked_def f map_of_assign_all)
  from ch obtain u1 u2 u3 where u: "settles env t3 u1" "idmap_set u1 u2" "settles env u2 u3" "s4 = snd (clean_volatile env u3)"
    by (rule update_changes_run)
  from u(2) obtain cc m where u2: "u2 = u1\<lparr>l_config := cc, l_idmapset := m\<rparr>"
    and cc: "\<And>k. k \<notin> {''volatile.idmap.next'', ''volatile.idmap.base''} \<Longrightarrow> map_of cc k = map_of (l_config u1) k"
    by (auto simp: idmap_set_def)
  let ?S = "set (filter (stale_key env (l_xdevices u3)) (keys_of (l_config u3)))"
  have s4: "s4 = u3\<lparr>l_config := filter (\<lambda>(k, v). k \<notin> ?S) (l_config u3), l_xconfig := filter (\<lambda>(k, v). k \<notin> ?S) (l_xconfig u3)\<rparr>"
    using u(4) by (simp add: clean_volatile_def modifyS_def Let_def)
  have "kept (l_config t3) (filter (\<lambda>(k, v). k \<notin> ?S) (l_config u3))"
    by (rule kept_chain [where ?c2.0 = cc])
      (use u(1,3) cc stale_device_key in \<open>auto simp: settles_def u2\<close>)
  then have 1: "kept (Config args) (l_config s4)" by (simp add: s4 f)
  have "linked u1" "maxed (l_devices t3) (l_devices u1)" using u(1) linked by (simp_all add: settles_def)
  moreover have "linked u2" using \<open>linked u1\<close> by (simp add: linked_def u2)
  ultimately have 2: "maxed (ct_Devices args) (l_devices s4)"
    using u(3) maxed_trans by (auto simp: settles_def u2 s4 f)
  have 3: "l_architecture s4 = Architecture ?a" "l_ephemeral s4 = Ephemeral args" "l_profiles s4 = Profiles args"
    using u(1,3) by (simp_all add: settles_def u2 s4 f)
  have 4: "nic_rows (e_id env) (data (l_db s)) (data (l_db s4))"
    using u(1,3) nic_rows_trans by (auto simp: settles_def u2 s4 f)
  from st have st': "dbS (write_back (e_id env) s4) s4 = (Inr (), s')" by (simp add: update_store_def readS_Inr)
  have 5: "s' = s4\<lparr>l_db := l_db s'\<rparr>" "does (write_back (e_id env) s4) (data (l_db s4)) () (data (l_db s'))"
    using dbS_Inr [OF st'] by blast+
  have 6: "user \<longrightarrow> volatile_unchanged (l_config s) (Config args)" using checked_volatile c r1 a by metis
  show ?thesis by (rule that [OF 1 2 3 4 5 6])
qed

section \<open>A container to try\<close>

definition demo_replies :: "call list \<Rightarrow> call \<Rightarrow> string list option" where
  "demo_replies cs c = (if c = LxcMonitorState then Some [''STOPPED''] else if c = RandomHwaddr then Some [''00:16:3e:00:00:01''] else Some [])"

definition demo_lxc_env :: lxc_env where
  "demo_lxc_env = \<lparr>e_id = 1, e_name = ''c1'', e_snapshot = False, e_fromHook = False, e_lxd_dir = [], e_execPath = ''/usr/bin/lxd'',
     e_template = [], e_hostpath = id, e_sha256 = id, e_aaProfile = [], e_lxc21 = True,
     e_os_idmap = Some [raw_entry True True 100000 0 65536], e_architectures = [2], e_others = (\<lambda>_. Some []),
     e_load = (\<lambda>_ _. None), e_debug = False, e_verbose = False, e_userns = False, aaStacking = False, aaStacked = False,
     aaAvailable = False, aaConfined = False, aaAdmin = False, cgBlkio = False, cgCpu = False, cgDevices = False,
     cgMemory = False, cgNetPrio = False, cgPids = True, cgSwap = False, e_sorter = sort_by, e_entry_sorter = sort_by,
     e_path_sorter = sort_by, e_fuel = 1, e_ninety = dec_of_int, e_unmarshal = (\<lambda>_. None), e_host = (\<lambda>_. bare_host),
     e_reply = demo_replies\<rparr>"

definition demo_c1_db :: lxd_db where
  "demo_c1_db = demo_db\<lparr>containers := [\<lparr>cr_id = 1, cr_name = ''c1'', cr_architecture = 2, cr_type = 0, cr_ephemeral = 0,
       cr_stateful = 0, cr_creation_date = 0\<rparr>], next_container := 2\<rparr>"

definition demo_lxc :: lxc where
  "demo_lxc = \<lparr>l_architecture = 2, l_ephemeral = False, l_config = [], l_devices = [], l_profiles = [], l_xconfig = [],
     l_xdevices = [], l_shared = True, l_idmapset = None, l_cc = None, l_building = None, l_calls = [], l_db = calm demo_c1_db\<rparr>"

definition demo_update :: "strmap \<Rightarrow> Devices \<Rightarrow> ContainerArgs" where
  "demo_update config devs = \<lparr>Id = 0, Architecture = 0, BaseImage = [], Config = config, CreationDate = 0, Ctype = 0,
     ct_Devices = devs, Ephemeral = False, Name = [], Profiles = [''default''], Stateful = False\<rparr>"

section \<open>What an update does\<close>

lemmas op_simps = seqS_def bindS_def returnS_def failS_def readS_def modifyS_def whenS_def checkS_def hostS_def dbS_def
  ignoreS_def attemptS_def doS_def callS_def confS_def relabelS_def numS_def sumS_def
lemmas init_defs = initLXC_def init_build_def init_sections_def init_base_def init_bind_mount_def init_lxcfs_def
  init_devices_cgroup_def init_nesting_def init_logging_def init_architecture_def init_hooks_def init_security_def init_idmap_def
  init_environment_def init_memory_limit_def init_swappiness_def init_cpu_def init_disk_def init_processes_def init_raw_lxc_def

lemma demo_item: "l_building s = Some items \<Longrightarrow> lxcSetConfigItem demo_lxc_env k v s
   = (Inr (), s\<lparr>l_calls := l_calls s @ [SetConfigItem k v], l_building := Some (items @ [(k, v)])\<rparr>)"
  by (simp add: lxcSetConfigItem_def op_simps lxc_key_def demo_lxc_env_def demo_replies_def)

lemma demo_fields:
  "e_snapshot demo_lxc_env = False" "e_fromHook demo_lxc_env = False" "cgDevices demo_lxc_env = False" "cgMemory demo_lxc_env = False"
  "cgCpu demo_lxc_env = False" "cgBlkio demo_lxc_env = False" "cgPids demo_lxc_env = True" "aaAvailable demo_lxc_env = False"
  "e_userns demo_lxc_env = False" "e_host demo_lxc_env cs = bare_host" "e_reply demo_lxc_env = demo_replies"
  "e_architectures demo_lxc_env = [2]" "e_sorter demo_lxc_env = sort_by" "e_lxc21 demo_lxc_env = True" "e_id demo_lxc_env = 1"
  "e_os_idmap demo_lxc_env = Some [raw_entry True True 100000 0 65536]" "e_hostpath demo_lxc_env = id"
  "aaStacking demo_lxc_env = False" "e_template demo_lxc_env = []"
  by (simp_all add: demo_lxc_env_def)

lemma demo_host: "h_exists bare_host p = False" "h_isdir bare_host p = False" "deviceIsBlockdev bare_host p = False"
  by (simp_all add: bare_host_def deviceIsBlockdev_def)

lemma IsTrue_Nil [simp]: "\<not> IsTrue []"
  by (simp add: IsTrue_def ToLower_def)

lemmas demo_init_simps = init_defs op_simps demo_item demo_fields demo_host demo_replies_def IsPrivileged_def mget_def
  bind_mounts_def IsNesting_def arch_personality_def ArchitecturePersonality_def architecturePersonalities_def IdmapSet_of_def
  NextIdmapSet_def set_ToLxcString_def ToLxcString_def raw_entry_def add_line_def HasPrefix_def DeviceNames_def sort_by_def
  device_or_empty_def Let_def init_disk_device_def init_rootfs_def TrimPrefix_def lxc_line_def

definition demo_root :: Devices where
  "demo_root = [(''root'', [(''type'', ''disk''), (''path'', ''/'')])]"

lemma demo_valid:
  "containerValidConfig True os (Some [(''user.x'', ''1'')]) False False = None"
  "containerValidConfig True (Some os1) (Some [(''user.x'', ''1'')]) False True = None"
  "containerValidDevices bare_host (Some demo_root) False e = None"
proof -
  show "containerValidConfig True os (Some [(''user.x'', ''1'')]) False False = None"
    "containerValidConfig True (Some os1) (Some [(''user.x'', ''1'')]) False True = None"
    by (simp_all add: containerValidConfig_def containerValidConfigKey_def key_switch_def HasPrefix_def HasSuffix_def)
  show "containerValidDevices bare_host (Some demo_root) False e = None"
    by (cases e) (simp_all add: demo_root_def containerValidDevices_def check_device_def check_disk_def mget_def
        containerValidDeviceConfigKey_def containerGetRootDiskDevice_def isRootDiskDevice_def)
qed

abbreviation demo_args2 :: ContainerArgs where
  "demo_args2 \<equiv> demo_update [(''user.x'', ''1'')] demo_root"

lemma demo_checks: "update_checks demo_lxc_env (with_defaults demo_args2 demo_lxc) user demo_lxc = (Inr (), demo_lxc)"
  by (simp add: update_checks_def volatile_unchanged_def HasPrefix_def op_simps demo_fields demo_update_def with_defaults_def demo_lxc_def demo_valid
      Profiles_list_def demo_c1_db_def demo_db_def ArchitectureName_def architectureNames_def demo_lxc_env_def)

definition demo_mid :: lxc where
  "demo_mid = demo_lxc\<lparr>l_config := [(''user.x'', ''1'')], l_devices := demo_root, l_profiles := [''default''],
     l_xconfig := [(''user.x'', ''1'')], l_xdevices := demo_root\<rparr>"

lemma demo_expand:
  "update_body demo_lxc_env (with_defaults demo_args2 demo_lxc) demo_lxc demo_lxc
   = seqS (update_changes demo_lxc_env demo_lxc) (update_store demo_lxc_env) demo_mid"
proof -
  have "assign_all [] demo_root = demo_root" by (simp add: assign_all_def demo_root_def)
  then show ?thesis
    by (simp add: update_body_def op_simps demo_update_def with_defaults_def demo_lxc_def demo_mid_def
        demo_c1_db_def demo_db_def update_fields_def expandConfigS_def expandDevicesS_def ProfileConfig_def Devices_of_def
        bindD_def relabelD_def assign_all_def)
qed

lemma demo_changes: "\<exists>cs b cc. update_changes demo_lxc_env (demo_lxc\<lparr>l_db := db0\<rparr>) (demo_mid\<lparr>l_db := db\<rparr>)
    = (Inr (), demo_mid\<lparr>l_calls := cs, l_building := b, l_cc := cc, l_idmapset := e_os_idmap demo_lxc_env, l_db := db\<rparr>)"
proof -
  have "list_ex (\<lambda>k. StringInSlice k [''user.x'']) idmap_keys = False" by (simp add: idmap_keys_def)
  moreover have "changed_keys [] [(''user.x'', ''1'')] = [''user.x'']" by (simp add: changed_keys_def mget_def)
  moreover have "live_key_change demo_lxc_env ''user.x'' = (\<lambda>s. (Inr (), s))"
    by (simp add: live_key_change_def confS_def fun_eq_iff bindS_def readS_def returnS_def HasPrefix_def)
  moreover have "addlist (Device_Lists.Update [] demo_root) = demo_root"
    by (simp add: Device_Lists.Update_def demo_root_def ContainsDevice_def update_step_def deviceEquals_def strip_live_def live_keys_def
        device_or_empty_def Let_def mget_def)
  ultimately show ?thesis
    by (simp add: demo_valid [unfolded demo_root_def] update_changes_def demo_init_simps demo_mid_def demo_lxc_def update_idmap_def update_quota_def
        update_live_def IsRunning_def State_of_def clean_volatile_def stale_key_def volatile_parts_def demo_root_def
        is_root_def first_root_def)
qed

lemma demo_runs: "\<exists>s'. Update_container demo_lxc_env demo_args2 user demo_lxc = (Inr (), s')"
proof -
  obtain cs b cc where ch: "update_changes demo_lxc_env demo_lxc demo_mid
      = (Inr (), demo_mid\<lparr>l_calls := cs, l_building := b, l_cc := cc, l_idmapset := e_os_idmap demo_lxc_env\<rparr>)"
    using demo_changes [of "l_db demo_lxc" "l_db demo_mid"] by auto
  have "\<exists>d. write_back 1 (demo_mid\<lparr>l_calls := cs, l_building := b, l_cc := cc, l_idmapset := e_os_idmap demo_lxc_env\<rparr>)
      (calm demo_c1_db) = (Inr (), d)"
    by (simp add: write_back_def db_run_simps ContainerConfigClear_def ContainerConfigInsert_def ContainerProfilesInsert_def
        DevicesAdd_def ContainerUpdate_def demo_mid_def demo_lxc_def demo_c1_db_def demo_db_def calm_def drop_devices_def
        demo_root_def mget_def dbDeviceTypeToInt_def)
  then obtain d where "write_back 1 (demo_mid\<lparr>l_calls := cs, l_building := b, l_cc := cc, l_idmapset := e_os_idmap demo_lxc_env\<rparr>)
      (calm demo_c1_db) = (Inr (), d)" by blast
  then show ?thesis
    using ch by (simp add: Update_container_def demo_checks demo_expand update_store_def seqS_def bindS_def readS_def dbS_def
        demo_fields) (simp add: demo_mid_def demo_lxc_def)
qed

lemma demo_start: "db_ok (data (l_db demo_lxc))" "gomap_ok (ct_Devices demo_args2)"
  by (simp_all add: demo_lxc_def demo_c1_db_def demo_db_def calm_def db_ok_def ids_ok_def tables_ok_def links_ok_def
      demo_update_def demo_root_def)

text \<open>
  C5. After a successful update the database holds what the object holds: the configuration, the devices, the profiles in their
  order, the architecture and whether it is ephemeral; the other containers and the profiles keep all of theirs.
\<close>

theorem update_stores:
  assumes "db_ok (data (l_db s))" "gomap_ok (ct_Devices args)" "Update_container env args user s = (Inr u, s')"
  shows "config_of OContainer (data (l_db s')) (e_id env) = map_of (l_config s')
    \<and> devices_of OContainer (data (l_db s')) (e_id env) = abs_devices (l_devices s')
    \<and> profile_names (data (l_db s')) (e_id env) = Profiles args
    \<and> containers (data (l_db s')) = map (\<lambda>r. if cr_id r = e_id env
        then r\<lparr>cr_architecture := l_architecture s', cr_ephemeral := if Ephemeral args then 1 else 0\<rparr> else r) (containers (data (l_db s)))
    \<and> (\<forall>j. j \<noteq> e_id env \<longrightarrow> config_of OContainer (data (l_db s')) j = config_of OContainer (data (l_db s)) j
        \<and> devices_of OContainer (data (l_db s')) j = devices_of OContainer (data (l_db s)) j
        \<and> profile_names (data (l_db s')) j = profile_names (data (l_db s)) j)
    \<and> config_of OProfile (data (l_db s')) = config_of OProfile (data (l_db s))
    \<and> devices_of OProfile (data (l_db s')) = devices_of OProfile (data (l_db s))
    \<and> profiles (data (l_db s')) = profiles (data (l_db s))"
proof -
  from assms(3,2) obtain s4 where f: "l_ephemeral s4 = Ephemeral args" "l_profiles s4 = Profiles args"
    and rows: "nic_rows (e_id env) (data (l_db s)) (data (l_db s4))"
    and s': "s' = s4\<lparr>l_db := l_db s'\<rparr>" and run: "does (write_back (e_id env) s4) (data (l_db s4)) () (data (l_db s'))"
    by (rule container_update_run) blast
  note same = nic_rows_others [OF rows]
  note stored = write_back_stores [OF same(6) [OF assms(1)] run]
  have mem: "l_config s' = l_config s4" "l_devices s' = l_devices s4" "l_architecture s' = l_architecture s4" by (subst s', simp)+
  have profiles: "config_of OProfile (data (l_db s4)) = config_of OProfile (data (l_db s))" using same(1) by (intro ext) simp
  show ?thesis unfolding mem using stored same(1) same(2-5) f profiles by simp
qed

theorem update_stores_witness:
  "\<exists>s'. Update_container demo_lxc_env demo_args2 True demo_lxc = (Inr (), s')
     \<and> profile_names (data (l_db s')) 1 = [''default''] \<and> config_of OContainer (data (l_db s')) 1 = map_of (l_config s')"
proof -
  obtain s' where run: "Update_container demo_lxc_env demo_args2 True demo_lxc = (Inr (), s')" using demo_runs by blast
  have "Profiles demo_args2 = [''default'']" by (simp add: demo_update_def)
  then show ?thesis using update_stores [OF demo_start run] run by (simp add: demo_fields)
qed

text \<open>
  C14. The object after a successful update is what was requested: architecture, profiles and devices (disks with
  \<^verbatim>\<open>limits.max\<close> with the limits it stands for), and each key of the configuration, except the id map's, the keys of
  network devices that had no value, and the keys of devices that are gone.
\<close>

theorem update_keeps_request:
  assumes "gomap_ok (ct_Devices args)" "Update_container env args user s = (Inr u, s')"
  shows "kept (Config args) (l_config s') \<and> maxed (ct_Devices args) (l_devices s') \<and> l_profiles s' = Profiles args
    \<and> l_ephemeral s' = Ephemeral args
    \<and> l_architecture s' = (if Architecture args = 0 then l_architecture s else Architecture args)"
proof -
  from assms(2,1) obtain s4 where f: "kept (Config args) (l_config s4)" "maxed (ct_Devices args) (l_devices s4)"
    "l_architecture s4 = Architecture (with_defaults args s)" "l_ephemeral s4 = Ephemeral args" "l_profiles s4 = Profiles args"
    and s': "s' = s4\<lparr>l_db := l_db s'\<rparr>"
    by (rule container_update_run) blast
  have "l_config s' = l_config s4" "l_devices s' = l_devices s4" "l_architecture s' = l_architecture s4"
    "l_ephemeral s' = l_ephemeral s4" "l_profiles s' = l_profiles s4" by (subst s', simp)+
  then show ?thesis using f by (simp add: with_defaults_def)
qed

theorem update_keeps_request_witness:
  "\<exists>s'. Update_container demo_lxc_env demo_args2 True demo_lxc = (Inr (), s') \<and> map_of (l_config s') ''user.x'' = Some ''1''"
proof -
  obtain s' where run: "Update_container demo_lxc_env demo_args2 True demo_lxc = (Inr (), s')" using demo_runs by blast
  have no: "\<not> nic_key ''user.x''" "\<not> nic_field_key ''user.x''"
    by (simp_all add: nic_key_def nic_field_key_def volatile_parts_def HasPrefix_def)
  have "kept (Config demo_args2) (l_config s')" using update_keeps_request [OF demo_start(2) run] by simp
  then have "map_of (l_config s') ''user.x'' = Some ''1''"
    unfolding kept_def using no by (elim allE [of _ "''user.x''"]) (simp add: demo_update_def)
  then show ?thesis using run by blast
qed

text \<open>
  C10. A user cannot set the volatile keys: after an update that was requested by a user each of them has the value it had,
  except the id map's, the keys of network devices that had no value, and the keys of devices that are gone.
\<close>

theorem user_keeps_volatile:
  assumes "gomap_ok (ct_Devices args)" "Update_container env args True s = (Inr u, s')" "HasPrefix k ''volatile.''"
  shows "mget (l_config s') k = mget (l_config s) k \<or> k \<in> {''volatile.idmap.next'', ''volatile.idmap.base''}
    \<or> nic_key k \<and> mget (l_config s) k = [] \<or> nic_field_key k \<and> mget (l_config s') k = []"
proof -
  from assms(2,1) obtain s4 where f: "kept (Config args) (l_config s4)" and s': "s' = s4\<lparr>l_db := l_db s'\<rparr>"
    and vol: "True \<longrightarrow> volatile_unchanged (l_config s) (Config args)"
    by (rule container_update_run) blast
  have mem: "l_config s' = l_config s4" by (subst s') simp
  have "mget (Config args) k = mget (l_config s) k"
  proof (cases "map_of (Config args) k")
    case (Some v)
    then have "(k, v) \<in> set (Config args)" by (rule map_of_SomeD)
    then show ?thesis using vol assms(3) Some by (auto simp: volatile_unchanged_def list_all_iff mget_def)
  next
    case None
    then show ?thesis using vol assms(3) map_of_SomeD [of "l_config s" k]
      by (fastforce simp: volatile_unchanged_def list_all_iff mget_def split: option.splits)
  qed
  then show ?thesis using f unfolding kept_def mem by (metis mget_def option.simps(4) mget_eq)
qed

theorem user_keeps_volatile_witness:
  "\<exists>s'. Update_container demo_lxc_env demo_args2 True demo_lxc = (Inr (), s') \<and> mget (l_config s') ''volatile.last_state.power'' = []"
proof -
  obtain s' where run: "Update_container demo_lxc_env demo_args2 True demo_lxc = (Inr (), s')" using demo_runs by blast
  have "HasPrefix ''volatile.last_state.power'' ''volatile.''" "\<not> nic_key ''volatile.last_state.power''"
    "mget (l_config demo_lxc) ''volatile.last_state.power'' = []"
    by (simp_all add: nic_key_def HasPrefix_def HasSuffix_def demo_lxc_def)
  then show ?thesis using user_keeps_volatile [OF demo_start(2) run, of "''volatile.last_state.power''"] run by auto
qed

section \<open>What a failed update leaves\<close>

text \<open>
  C6. A failed update leaves no trace in the object: architecture, profiles and devices are those of before, the configuration
  has at most got the names and addresses of network devices that had none, and the database the rows that store them.
\<close>

theorem failed_update_restores:
  assumes "Update_container env args user s = (Inl e, s')"
  shows "l_architecture s' = l_architecture s \<and> l_ephemeral s' = l_ephemeral s \<and> l_profiles s' = l_profiles s
    \<and> l_devices s' = l_devices s \<and> maxed (l_xdevices s) (l_xdevices s') \<and> filled (l_config s) (l_config s')
    \<and> nic_changes (l_xconfig s) (l_xconfig s') \<and> nic_rows (e_id env) (data (l_db s)) (data (l_db s'))"
  using assms by (rule failed_update)

text \<open>A database that fails when the last transaction begins, after four statements.\<close>

definition demo_faults :: lxc where
  "demo_faults = demo_lxc\<lparr>l_db := \<lparr>data = demo_c1_db, trouble = [False, False, False, False, True]\<rparr>\<rparr>"

lemma demo_fails: "\<exists>e s'. Update_container demo_lxc_env demo_args2 user demo_faults = (Inl e, s')"
proof -
  let ?s1 = "demo_lxc\<lparr>l_db := \<lparr>data = demo_c1_db, trouble = [False, False, False, True]\<rparr>\<rparr>"
  let ?db = "\<lparr>data = demo_c1_db, trouble = [True]\<rparr>"
  have checks: "update_checks demo_lxc_env (with_defaults demo_args2 demo_faults) user demo_faults = (Inr (), ?s1)"
    by (simp add: update_checks_def volatile_unchanged_def HasPrefix_def op_simps demo_fields demo_update_def with_defaults_def
        demo_lxc_def demo_faults_def demo_valid Profiles_list_def queryD_def bindD_def faultD_def demo_c1_db_def demo_db_def
        ArchitectureName_def architectureNames_def demo_lxc_env_def)
  have "assign_all [] demo_root = demo_root" by (simp add: assign_all_def demo_root_def)
  then have body: "update_body demo_lxc_env (with_defaults demo_args2 demo_faults) ?s1 ?s1
      = seqS (update_changes demo_lxc_env ?s1) (update_store demo_lxc_env) (demo_mid\<lparr>l_db := ?db\<rparr>)"
    by (simp add: update_body_def op_simps demo_update_def with_defaults_def demo_lxc_def demo_mid_def demo_faults_def
        demo_c1_db_def demo_db_def update_fields_def expandConfigS_def expandDevicesS_def ProfileConfig_def Devices_of_def
        bindD_def relabelD_def assign_all_def queryD_def faultD_def returnD_def)
  obtain cs b cc where ch: "update_changes demo_lxc_env ?s1 (demo_mid\<lparr>l_db := ?db\<rparr>) = (Inr (), demo_mid\<lparr>l_calls := cs,
      l_building := b, l_cc := cc, l_idmapset := e_os_idmap demo_lxc_env, l_db := ?db\<rparr>)"
    using demo_changes by blast
  have "\<exists>e t. update_body demo_lxc_env (with_defaults demo_args2 demo_faults) ?s1 ?s1 = (Inl e, t)"
    unfolding body
    by (simp add: seqS_def bindS_def ch update_store_def readS_def dbS_def write_back_def in_tx_def faultD_def)
  then show ?thesis by (auto simp: Update_container_def checks)
qed

theorem failed_update_restores_witness:
  "\<exists>e s'. Update_container demo_lxc_env demo_args2 True demo_faults = (Inl e, s') \<and> l_devices s' = [] \<and> l_profiles s' = []"
proof -
  obtain e s' where run: "Update_container demo_lxc_env demo_args2 True demo_faults = (Inl e, s')" using demo_fails by blast
  show ?thesis using failed_update_restores [OF run] run by (auto simp: demo_faults_def demo_lxc_def)
qed

lemma nic_rows_config:
  assumes "nic_rows i d d'" "\<not> nic_key k" shows "config_of w d' j k = config_of w d j k"
proof -
  obtain new where d': "d' = d\<lparr>of_containers := (of_containers d)\<lparr>config_rows := config_rows (of_containers d) @ new\<rparr>\<rparr>"
    and new: "\<forall>(own, k, v) \<in> set new. own = i \<and> nic_key k"
    using assms(1) by (auto simp: nic_rows_def)
  have "map_of (map snd (filter (\<lambda>(own, k, v). own = j) new)) k = None"
    using new assms(2) by (fastforce simp: map_of_eq_None_iff)
  then show ?thesis by (cases w) (simp_all add: config_of_def d' map_add_def split: option.split)
qed

text \<open>
  C40. \<^verbatim>\<open>ConfigKeySet\<close> writes the key to the object before \<^verbatim>\<open>Update\<close> copies the configuration it may have to
  put back: when the update fails, the object has the new value and the database the old one.
\<close>

theorem ConfigKeySet_not_undone:
  assumes "ConfigKeySet env key val s = (Inl e, s')" "\<not> nic_key key"
  shows "map_of (l_config s') key = Some val
    \<and> config_of OContainer (data (l_db s')) (e_id env) key = config_of OContainer (data (l_db s)) (e_id env) key"
proof -
  let ?t = "s\<lparr>l_config := AList.update key val (l_config s)\<rparr>"
  from assms(1) obtain args where "Update_container env args False ?t = (Inl e, s')"
    by (simp add: ConfigKeySet_def seqS_def bindS_def modifyS_def readS_def)
  then have f: "filled (l_config ?t) (l_config s')" "nic_rows (e_id env) (data (l_db ?t)) (data (l_db s'))"
    using failed_update by blast+
  have "map_of (l_config s') key = Some val"
    using f(1) assms(2) unfolding filled_def by (elim allE [of _ key]) (simp add: update_conv')
  then show ?thesis using nic_rows_config [OF f(2) assms(2)] by simp
qed

theorem ConfigKeySet_not_undone_witness:
  "\<exists>e s'. ConfigKeySet demo_lxc_env ''user.x'' ''1'' demo_faults = (Inl e, s') \<and> map_of (l_config s') ''user.x'' = Some ''1''"
proof -
  have "containerValidDevices bare_host (Some []) False False = None" by (simp add: containerValidDevices_def)
  moreover have "containerValidDevices bare_host (Some []) False True \<noteq> None"
    by (simp add: containerValidDevices_def containerGetRootDiskDevice_def)
  moreover have "assign_all [] [(''user.x'', ''1'')] = [(''user.x'', ''1'')]" "assign_all [] ([] :: Devices) = []"
    by (simp_all add: assign_all_def)
  ultimately have "\<exists>e s'. ConfigKeySet demo_lxc_env ''user.x'' ''1'' demo_faults = (Inl e, s')"
    by (auto simp: ConfigKeySet_def Update_container_def update_checks_def op_simps demo_fields with_defaults_def demo_lxc_def
        demo_faults_def demo_valid Profiles_list_def queryD_def bindD_def faultD_def update_body_def update_fields_def
        expandConfigS_def expandDevicesS_def update_changes_def Let_def ArchitectureName_def
        architectureNames_def split: prod.split)
  then obtain e s' where run: "ConfigKeySet demo_lxc_env ''user.x'' ''1'' demo_faults = (Inl e, s')" by blast
  have "\<not> nic_key ''user.x''" by (simp add: nic_key_def HasPrefix_def)
  then show ?thesis using ConfigKeySet_not_undone [OF run] run by blast
qed

section \<open>Updates of stopped containers\<close>

text \<open>Operations that make no live call, and ones that keep the struct of liblxc.\<close>

definition quiet_calls :: "lxc \<Rightarrow> lxc \<Rightarrow> bool" where
  "quiet_calls s s' \<longleftrightarrow> (\<exists>new. l_calls s' = l_calls s @ new \<and> list_all (\<lambda>c. \<not> live_call c) new)"

definition keeps_struct :: "lxc \<Rightarrow> lxc \<Rightarrow> bool" where
  "keeps_struct s s' \<longleftrightarrow> (l_building s \<noteq> None \<longrightarrow> l_building s' \<noteq> None)"

interpretation quieting: guarantee quiet_calls
proof
  fix s t u :: lxc
  show "quiet_calls s s" by (simp add: quiet_calls_def)
  show "quiet_calls s u" if "quiet_calls s t" "quiet_calls t u"
    using that unfolding quiet_calls_def by (metis append.assoc list_all_append)
qed

interpretation building: calling keeps_struct
  by unfold_locales (auto simp: keeps_struct_def)

lemma quiet_ask [guar_intros]: "\<not> live_call c \<Longrightarrow> guar quiet_calls (callS env c)"
  by (simp add: guar_def callS_def quiet_calls_def)

lemma quiet_modify: "(\<And>s. l_calls (f s) = l_calls s) \<Longrightarrow> guar quiet_calls (modifyS f)"
  by (simp add: guar_def modifyS_def quiet_calls_def)

lemma struct_modify: "(\<And>s. l_building (f s) = l_building s \<or> l_building (f s) \<noteq> None) \<Longrightarrow> guar keeps_struct (modifyS f)"
  by (auto simp: guar_def modifyS_def keeps_struct_def) metis

lemma dbS_frame: "snd (dbS m s) = s\<lparr>l_db := l_db (snd (dbS m s))\<rparr>"
  by (auto simp: dbS_def split: prod.split sum.split)

lemma db_frames [guar_intros]: "guar quiet_calls (dbS m)" "guar keeps_struct (dbS m)"
  unfolding guar_def quiet_calls_def keeps_struct_def by (subst dbS_frame, simp)+

lemma fill_frames [guar_intros]:
  "guar quiet_calls (fillNetworkDevice env name m)" "guar keeps_struct (fillNetworkDevice env name m)"
proof -
  have q: "guar quiet_calls (nextHwaddr env)" "guar quiet_calls (nextInterfaceName env)"
    unfolding nextHwaddr_def nextInterfaceName_def by (auto intro!: guar_intros split: sum.split)
  have b: "guar keeps_struct (nextHwaddr env)" "guar keeps_struct (nextInterfaceName env)"
    unfolding nextHwaddr_def nextInterfaceName_def by (auto intro!: guar_intros split: sum.split)
  have fq: "guar quiet_calls (fill_key env key gen)" if "guar quiet_calls gen" for key gen
    unfolding fill_key_def updateKey_def
    by (auto intro!: guar_intros that quiet_modify simp: set_volatile_def split: sum.split)
  show "guar quiet_calls (fillNetworkDevice env name m)" unfolding fillNetworkDevice_def by (intro guar_intros fq q)
  have fb: "guar keeps_struct (fill_key env key gen)" if "guar keeps_struct gen" for key gen
    unfolding fill_key_def updateKey_def
    by (auto intro!: guar_intros that struct_modify simp: set_volatile_def split: sum.split)
  show "guar keeps_struct (fillNetworkDevice env name m)" unfolding fillNetworkDevice_def by (intro guar_intros fb b)
qed

lemma disk_frames: "guar quiet_calls (diskLimitsS env)" "guar keeps_struct (diskLimitsS env)"
  by (auto simp: guar_def diskLimitsS_def quiet_calls_def keeps_struct_def split: option.split prod.split)

interpretation quieting_init: preparing quiet_calls env for env
  by unfold_locales (auto intro!: guar_intros disk_frames quiet_modify)

interpretation building_init: preparing keeps_struct env for env
  by unfold_locales (auto intro!: guar_intros disk_frames struct_modify)

end
