(* ===== verification/Update_Live.thy ===== *)
theory Update_Live
  imports Container_Update
begin

text \<open>
  Two properties of whole runs: the update of a stopped container does not touch the running system, and a network device that
  \<^verbatim>\<open>fillNetworkDevice\<close> gives a name to gets one that no other device of the container has.
\<close>

section \<open>Stopped containers\<close>

text \<open>After a successful \<^verbatim>\<open>initLXC\<close> the struct exists, unless the container is a snapshot.\<close>

definition has_struct :: "lxc_env \<Rightarrow> lxc \<Rightarrow> bool" where
  "has_struct env s \<longleftrightarrow> e_snapshot env \<or> \<not> e_fromHook env \<and> l_cc s \<noteq> None"

lemma initLXC_struct:
  assumes "initLXC env s = (Inr u, s')" shows "has_struct env s'"
proof (cases "e_snapshot env \<or> l_cc s \<noteq> None")
  case True
  then show ?thesis using assms by (auto simp: has_struct_def initLXC_def returnS_def bindS_def readS_def failS_def split: if_splits)
next
  case False
  then have hook: "\<not> e_fromHook env" using assms by (auto simp: initLXC_def failS_def)
  from False have "init_build env s = (Inr u, s')" using assms by (auto simp: initLXC_def bindS_def readS_def failS_def split: if_splits)
  then obtain s1 where "seqS (modifyS (\<lambda>s. s\<lparr>l_building := Some []\<rparr>)) (seqS (init_sections env)
      (modifyS (\<lambda>s. s\<lparr>l_cc := l_building s\<rparr>))) s1 = (Inr u, s')"
    unfolding init_build_def by (rule seqS_Inr)
  then obtain s2 where "modifyS (\<lambda>s. s\<lparr>l_building := Some []\<rparr>) s1 = (Inr (), s2)"
    and rest: "seqS (init_sections env) (modifyS (\<lambda>s. s\<lparr>l_cc := l_building s\<rparr>)) s2 = (Inr u, s')" by (rule seqS_Inr)
  then have s2: "l_building s2 \<noteq> None" by (simp add: modifyS_def) auto
  from rest obtain s3 where s3: "init_sections env s2 = (Inr (), s3)" "modifyS (\<lambda>s. s\<lparr>l_cc := l_building s\<rparr>) s3 = (Inr u, s')"
    by (rule seqS_Inr)
  have "keeps_struct s2 s3" by (rule guarD [OF building_init.guar_init_sections s3(1)])
  then show ?thesis using hook s2 s3(2) by (auto simp: keeps_struct_def has_struct_def modifyS_def)
qed

text \<open>A container that the monitor reports as stopped.\<close>

definition reports_stopped :: "lxc_env \<Rightarrow> bool" where
  "reports_stopped env \<longleftrightarrow> (\<forall>cs. e_reply env cs LxcMonitorState = Some [''STOPPED''])"

lemma stopped_not_running:
  assumes "reports_stopped env" "has_struct env s"
  shows "\<exists>s'. IsRunning env s = (Inr False, s') \<and> quiet_calls s s'"
proof -
  have "initLXC env s = (Inr (), s)"
    using assms(2) by (auto simp: initLXC_def has_struct_def returnS_def bindS_def readS_def failS_def)
  then have run: "\<exists>s'. IsRunning env s = (Inr False, s')"
    using assms(1) by (simp add: IsRunning_def State_of_def reports_stopped_def op_simps)
  then obtain s' where s': "IsRunning env s = (Inr False, s')" by blast
  then have "quiet_calls s s'" by (rule guarD [OF quieting_init.guar_state(2)])
  with s' show ?thesis by blast
qed

text \<open>The part of a run that makes no live call, from a state.\<close>

definition quiet_from :: "lxc \<Rightarrow> unit lxc_op \<Rightarrow> bool" where
  "quiet_from s m \<longleftrightarrow> quiet_calls s (snd (m s))"

lemma quiet_from_guar: "guar quiet_calls m \<Longrightarrow> quiet_from s m"
  by (simp add: quiet_from_def guar_def)

lemma quiet_from_seq:
  assumes "quiet_from s m" "\<And>s1. m s = (Inr (), s1) \<Longrightarrow> quiet_from s1 k" shows "quiet_from s (seqS m k)"
proof -
  obtain r s1 where m: "m s = (r, s1)" by (cases "m s")
  then show ?thesis
    using assms quieting.follows [of s s1 "snd (k s1)"]
    by (cases r) (auto simp: quiet_from_def seqS_def bindS_def)
qed

lemma live_quiet:
  assumes "reports_stopped env" "has_struct env s" shows "quiet_from s (update_live env old changed ch)"
  using stopped_not_running [OF assms]
  by (auto simp: quiet_from_def update_live_def bindS_def whenS_def returnS_def)

definition struct_kept :: "lxc_env \<Rightarrow> lxc \<Rightarrow> lxc \<Rightarrow> bool" where
  "struct_kept env s s' \<longleftrightarrow> (has_struct env s \<longrightarrow> has_struct env s')"

interpretation keeping: calling "struct_kept env" for env
  by unfold_locales (auto simp: struct_kept_def has_struct_def)

lemma struct_kept_idmap:
  "guar (struct_kept env') (update_idmap env changed)" "guar (struct_kept env') (update_quota env old add)"
  "guar (struct_kept env') (whenS b (doS env AAParse))"
proof -
  have "guar (struct_kept env') (modifyS (\<lambda>s. s\<lparr>l_config := f s, l_idmapset := None\<rparr>))" for f
    by (simp add: guar_def modifyS_def struct_kept_def has_struct_def)
  then show "guar (struct_kept env') (update_idmap env changed)"
    unfolding update_idmap_def new_idmap_def by (auto intro!: guar_intros split: option.split)
  show "guar (struct_kept env') (update_quota env old add)"
    unfolding update_quota_def by (auto intro!: guar_intros split: prod.split)
  show "guar (struct_kept env') (whenS b (doS env AAParse))" by (intro guar_intros)
qed

lemma quiet_parts:
  "guar quiet_calls (update_idmap env changed)" "guar quiet_calls (update_quota env old add)"
  "guar quiet_calls (whenS b (doS env AAParse))" "guar quiet_calls (clean_volatile env)"
  "guar quiet_calls (update_checks env args user)" "guar quiet_calls (undoChanges env old')"
  "guar quiet_calls expandConfigS" "guar quiet_calls expandDevicesS"
proof -
  have do: "guar quiet_calls (doS env c)" if "\<not> live_call c" for c by (rule quieting_init.guar_do [OF that])
  show "guar quiet_calls (update_idmap env changed)"
    unfolding update_idmap_def new_idmap_def by (auto intro!: guar_intros quiet_modify split: option.split)
  show "guar quiet_calls (update_quota env old add)"
    unfolding update_quota_def by (auto intro!: guar_intros do split: prod.split)
  show "guar quiet_calls (whenS b (doS env AAParse))" by (intro guar_intros do) simp
  show "guar quiet_calls (clean_volatile env)" unfolding clean_volatile_def by (rule quiet_modify) (simp add: Let_def)
  show "guar quiet_calls (update_checks env args user)" unfolding update_checks_def by (intro guar_intros)
  show "guar quiet_calls (undoChanges env old')"
    unfolding undoChanges_def schedulerTrigger_def
    by (intro guar_intros do quiet_modify) (simp_all add: restore_fields_def)
  have merge: "guar quiet_calls (merge_profiles load ps acc)" for load :: "string \<Rightarrow> (lxd_db, ('k, 'v) gomap) dbop" and ps acc
    by (induction load ps acc rule: merge_profiles.induct) (auto intro!: guar_intros)
  show "guar quiet_calls expandConfigS" "guar quiet_calls expandDevicesS"
    unfolding expandConfigS_def expandDevicesS_def by (intro guar_intros merge quiet_modify; simp)+
qed

lemma changes_quiet:
  assumes "reports_stopped env" shows "quiet_from s (update_changes env old)"
proof -
  let ?changed = "changed_keys (l_xconfig old) (l_xconfig s)"
  let ?ch = "Device_Lists.Update (l_xdevices old) (l_xdevices s)"
  let ?live = "seqS (update_live env (l_xdevices old) ?changed ?ch) (clean_volatile env)"
  let ?quota = "seqS (update_quota env (l_xdevices old) (addlist ?ch)) ?live"
  let ?k5 = "seqS (update_idmap env ?changed) ?quota"
  let ?k4 = "seqS (whenS (StringInSlice ''raw.apparmor'' ?changed \<or> StringInSlice ''security.nesting'' ?changed) (doS env AAParse)) ?k5"
  note step = quiet_from_seq [OF quiet_from_guar]
  have live: "quiet_from t ?live" if "has_struct env t" for t
    by (rule quiet_from_seq [OF live_quiet [OF assms that]]) (rule quiet_from_guar [OF quiet_parts(4)])
  have quota: "quiet_from t ?quota" if "has_struct env t" for t
    by (rule step [OF quiet_parts(2)]) (rule live, use that guarD [OF struct_kept_idmap(2)] in \<open>auto simp: struct_kept_def\<close>)
  have k5: "quiet_from t ?k5" if "has_struct env t" for t
    by (rule step [OF quiet_parts(1)]) (rule quota, use that guarD [OF struct_kept_idmap(1)] in \<open>auto simp: struct_kept_def\<close>)
  have k4: "quiet_from t ?k4" if "has_struct env t" for t
    by (rule step [OF quiet_parts(3)]) (rule k5, use that guarD [OF struct_kept_idmap(3)] in \<open>auto simp: struct_kept_def\<close>)
  have init: "quiet_from t (seqS (initLXC env) ?k4)" for t
    by (rule step [OF quieting_init.guar_initLXC]) (rule k4, erule initLXC_struct)
  have reset: "quiet_from t (seqS (modifyS (\<lambda>s. s\<lparr>l_cc := None\<rparr>)) (seqS (initLXC env) ?k4))" for t
    by (rule step [OF quiet_modify]) (simp, rule init)
  have devs: "quiet_from t (bindS (hostS env) (\<lambda>h. seqS (checkS (containerValidDevices h (Some (l_xdevices s)) False True))
      (seqS (modifyS (\<lambda>s. s\<lparr>l_cc := None\<rparr>)) (seqS (initLXC env) ?k4))))" for t
    using step [OF quieting.guar_pure(6) reset] by (simp add: quiet_from_def hostS_def readS_Inr)
  show ?thesis
    using step [OF quieting.guar_pure(6) devs, of s] by (simp add: quiet_from_def update_changes_def readS_Inr Let_def id_def)
qed

text \<open>
  C11. An update of a stopped container acts on no running container: whatever it returns, it sets no cgroup, neither mounts,
  attaches nor loads anything, and runs no command but the check of the AppArmor profile (\<^verbatim>\<open>apparmor_parser\<close>) and the
  change of the root disk's quota, which only concern what is stored.
\<close>

theorem stopped_update_is_quiet:
  assumes "reports_stopped env" "Update_container env args user s = (r, s')"
  shows "\<exists>new. l_calls s' = l_calls s @ new \<and> list_all (\<lambda>c. \<not> live_call c) new"
proof -
  have body: "quiet_from t (update_body env a old)" for t a old
    unfolding update_body_def
    by (intro quiet_from_seq quiet_from_guar quiet_modify quiet_parts changes_quiet assms(1))
      (auto intro!: guar_intros simp: update_fields_def update_store_def)
  let ?a = "with_defaults args s"
  obtain r1 s1 where c: "update_checks env ?a user s = (r1, s1)" by (cases "update_checks env ?a user s")
  obtain r2 s2 where b: "update_body env ?a s1 s1 = (r2, s2)" by (cases "update_body env ?a s1 s1")
  have 1: "quiet_calls s s1" by (rule guarD [OF quiet_parts(5) c])
  have 2: "quiet_calls s1 s2" using body [of s1 ?a s1] b by (simp add: quiet_from_def)
  have 3: "quiet_calls s2 (snd (undoChanges env s1 s2))" using quiet_parts(6) by (simp add: guar_def)
  have "s' \<in> {s1, s2, snd (undoChanges env s1 s2)}"
    using assms(2) c b by (cases r1; cases r2) (auto simp: Update_container_def Let_def)
  then have "quiet_calls s s'" using 1 2 3 quieting.follows by blast
  then show ?thesis by (simp add: quiet_calls_def)
qed

theorem stopped_update_is_quiet_witness:
  "\<exists>s'. Update_container demo_lxc_env demo_args2 True demo_lxc = (Inr (), s') \<and> SetCgroupItem ''pids.max'' ''max'' \<notin> set (l_calls s')"
proof -
  obtain s' where run: "Update_container demo_lxc_env demo_args2 True demo_lxc = (Inr (), s')" using demo_runs by blast
  have "reports_stopped demo_lxc_env" by (simp add: reports_stopped_def demo_fields demo_replies_def)
  from stopped_update_is_quiet [OF this run] obtain new where "l_calls s' = new" "list_all (\<lambda>c. \<not> live_call c) new"
    by (auto simp: demo_lxc_def)
  then show ?thesis using run by (auto simp: list_all_iff)
qed

section \<open>Names of network devices\<close>

lemma add_name_set [simp]: "set (add_name names n) = insert n (set names)"
  by (auto simp: add_name_def StringInSlice_set)

lemma free_eth_fresh: "free_eth names i \<notin> set names \<and> (\<exists>j. free_eth names i = eth_name j)"
proof (induction names i rule: free_eth.induct)
  case (1 names i)
  show ?case
  proof (cases "StringInSlice (eth_name i) names")
    case True
    then have "free_eth names i = free_eth names (i + 1)" by (subst free_eth.simps) simp
    then show ?thesis using 1 [OF True] by simp
  next
    case False
    then have "free_eth names i = eth_name i" by (subst free_eth.simps) simp
    then show ?thesis using False by (auto simp: StringInSlice_set)
  qed
qed

lemma static_names_set:
  assumes "go_sort (e_sorter env)" "map_of devs k = Some d" "mget d ''name'' \<noteq> []"
  shows "mget d ''name'' \<in> set (static_names env devs)"
proof -
  have "k \<in> set (DeviceNames (e_sorter env) devs)"
    using go_sort.srt_set [OF assms(1) strict_weak_device_less] map_of_SomeD [OF assms(2)]
    by (force simp: DeviceNames_def)
  moreover have "set names \<union> {n. n \<noteq> [] \<and> (\<exists>x \<in> set ks. n = mget (device_or_empty devs x) ''name'')}
      \<subseteq> set (foldl (\<lambda>names k. let n = mget (device_or_empty devs k) ''name'' in if n \<noteq> [] then add_name names n else names) names ks)"
    for names ks
  proof (induction ks arbitrary: names)
    case (Cons k ks)
    let ?names = "if mget (device_or_empty devs k) ''name'' \<noteq> [] then add_name names (mget (device_or_empty devs k) ''name'') else names"
    show ?case using Cons [of ?names] by (auto simp: Let_def split: if_splits)
  qed simp
  ultimately show ?thesis using assms(2,3) unfolding static_names_def by (force simp: device_or_empty_def)
qed

lemma allocated_names_mono: "set names \<subseteq> set (allocated_names config names)"
proof (induction config arbitrary: names)
  case (Cons kv config)
  show ?case using Cons [of "add_name names (snd kv)"] Cons [of names]
    by (cases kv) (auto simp: allocated_names_def split: option.split)
qed (simp add: allocated_names_def)

lemma allocated_names_set:
  assumes "(k, v) \<in> set config" "volatile_parts k = Some (dev, ''name'')"
  shows "v \<in> set (allocated_names config names)"
  using assms(1)
proof (induction config arbitrary: names)
  case (Cons kv config)
  show ?case
  proof (cases "kv = (k, v)")
    case True
    then have "allocated_names (kv # config) names = allocated_names config (add_name names v)"
      by (simp add: allocated_names_def assms(2))
    then show ?thesis using allocated_names_mono [of "add_name names v" config] by auto
  next
    case False
    then have "v \<in> set (allocated_names config names')" for names' using Cons by auto
    then show ?thesis by (cases kv) (simp add: allocated_names_def split: option.split)
  qed
qed simp

lemma foldl_add_name: "set names \<subseteq> set (foldl add_name names ns)"
  by (induction ns arbitrary: names) (simp, metis add_name_set foldl_Cons insert_subset)

text \<open>A generated name is none of the names that the configuration shows.\<close>

lemma generated_name:
  assumes "nextInterfaceName env s = (Inr n, s')"
  shows "n \<notin> set (allocated_names (l_xconfig s) (static_names env (l_xdevices s)))" "\<exists>i. n = eth_name i"
proof -
  let ?names = "allocated_names (l_xconfig s) (static_names env (l_xdevices s))"
  have "\<exists>interfaces. n = free_eth (case interfaces of Inl (_ :: lxc_error) \<Rightarrow> ?names | Inr is \<Rightarrow> foldl add_name ?names is) 0"
    using assms unfolding nextInterfaceName_def readS_Inr
    by (elim bindS_Inr) (auto simp: returnS_def readS_def split: sum.splits)
  then obtain interfaces where n: "n = free_eth (case interfaces of Inl (_ :: lxc_error) \<Rightarrow> ?names | Inr is \<Rightarrow> foldl add_name ?names is) 0" by blast
  define ns where "ns = (case interfaces of Inl _ \<Rightarrow> ?names | Inr is \<Rightarrow> foldl add_name ?names is)"
  have "set ?names \<subseteq> set ns" using foldl_add_name by (cases interfaces) (auto simp: ns_def)
  moreover have "n = free_eth ns 0" using n by (simp add: ns_def)
  ultimately show "n \<notin> set ?names" "\<exists>i. n = eth_name i" using free_eth_fresh [of ns 0] by auto
qed

lemma volatile_name_parts: "CHR ''.'' \<notin> set dev \<Longrightarrow> volatile_parts (''volatile.'' @ dev @ ''.name'') = Some (dev, ''name'')"
proof -
  assume dev: "CHR ''.'' \<notin> set dev"
  have "split2 CHR ''.'' (''volatile'' @ CHR ''.'' # (dev @ ''.name'')) = [''volatile'', dev @ ''.name'']" by (rule split2_append) simp
  moreover have "split2 CHR ''.'' (dev @ CHR ''.'' # ''name'') = [dev, ''name'']" by (rule split2_append [OF dev])
  ultimately show ?thesis by (simp add: volatile_parts_def splitn3_def HasPrefix_def)
qed

text \<open>What \<^verbatim>\<open>fill_key\<close> changes, and the value it returns when the configuration has none.\<close>

definition only_key :: "string \<Rightarrow> lxc \<Rightarrow> lxc \<Rightarrow> bool" where
  "only_key key s s' \<longleftrightarrow> l_xdevices s' = l_xdevices s
     \<and> (\<forall>k. k \<noteq> key \<longrightarrow> map_of (l_config s') k = map_of (l_config s) k \<and> map_of (l_xconfig s') k = map_of (l_xconfig s) k)"

lemma only_key_set: "only_key key s (set_volatile key v (s\<lparr>l_calls := cs, l_db := c\<rparr>))"
  by (simp add: only_key_def set_volatile_def update_conv')

lemma fill_key_run:
  assumes "fill_key env key generate s = (Inr v, s')" "guar only_calls generate"
  shows "only_key key s s'" "mget (l_config s) key = [] \<Longrightarrow> \<exists>s1. generate s = (Inr v, s1)"
proof -
  have "only_key key s s' \<and> (mget (l_config s) key = [] \<longrightarrow> (\<exists>s1. generate s = (Inr v, s1)))"
  proof (cases "mget (l_config s) key = []")
    case False then show ?thesis using assms(1) by (simp add: fill_key_def readS_Inr returnS_def only_key_def)
  next
    case True
    let ?store = "\<lambda>new. bindS (attemptS (updateKey env key new)) (\<lambda>r. case r of
         Inr _ \<Rightarrow> bindS (modifyS (set_volatile key new)) (\<lambda>_. returnS new)
       | Inl e \<Rightarrow>
           bindS (attemptS (dbS (ContainerConfigGet (e_id env) key))) (\<lambda>r1. case r1 of
             Inl _ \<Rightarrow> failS e
           | Inr val \<Rightarrow> if val = [] then failS e else bindS (modifyS (set_volatile key val)) (\<lambda>_. returnS new)))"
    have "bindS generate ?store s = (Inr v, s')" using assms(1) True by (simp add: fill_key_def readS_Inr)
    then obtain new s1 where g: "generate s = (Inr new, s1)" and st: "?store new s1 = (Inr v, s')" by (rule bindS_Inr)
    obtain cs where s1: "s1 = s\<lparr>l_calls := cs\<rparr>" using guarD [OF assms(2) g] by (auto simp: only_calls_def)
    obtain u s2 where u: "updateKey env key new s1 = (u, s2)" by (cases "updateKey env key new s1")
    then obtain c where s2: "s2 = s1\<lparr>l_db := c\<rparr>" using dbS_run [of "in_tx (ContainerConfigInsert (e_id env) [(key, new)])" s1 u s2]
      unfolding updateKey_def by blast
    obtain q s3 where q: "dbS (ContainerConfigGet (e_id env) key) s2 = (q, s3)" by (cases "dbS (ContainerConfigGet (e_id env) key) s2")
    then obtain d where s3: "s3 = s2\<lparr>l_db := d\<rparr>" using dbS_run by blast
    have "v = new \<and> (\<exists>w db. s' = set_volatile key w (s\<lparr>l_calls := cs, l_db := db\<rparr>))"
      using st u q s1 s2 s3
      by (cases u; cases q) (auto simp: bindS_def attemptS_def modifyS_def returnS_def failS_def split: if_splits)
    then show ?thesis using g only_key_set by blast
  qed
  then show "only_key key s s'" "mget (l_config s) key = [] \<Longrightarrow> \<exists>s1. generate s = (Inr v, s1)" by blast+
qed

lemma volatile_keys_differ [simp]: "''volatile.'' @ d @ ''.hwaddr'' \<noteq> ''volatile.'' @ d' @ ''.name''"
proof
  assume "''volatile.'' @ d @ ''.hwaddr'' = ''volatile.'' @ d' @ ''.name''"
  then have "last (d @ ''.hwaddr'') = last (d' @ ''.name'')" by simp
  then show False by simp
qed

text \<open>The address is filled in before the name, the name of the host side after it.\<close>

lemma filled_name_run:
  assumes "fillNetworkDevice env name m s = (Inr m', s')" "mget m ''name'' = []"
    "mget (l_config s) (''volatile.'' @ name @ ''.name'') = []"
  obtains s1 s2 where "only_key (''volatile.'' @ name @ ''.hwaddr'') s s1" "nextInterfaceName env s1 = (Inr (mget m' ''name''), s2)"
proof -
  let ?hw = "''volatile.'' @ name @ ''.hwaddr''" and ?nm = "''volatile.'' @ name @ ''.name''"
  from assms(1) obtain m1 s1 where
      hw: "(if mget m ''nictype'' \<noteq> ''physical'' \<and> mget m ''hwaddr'' = [] then
         bindS (fill_key env ?hw (nextHwaddr env)) (\<lambda>v. returnS (AList.update ''hwaddr'' v m)) else returnS m) s = (Inr m1, s1)"
    and rest: "bindS (bindS (fill_key env ?nm (nextInterfaceName env)) (\<lambda>v. returnS (AList.update ''name'' v m1))) (\<lambda>m2.
       if mget m ''host_name'' = [] \<and> StringInSlice (mget m ''nictype'') [''bridged'', ''p2p''] then
         bindS (readS (\<lambda>s. mget (l_config s) (''volatile.'' @ name @ ''.host_name''))) (\<lambda>v. returnS (AList.update ''host_name'' v m2))
       else returnS m2) s1 = (Inr m', s')"
    unfolding fillNetworkDevice_def if_P [OF assms(2)] by (rule bindS_Inr)
  have s1: "only_key ?hw s s1"
    using hw fill_key_run(1) [OF _ asks_hwaddr]
    by (auto simp: returnS_def only_key_def elim!: bindS_Inr split: if_splits)
  from rest obtain m2 s3 where m2: "bindS (fill_key env ?nm (nextInterfaceName env)) (\<lambda>v. returnS (AList.update ''name'' v m1)) s1 = (Inr m2, s3)"
    and host: "(if mget m ''host_name'' = [] \<and> StringInSlice (mget m ''nictype'') [''bridged'', ''p2p''] then
         bindS (readS (\<lambda>s. mget (l_config s) (''volatile.'' @ name @ ''.host_name''))) (\<lambda>v. returnS (AList.update ''host_name'' v m2))
       else returnS m2) s3 = (Inr m', s')"
    by (rule bindS_Inr)
  from host have m': "m' = m2 \<or> (\<exists>v. m' = AList.update ''host_name'' v m2)"
    by (auto simp: readS_Inr returnS_def split: if_splits)
  from m2 obtain v s4 where v: "fill_key env ?nm (nextInterfaceName env) s1 = (Inr v, s4)" "m2 = AList.update ''name'' v m1"
    by (elim bindS_Inr) (auto simp: returnS_def)
  have "mget (l_config s1) ?nm = []" using s1 assms(3) volatile_keys_differ [of name name] by (simp add: only_key_def mget_def)
  then obtain s2 where "nextInterfaceName env s1 = (Inr v, s2)" using fill_key_run(2) [OF v(1) asks_name] by blast
  moreover have "mget m' ''name'' = v" using m' v(2) by (auto simp: mget_def update_conv')
  ultimately show ?thesis using that s1 by blast
qed

text \<open>
  C15. A network device without a name of its own or a stored one gets a name \<^verbatim>\<open>eth<i>\<close> that no device of the container has in its
  configuration and that is not the stored name of another device, provided that the name of that device has no dot.
\<close>

theorem filled_name_is_fresh:
  assumes "go_sort (e_sorter env)" "fillNetworkDevice env name m s = (Inr m', s')" "mget m ''name'' = []"
    "mget (l_config s) (''volatile.'' @ name @ ''.name'') = []"
  shows "(\<exists>i. mget m' ''name'' = eth_name i)
    \<and> (\<forall>k d. map_of (l_xdevices s) k = Some d \<longrightarrow> mget m' ''name'' \<noteq> mget d ''name'')
    \<and> (\<forall>k v. CHR ''.'' \<notin> set k \<longrightarrow> map_of (l_xconfig s) (''volatile.'' @ k @ ''.name'') = Some v \<longrightarrow> mget m' ''name'' \<noteq> v)"
proof -
  obtain s1 s2 where s1: "only_key (''volatile.'' @ name @ ''.hwaddr'') s s1"
    and run: "nextInterfaceName env s1 = (Inr (mget m' ''name''), s2)"
    using filled_name_run [OF assms(2,3,4)] by blast
  let ?taken = "allocated_names (l_xconfig s1) (static_names env (l_xdevices s1))"
  obtain i where eth: "mget m' ''name'' = eth_name i" "mget m' ''name'' \<notin> set ?taken" using generated_name [OF run] by blast
  have "mget m' ''name'' \<noteq> mget d ''name''" if "map_of (l_xdevices s) k = Some d" for k d
  proof (cases "mget d ''name'' = []")
    case False
    have "map_of (l_xdevices s1) k = Some d" using that s1 by (simp add: only_key_def)
    then have "mget d ''name'' \<in> set ?taken"
      using static_names_set [OF assms(1) _ False] allocated_names_mono by blast
    then show ?thesis using eth(2) by auto
  qed (simp add: eth(1) eth_name_def)
  moreover have "mget m' ''name'' \<noteq> v"
    if "CHR ''.'' \<notin> set k" "map_of (l_xconfig s) (''volatile.'' @ k @ ''.name'') = Some v" for k v
  proof -
    have "map_of (l_xconfig s1) (''volatile.'' @ k @ ''.name'') = Some v"
      using that(2) s1 volatile_keys_differ [of name k] by (simp add: only_key_def)
    then have "v \<in> set ?taken" using allocated_names_set [OF map_of_SomeD volatile_name_parts [OF that(1)]] by blast
    then show ?thesis using eth(2) by auto
  qed
  ultimately show ?thesis using eth(1) by blast
qed

text \<open>A container with two devices: the name of the first is stored, that of the second is configured.\<close>

definition demo_nics :: "string \<Rightarrow> lxc" where
  "demo_nics dev = demo_lxc\<lparr>l_xdevices := [(dev, []), (''lan'', [(''name'', ''eth1'')])],
     l_config := [(''volatile.'' @ dev @ ''.name'', ''eth0'')], l_xconfig := [(''volatile.'' @ dev @ ''.name'', ''eth0'')]\<rparr>"

lemma eth_name_digit: "eth_name 0 = ''eth0''" "eth_name (Suc 0) = ''eth1''" "eth_name 2 = ''eth2''"
  by code_simp+

lemma demo_names: "free_eth [''eth1'', ''eth0''] 0 = ''eth2''" "free_eth [''eth1''] 0 = ''eth0''"
proof -
  have "free_eth [''eth1'', ''eth0''] 0 = free_eth [''eth1'', ''eth0''] (Suc 0)" by (subst free_eth.simps) (simp add: eth_name_digit)
  also have "\<dots> = free_eth [''eth1'', ''eth0''] 2" by (subst free_eth.simps) (simp add: eth_name_digit numeral_2_eq_2)
  also have "\<dots> = ''eth2''" by (subst free_eth.simps) (simp add: eth_name_digit)
  finally show "free_eth [''eth1'', ''eth0''] 0 = ''eth2''" .
  show "free_eth [''eth1''] 0 = ''eth0''" by (subst free_eth.simps) (simp add: eth_name_digit)
qed

lemma demo_nic_key: "\<exists>c. in_tx (ContainerConfigInsert 1 [(''volatile.wan.name'', v)]) (calm demo_c1_db) = (Inr (), c)"
  by (simp add: calm_def in_tx_def ContainerConfigInsert_def insert_config_def bindD_def faultD_def execD_def returnD_def Let_def
      demo_c1_db_def demo_db_def)

lemma demo_fill_name:
  assumes "nextInterfaceName demo_lxc_env (demo_nics dev) = (Inr v, demo_nics dev\<lparr>l_calls := cs\<rparr>)" "dev \<noteq> ''wan''"
  shows "\<exists>m' s'. fillNetworkDevice demo_lxc_env ''wan'' [(''nictype'', ''physical'')] (demo_nics dev) = (Inr m', s') \<and> mget m' ''name'' = v"
proof -
  obtain c where c: "in_tx (ContainerConfigInsert 1 [(''volatile.wan.name'', v)]) (calm demo_c1_db) = (Inr (), c)" using demo_nic_key by blast
  have "l_db (demo_nics dev) = calm demo_c1_db" "e_id demo_lxc_env = 1"
    by (simp_all add: demo_nics_def demo_lxc_def demo_lxc_env_def)
  then have "updateKey demo_lxc_env ''volatile.wan.name'' v (demo_nics dev\<lparr>l_calls := cs\<rparr>)
      = (Inr (), demo_nics dev\<lparr>l_calls := cs, l_db := c\<rparr>)"
    by (simp add: updateKey_def dbS_def c)
  moreover have "mget (l_config (demo_nics dev)) ''volatile.wan.name'' = []"
    using assms(2) append_same_eq [of dev "''.name''" "''wan''"] by (simp add: demo_nics_def mget_def)
  ultimately show ?thesis
    using assms(1)
    by (simp add: fillNetworkDevice_def fill_key_def bindS_def readS_def returnS_def attemptS_def modifyS_def mget_def)
qed

lemma demo_call: "c \<in> {NewContainer, LxcInterfaces} \<Longrightarrow> callS demo_lxc_env c s = (Inr [], s\<lparr>l_calls := l_calls s @ [c]\<rparr>)"
  by (auto simp: callS_def demo_lxc_env_def demo_replies_def)

lemma demo_next: "nextInterfaceName demo_lxc_env s = (Inr (free_eth (allocated_names (l_xconfig s) (static_names demo_lxc_env (l_xdevices s))) 0),
    s\<lparr>l_calls := l_calls s @ [NewContainer, LxcInterfaces]\<rparr>)"
  by (simp add: nextInterfaceName_def readS_Inr) (simp add: bindS_def attemptS_def returnS_def demo_call)

lemma demo_next_name:
  "\<exists>cs. nextInterfaceName demo_lxc_env (demo_nics ''net0'') = (Inr ''eth2'', demo_nics ''net0''\<lparr>l_calls := cs\<rparr>)"
  "\<exists>cs. nextInterfaceName demo_lxc_env (demo_nics ''net.0'') = (Inr ''eth0'', demo_nics ''net.0''\<lparr>l_calls := cs\<rparr>)"
proof -
  have "allocated_names (l_xconfig (demo_nics ''net0'')) (static_names demo_lxc_env (l_xdevices (demo_nics ''net0''))) = [''eth1'', ''eth0'']"
    "allocated_names (l_xconfig (demo_nics ''net.0'')) (static_names demo_lxc_env (l_xdevices (demo_nics ''net.0''))) = [''eth1'']"
    by code_simp+
  then show "\<exists>cs. nextInterfaceName demo_lxc_env (demo_nics ''net0'') = (Inr ''eth2'', demo_nics ''net0''\<lparr>l_calls := cs\<rparr>)"
    "\<exists>cs. nextInterfaceName demo_lxc_env (demo_nics ''net.0'') = (Inr ''eth0'', demo_nics ''net.0''\<lparr>l_calls := cs\<rparr>)"
    unfolding demo_next by (auto simp: demo_names)
qed

theorem filled_name_is_fresh_witness:
  "\<exists>m' s'. fillNetworkDevice demo_lxc_env ''wan'' [(''nictype'', ''physical'')] (demo_nics ''net0'') = (Inr m', s')
     \<and> mget m' ''name'' = ''eth2'' \<and> mget m' ''name'' \<notin> {''eth0'', ''eth1''}"
proof -
  obtain cs where "nextInterfaceName demo_lxc_env (demo_nics ''net0'') = (Inr ''eth2'', demo_nics ''net0''\<lparr>l_calls := cs\<rparr>)"
    using demo_next_name(1) by (rule exE)
  from demo_fill_name [OF this] obtain m' s'
    where run: "fillNetworkDevice demo_lxc_env ''wan'' [(''nictype'', ''physical'')] (demo_nics ''net0'') = (Inr m', s')"
    and name: "mget m' ''name'' = ''eth2''"
    by auto
  have nics: "map_of (l_xdevices (demo_nics ''net0'')) ''lan'' = Some [(''name'', ''eth1'')]"
    "map_of (l_xconfig (demo_nics ''net0'')) (''volatile.'' @ ''net0'' @ ''.name'') = Some ''eth0''"
    "mget [(''nictype'', ''physical'')] ''name'' = []" "mget (l_config (demo_nics ''net0'')) (''volatile.'' @ ''wan'' @ ''.name'') = []"
    by (simp_all add: demo_nics_def mget_def)
  have "go_sort (e_sorter demo_lxc_env)" by (simp add: demo_lxc_env_def isort.go_sort_axioms)
  note fresh = filled_name_is_fresh [OF this run nics(3,4)]
  have "mget m' ''name'' \<noteq> mget [(''name'', ''eth1'')] ''name''" using fresh nics(1) by blast
  moreover have "mget m' ''name'' \<noteq> ''eth0''" using fresh nics(2) by (auto dest: spec [of _ "''net0''"])
  ultimately show ?thesis using run name by (auto simp: mget_def)
qed

text \<open>
  The stored name of a device whose own name has a dot is not seen: the key \<^verbatim>\<open>volatile.net.0.name\<close> is split at the first two dots.
  Another device then gets the same name.
\<close>

lemma dotted_name_taken_twice:
  "\<exists>m' s'. fillNetworkDevice demo_lxc_env ''wan'' [(''nictype'', ''physical'')] (demo_nics ''net.0'') = (Inr m', s')
     \<and> mget m' ''name'' = mget (l_config (demo_nics ''net.0'')) ''volatile.net.0.name''"
proof -
  obtain cs where "nextInterfaceName demo_lxc_env (demo_nics ''net.0'') = (Inr ''eth0'', demo_nics ''net.0''\<lparr>l_calls := cs\<rparr>)"
    using demo_next_name(2) by (rule exE)
  from demo_fill_name [OF this] show ?thesis by (simp add: demo_nics_def mget_def)
qed

end
