(* ===== verification/Spec2Isabelle.thy ===== *)
theory Spec2Isabelle
  imports Idmap_Laws Container_Idmap Container_Config Cpu_Balance Operations Cmd_Parser Db_Schema Daemon_Config
    Container_Lock Update_Live
begin

text \<open>
  A verification development of LXD, the container daemon and its tools
  (\<^verbatim>\<open>lxd/\<close>, \<^verbatim>\<open>shared/\<close>; the Go code of the repository, less the vendored packages
  in \<^verbatim>\<open>dist/\<close>).

  \<^bold>\<open>The program.\<close>  A command line is parsed (\<^verbatim>\<open>shared/gnuflag\<close>,
  \<^verbatim>\<open>shared/cmd\<close>); the daemon opens its database, brings the schema up to date and runs patches
  (\<^verbatim>\<open>lxd/db\<close>, \<^verbatim>\<open>lxd/patches.go\<close>), loads its own configuration
  (\<^verbatim>\<open>lxd/daemon_config.go\<close>) and serves requests.  A request that takes time becomes a background
  operation (\<^verbatim>\<open>lxd/operations.go\<close>), which works on containers under their operation lock
  (\<^verbatim>\<open>lxd/container_lxc.go\<close>).  The configuration and the devices of a container come from the
  request and its profiles, are validated (\<^verbatim>\<open>lxd/container.go\<close>, \<^verbatim>\<open>lxd/types/devices.go\<close>), and become
  an id map (\<^verbatim>\<open>findIdmap\<close>, \<^verbatim>\<open>shared/idmap\<close>), limits and device nodes of the host
  (\<^verbatim>\<open>lxd/devices.go\<close>).  The scheduler balances the running containers over the CPUs.

  \<^bold>\<open>The theories, in the order of their imports.\<close>

  \<^item> \<open>Lxd_Prelude\<close>: 64-bit integers as integers with the wrap-around \<open>i64\<close> written out
    (\<open>i64_sint\<close> ties it to the words of the library), Go maps as association lists whose order is the
    order of iteration, the contract \<open>go_sort\<close> of a sorting algorithm, fallible loops.
  \<^item> \<open>Go_Strings\<close>: what the code uses of \<^verbatim>\<open>strings\<close>, \<^verbatim>\<open>strconv\<close> and
    \<^verbatim>\<open>fmt\<close>, with the range errors of \<^verbatim>\<open>ParseInt\<close> and \<^verbatim>\<open>ParseUint\<close>.
  \<^item> \<open>Shared_Util\<close>: \<^verbatim>\<open>shared/util.go\<close>: strings, paths, size strings, file headers, the retry of
    commands, the chunking reader.
  \<^item> \<open>Idmap\<close>, \<open>Idmap_Laws\<close>: \<^verbatim>\<open>shared/idmap/idmapset_linux.go\<close>.  An entry
    is a record with the fields of \<^verbatim>\<open>IdmapEntry\<close>, a set the list of its entries.  Lemmas: what each
    overlap test decides, both shifts as lookups, their round trip, what \<^verbatim>\<open>AddSafe\<close> does to every id and
    to the invariant of a set, what \<^verbatim>\<open>ValidRanges\<close> covers.
  \<^item> \<open>Container_Idmap\<close>: \<^verbatim>\<open>idmapSize\<close>, \<^verbatim>\<open>parseRawIdmap\<close> and
    \<^verbatim>\<open>findIdmap\<close>; the offset found is free, and when it is not.
  \<^item> \<open>Device_Lists\<close>: \<^verbatim>\<open>lxd/types/devices.go\<close>; the partition \<^verbatim>\<open>Update\<close>
    computes, the order of the devices.
  \<^item> \<open>Host_Devices\<close>: modes, device numbers, CPU sets, limits and block devices of
    \<^verbatim>\<open>lxd/devices.go\<close>, \<^verbatim>\<open>shared/util_linux.go\<close> and \<^verbatim>\<open>getDiskLimits\<close>.
  \<^item> \<open>Cpu_Balance\<close>: \<^verbatim>\<open>deviceTaskBalance\<close>, the network priorities and the events of
    \<^verbatim>\<open>lxd/devices.go\<close>.  A function acts through the writes it makes: the model returns their list.
  \<^item> \<open>Container_Config\<close>: names, keys, values, devices and \<^verbatim>\<open>raw.lxc\<close> of
    \<^verbatim>\<open>lxd/container.go\<close>, the expansion of profiles.
  \<^item> \<open>Operations\<close>: \<^verbatim>\<open>lxd/operations.go\<close> as a step relation over goroutines: each section under
    \<^verbatim>\<open>op.lock\<close> and each access outside it is one step.  Reachable states keep an invariant, every fair
    schedule ends, and two interleavings end in a panic.
  \<^item> \<open>Gnuflag\<close>, \<open>Cmd_Parser\<close>: \<^verbatim>\<open>shared/gnuflag/flag.go\<close>, \<^verbatim>\<open>shared/cmd\<close>:
    parsing ends, does not panic, and gives the same for every spelling of a flag; the questions of
    \<^verbatim>\<open>context.go\<close>.
  \<^item> \<open>Db_Schema\<close>: transactions, \<^verbatim>\<open>Schema.Ensure\<close>, the driver \<^verbatim>\<open>UpdatesApplyAll\<close> with
    its backup and legacy patches, patches, and the retries on a locked database.  \<^verbatim>\<open>Ensure\<close> refines
    the application of the missing updates or of none to the database, wherever SQLite fails; so it does with the hook of the
    daemon, except for the legacy patches that commit in the middle.
  \<^item> \<open>Daemon_Config\<close>: the keys of the server, their validation, the rows that store them, the replacement of
    the configuration by a request.
  \<^item> \<open>Container_Lock\<close>: \<^verbatim>\<open>lxcContainerOperation\<close> as a step relation, like \<open>Operations\<close>.
  \<^item> \<open>Names\<close>: architectures, logical volumes, numbers of snapshots.
  \<^item> \<open>Db_Conn\<close>: a connection of the database as a state monad: the committed data, the open transaction, and
    the faults to come.  Three calculi of rules: \<open>does\<close> (what a healthy database returns and stores),
    \<open>keeps\<close> (an invariant that every operation keeps under every fault), \<open>steady\<close> (operations that
    only read).
  \<^item> \<open>Container_Db\<close>: \<^verbatim>\<open>lxd/db/containers.go\<close>, \<^verbatim>\<open>lxd/db/devices.go\<close>: the tables
    are lists of rows, a statement is a function on them.  What is created is read back; the constraints of
    the tables (unique names and keys, no row without its owner) are part of the statements, and every operation keeps them.
  \<^item> \<open>Profile_Db\<close>: \<^verbatim>\<open>lxd/db/profiles.go\<close>, \<^verbatim>\<open>lxd/profiles.go\<close>,
    \<^verbatim>\<open>lxd/profiles_utils.go\<close>: the requests on profiles over those tables, and the update of the
    containers that use a profile.
  \<^item> \<open>Lxc_State\<close>, \<open>Lxc_Init\<close>: the object \<^verbatim>\<open>containerLXC\<close> as a record with its expanded
    configuration, its connection to the database and the history of its calls to the host; \<^verbatim>\<open>initLXC\<close> section
    by section, \<^verbatim>\<open>fillNetworkDevice\<close>, the id map of a container, its state and its control groups.  Lemmas:
    what any of these can change, as guarantees that compose (\<open>settles\<close>).
  \<^item> \<open>Container_Update\<close>: network and disk devices, limits, and \<^verbatim>\<open>Update\<close> with its checks, its
    live changes, the stored configuration and the deferred restoration.  A successful update stores what the object holds,
    the object is what was requested, and after an error it has its old fields.
  \<^item> \<open>Update_Live\<close>: an update of a stopped container makes no call that acts on the running system; the names
    that network devices are given are free.
  \<^item> \<open>Spec2Isabelle\<close>: the properties that span components: the id maps of isolated containers from the
    allocation to the shifts, and a limit from its validation to the scheduler.

  \<^bold>\<open>Interfaces.\<close>  Six contracts are locales.  \<open>go_sort\<close> is what the code relies on of
  \<^verbatim>\<open>sort.Sort\<close>, which is not stable (interpreted by insertion sort); \<open>entry_shift\<close> is one direction of an
  entry's shift (interpreted for both); \<open>update_run\<close> is what the hook of a run of updates keeps (interpreted
  for the run without a hook, for a transaction under the daemon's hook and for the backup of
  \<^verbatim>\<open>UpdatesApplyAll\<close>).  Three are about operations on the
  object of a container: \<open>guarantee\<close> is a preorder on its states, which an operation keeps when its parts do;
  \<open>calling\<close> is one that calls to the host keep; \<open>preparing\<close> is one that the writes of
  \<^verbatim>\<open>initLXC\<close> keep, under which every section of it is proved once.  They are interpreted for what an operation may
  change (\<open>settles\<close>, \<open>adds_rows\<close>, \<open>only_calls\<close>, \<open>looks\<close>), for the absence of live calls
  (\<open>quiet_calls\<close>) and for the cached struct (\<open>keeps_struct\<close>).

  \<^bold>\<open>Conventions.\<close>  An error is the left side of a sum, a Go panic and a run that does not end are
  \<open>None\<close>.  What the host, the database file or another package answers is a parameter: a function or a record
  of functions; for operations on the object of a container a function of the calls made so far, so that whatever another
  process does in between is covered.  The order of a map's iteration is any list, or any permutation from a record of orders.

  \<^bold>\<open>Loops, bounds and fuel.\<close>  A loop that may run for ever is a \<^theory_text>\<open>partial_function (option)\<close>:
  the CPU set range whose upper end is the largest int (\<open>cpu_loop\<close>), the questions (\<open>ask_loop\<close> and the
  password loop); each has a theorem that says when it returns.  The recursion of
  \<^verbatim>\<open>deviceGetParentBlocks\<close> (a pool whose disks are files in another pool) takes fuel, one unit
  for each level, because nothing in the code bounds it; on the object of a container a deeper nesting is the error
  \<open>OutOfFuel\<close>.  The search for a free interface name ends because finitely many names are taken
  (\<open>free_eth\<close>).  The database retries end after the constant of the code,
  1000.  The flag parser ends because the bytes of the command line left over decrease.  A transaction of
  \<open>Db_Schema\<close> and a connection of \<open>Db_Conn\<close> carry a list of faults, one for each statement to come, so
  a theorem about all lists covers every point of failure.

  \<^bold>\<open>Not modelled.\<close>  The vendored packages of \<^verbatim>\<open>dist/\<close> and the packaging; the
  client library and the command line client (HTTP calls and output); the rest of the life cycle of containers in
  \<^verbatim>\<open>lxd/container_lxc.go\<close> (start, stop, snapshots, restore, export, exec), the storage drivers, the networks
  and the migration, which are sequences of calls to liblxc, external commands and the file system with little logic of their
  own; the images (downloads,
  archives); the HTTP handlers; the tables of
  images, certificates, networks and storage pools (those of containers, profiles and devices are modelled); the C code of \<^verbatim>\<open>main_nsexec.go\<close>.
\<close>

section \<open>Id maps from the allocation to the shift\<close>

lemma isolated_map:
  assumes "0 \<le> offset" "offset + n \<le> 2 ^ 32" "0 < n" "n < 2 ^ 32"
  defines "m \<equiv> [raw_entry True False offset 0 n, raw_entry False True offset 0 n]"
  shows "wf_set m" "host_disjoint Isuid m" "host_disjoint Isgid m"
    "ShiftIntoNs m uid gid =
      (if 0 \<le> uid \<and> uid < n then offset + uid else -1, if 0 \<le> gid \<and> gid < n then offset + gid else -1)"
proof -
  show wf: "wf_set m" using assms by (simp add: wf_set_def wf_unfold raw_entry_def)
  show "host_disjoint Isuid m" "host_disjoint Isgid m" by (simp_all add: host_disjoint_def m_def raw_entry_def)
  show "ShiftIntoNs m uid gid =
      (if 0 \<le> uid \<and> uid < n then offset + uid else -1, if 0 \<le> gid \<and> gid < n then offset + gid else -1)"
    unfolding ShiftIntoNs_lookup [OF wf] by (auto simp: m_def raw_entry_def lookup_Cons)
qed

text \<open>
  C1. Isolated containers are isolated from each other: for a container without raw mappings, every id of it is mapped to the range
  the allocation has found, no id is mapped into the range of another isolated container, and shifting back gives the id again.  The
  condition is that the ranges in use are disjoint and lie in the host's allocation behind its first 65536 ids; every allocation
  keeps it (\<open>allocate_free\<close>).  A base that the user configures can break it, and then the new range may lie in
  another one (\<open>allocate_overlap\<close>).
\<close>

theorem isolated_containers_disjoint:
  assumes "go_sort srt" "allocate srt env cName [] n = Inr (set1, offset)"
    and "al_names env = Some cs" "os_idmap env = host # rest" "other_entries env cName cs [] = Inr es"
    and "ranges_ok (Hostid host + 65536) (Hostid host + Maprange host) es"
    and "0 \<le> Hostid host" "65536 \<le> Maprange host" "Hostid host + Maprange host \<le> 2 ^ 32" "0 < n" "n < 2 ^ 32"
    and "ShiftIntoNs set1 uid gid = (hu, hg)" "e \<in> set es"
  shows "hu \<notin> host_range e \<and> hg \<notin> host_range e
    \<and> (0 \<le> uid \<and> uid < n \<longrightarrow> hu = offset + uid) \<and> (0 \<le> gid \<and> gid < n \<longrightarrow> hg = offset + gid)
    \<and> ShiftFromNs set1 hu hg = (if hu = -1 then -1 else uid, if hg = -1 then -1 else gid)"
proof -
  have free: "Hostid host + 65536 \<le> offset \<and> offset + n \<le> Hostid host + Maprange host \<and>
      (\<forall>e \<in> set es. host_range e \<inter> {offset..<offset + n} = {}) \<and> mkIdmap [] offset n = Inr set1"
    by (rule allocate_gives_free [OF assms(1-6)]) (use assms(7-11) in simp_all)
  then have set1: "set1 = [raw_entry True False offset 0 n, raw_entry False True offset 0 n]" by (simp add: mkIdmap_def)
  have ok: "0 \<le> offset" "offset + n \<le> 2 ^ 32" using free assms(7-9) by auto
  note m = isolated_map [OF ok assms(10,11), folded set1]
  have out: "x \<notin> host_range e" if "x = -1 \<or> offset \<le> x \<and> x < offset + n" for x
  proof -
    have "0 \<le> Hostid e" using assms(6,7,13) by (auto simp: ranges_ok_def list_all_iff)
    moreover have "host_range e \<inter> {offset..<offset + n} = {}" using free assms(13) by blast
    ultimately show ?thesis using that by (auto simp: host_range_def)
  qed
  have "ShiftFromNs set1 hu hg = (if hu = -1 then -1 else uid, if hg = -1 then -1 else gid)"
    using assms(12) from_into_ns [OF m(1,2), of uid] from_into_ns [OF m(1,3), of gid]
    by (auto simp: ShiftIntoNs_lookup [OF m(1)] ShiftFromNs_lookup [OF m(1)])
  moreover have "hu \<notin> host_range e" "hg \<notin> host_range e"
    by (rule out; use m(4) [of uid gid] assms(12) in \<open>auto split: if_splits\<close>)+
  ultimately show ?thesis using m(4) [of uid gid] assms(12) by auto
qed

theorem isolated_containers_disjoint_witness:
  "fst (ShiftIntoNs [raw_entry True False 1131072 0 65536, raw_entry False True 1131072 0 65536] 1000 0)
    \<notin> host_range (raw_entry False False 1065536 0 65536)"
proof -
  let ?env = "\<lparr>os_idmap = [raw_entry True False 1000000 0 10000000, raw_entry False True 1000000 0 10000000],
    al_names = Some [''a''], al_load = map_of [(''a'', ct_isolated ''1065536'' [])]\<rparr>"
  let ?es = "[raw_entry False False 1065536 0 65536]"
  have run: "allocate sort_by ?env ''c'' [] 65536 =
      Inr ([raw_entry True False 1131072 0 65536, raw_entry False True 1131072 0 65536], 1131072)"
    by (simp add: alloc_defs)
  have others: "other_entries ?env ''c'' [''a''] [] = Inr ?es" by (simp add: alloc_defs)
  have "ranges_ok 1065536 11000000 ?es" by (simp add: ranges_ok_def raw_entry_def)
  with isolated_containers_disjoint [OF isort.go_sort_axioms run, of "[''a'']" "raw_entry True False 1000000 0 10000000"
      "[raw_entry False True 1000000 0 10000000]" ?es 1000 0] others
  show ?thesis
    by (cases "ShiftIntoNs [raw_entry True False 1131072 0 65536, raw_entry False True 1131072 0 65536] 1000 0")
      (simp add: raw_entry_def)
qed

section \<open>Limits from the validation to the scheduler\<close>

text \<open>
  The validation lets every value of \<^verbatim>\<open>limits.cpu\<close> through, and one running container whose value is neither
  a number nor a CPU set stops the balancing of all containers: no control group of a container is written.
\<close>

theorem accepted_limit_stops_balancing:
  assumes "cgCpusetController env" "effective_string env = Continue eff"
    and "containers_list env = Some names" "c \<in> set names" "container_load env c = Some ct" "ct_running ct"
    and "snd (Atoi (cpu_limit eff (ct_config ct))) \<noteq> None"
    and "parseCpuset (cpu_limit eff (ct_config ct)) = Some (Inl e)"
  shows "containerValidConfigKey lxc21 ''limits.cpu'' (cpu_limit eff (ct_config ct)) = None
    \<and> deviceTaskBalance srt ssrt ro env \<in> {None, Some [SetRoot eff]}"
  using deviceTaskBalance_bad_limit [OF assms]
  by (simp add: containerValidConfigKey_def key_switch_def)

theorem accepted_limit_stops_balancing_witness:
  "containerValidConfigKey True ''limits.cpu'' ''lots'' = None
    \<and> deviceTaskBalance sort_by sort_by demo_orders (demo_env ''lots'') \<in> {None, Some [SetRoot ''0,1,2'']}"
proof -
  let ?ct = "\<lparr>ct_config = [(''limits.cpu'', ''lots'')], ct_running = True\<rparr>"
  have limit: "cpu_limit ''0,1,2'' (ct_config ?ct) = ''lots''" by (simp add: cpu_limit_def mhas_def)
  have "containerValidConfigKey True ''limits.cpu'' (cpu_limit ''0,1,2'' (ct_config ?ct)) = None
    \<and> deviceTaskBalance sort_by sort_by demo_orders (demo_env ''lots'') \<in> {None, Some [SetRoot ''0,1,2'']}"
  proof (rule accepted_limit_stops_balancing)
    show "snd (Atoi (cpu_limit ''0,1,2'' (ct_config ?ct))) \<noteq> None"
      "parseCpuset (cpu_limit ''0,1,2'' (ct_config ?ct)) = Some (Inl (InvalidCpuset ''lots''))"
      unfolding limit by (simp_all add: parseCpuset_def parse_chunk_def ContainsChar_def
          Atoi_def ParseInt_def ParseUint_def digit_val_def Let_def)
  qed (use demo_cpus in \<open>auto simp: demo_env_def\<close>)
  then show ?thesis by (simp only: limit)
qed

end
